(* ===== verification/Prelude.thy ===== *)
theory Prelude
  imports Main "HOL-Library.Word" "HOL-Library.AList" "HOL-Library.Multiset" "HOL-Library.Sublist"
begin

text \<open>
  The shared base of the development: machine integers at their Rust width, the values of
  \<open>anyhow::Error\<close>, Rust's hash maps, stable sorting and grouping by a key, and the generic
  lemmas on lists and association lists that the component theories share.

  Conventions.
  \<^item> A Rust \<open>String\<close> is a HOL string, a list of 8-bit characters, that is its UTF-8 bytes.
  \<^item> \<open>i64\<close> is a 64-bit word read with \<^const>\<open>sint\<close>; \<open>usize\<close> is a 64-bit word.
  \<^item> A \<open>HashMap\<close> is an association list with distinct keys. Its iteration order is not
    specified, so every operation that iterates takes an order \<open>ord\<close>, a function that
    rearranges the entries, and the theorems hold for every such \<open>ord\<close>.
  \<^item> \<open>Result\<close> is a sum with the error on the left; a panic is the value \<^const>\<open>None\<close>.
\<close>

named_theorems model_defs \<open>definitions that the component proofs unfold\<close>

section \<open>Machine integers\<close>

type_synonym u8 = "8 word"
type_synonym u16 = "16 word"
type_synonym u32 = "32 word"
type_synonym u64 = "64 word"
type_synonym u128 = "128 word"
type_synonym usize = "64 word"
type_synonym i64 = "64 word"

definition i64_min :: i64 where
  "i64_min = 0x8000000000000000"

definition i64_max :: i64 where
  "i64_max = 0x7FFFFFFFFFFFFFFF"

lemma sint_i64_max: "sint i64_max = 2 ^ 63 - 1"
  by (simp add: i64_max_def)

lemma sint_i64_min: "sint i64_min = - (2 ^ 63)"
  by (simp add: i64_min_def)

lemma sint_le_i64_max [simp]: "sint (p :: i64) \<le> sint i64_max"
  using sint_lt [of p] by (simp add: sint_i64_max)

lemma i64_min_le_sint [simp]: "sint i64_min \<le> sint (p :: i64)"
  using sint_ge [of p] by (simp add: sint_i64_min)

lemma sint_eq_i64_max: "sint (p :: i64) = sint i64_max \<longleftrightarrow> p = i64_max"
  by (metis signed_word_eqI)

lemma sint_Suc:
  assumes "(p :: i64) \<noteq> i64_max"
  shows "sint (p + 1) = sint p + 1"
proof -
  have "sint p < 2 ^ 63 - 1"
    using assms sint_le_i64_max [of p] sint_eq_i64_max [of p] by (simp add: sint_i64_max)
  moreover have "- (2 ^ 63) \<le> sint p" using sint_ge [of p] by simp
  ultimately show ?thesis
    by (simp add: sint_word_ariths signed_take_bit_int_eq_self)
qed

text \<open>Casts of an \<open>i64\<close> that is not negative.\<close>

lemma uint_i64: "0 \<le> sint (i :: i64) \<Longrightarrow> uint i = sint i"
  using sint_lt [of i] by (simp add: uint_sint take_bit_int_eq_self)

lemma uint_ucast_i64:
  "0 \<le> sint (i :: i64) \<Longrightarrow> sint i < 2 ^ 32 \<Longrightarrow> uint (ucast i :: u32) = sint i"
  using uint_i64 [of i] by (simp add: unsigned_ucast_eq take_bit_int_eq_self)

lemma ucast_ucast_u32:
  assumes "0 \<le> sint (i :: i64)" "sint i < 2 ^ 32"
  shows "ucast (ucast i :: u32) = i"
proof -
  have "uint (ucast (ucast i :: u32) :: i64) = uint (ucast i :: u32)"
    by (rule uint_up_ucast) (simp add: is_up)
  then have "uint (ucast (ucast i :: u32) :: i64) = uint i"
    using uint_ucast_i64 [OF assms] uint_i64 [OF assms(1)] by (simp only:)
  then show ?thesis by (rule word_uint_eqI)
qed

lemma uint_scast_i64: "0 \<le> sint (i :: i64) \<Longrightarrow> uint (scast i :: u128) = sint i"
  unfolding scast_eq uint_word_of_int_eq
  using sint_lt [of i] by (simp add: take_bit_int_eq_self)

lemma ucast_scast_u128:
  assumes "0 \<le> sint (i :: i64)"
  shows "ucast (scast i :: u128) = i"
proof -
  have "uint (ucast (scast i :: u128) :: i64) = take_bit 64 (uint (scast i :: u128))"
    using unsigned_ucast_eq [of "scast i :: u128", where 'c = 64] by simp
  also have "\<dots> = uint i"
    unfolding uint_scast_i64 [OF assms]
    using sint_lt [of i] assms uint_i64 [OF assms] by (simp add: take_bit_int_eq_self)
  finally show ?thesis by (rule word_uint_eqI)
qed

section \<open>Errors\<close>

text \<open>
  The errors that the code builds or lets through with \<open>?\<close>. \<open>Msg\<close> is \<open>anyhow!("...")\<close>
  or \<open>bail!("...")\<close>; \<open>External\<close> is an error handed up from a library or the system.
\<close>

datatype error =
    UnexpectedEof
  | TryFromIntError
  | FromUtf8Error
  | ParseIntError
  | AddrParseError
  | Elapsed
  | Msg string
  | External string

type_synonym 'a result = "error + 'a"

text \<open>\<open>Result::ok\<close>.\<close>

fun result_ok :: "'a result \<Rightarrow> 'a option" where
  "result_ok (Inl _) = None"
| "result_ok (Inr x) = Some x"

text \<open>\<open>unwrap_or\<close>.\<close>

definition unwrap_or :: "'a option \<Rightarrow> 'a \<Rightarrow> 'a" where
  "unwrap_or x d = (case x of Some y \<Rightarrow> y | None \<Rightarrow> d)"

lemma unwrap_or_simps [simp]: "unwrap_or (Some x) d = x" "unwrap_or None d = d"
  by (simp_all add: unwrap_or_def)

section \<open>Hash maps\<close>

text \<open>
  A \<open>HashMap\<close> as an association list with distinct keys: \<^const>\<open>map_of\<close> looks up,
  \<^const>\<open>AList.update\<close> inserts, \<^const>\<open>AList.delete\<close> removes. An iteration order is
  any function that rearranges the entries.
\<close>

type_synonym ('k, 'v) hash_map = "('k \<times> 'v) list"

definition hash_order :: "('a list \<Rightarrow> 'a list) \<Rightarrow> bool" where
  "hash_order ord \<longleftrightarrow> (\<forall>xs. mset (ord xs) = mset xs)"

lemma hash_order_mset: "hash_order ord \<Longrightarrow> mset (ord xs) = mset xs"
  by (simp add: hash_order_def)

lemma hash_order_set: "hash_order ord \<Longrightarrow> set (ord xs) = set xs"
  by (rule mset_eq_setD) (rule hash_order_mset)

lemma hash_order_id: "hash_order (\<lambda>xs. xs)"
  by (simp add: hash_order_def)

lemma hash_order_rev: "hash_order rev"
  by (simp add: hash_order_def)

lemma distinct_keys_update [simp]:
  "distinct (map fst m) \<Longrightarrow> distinct (map fst (AList.update k v m))"
  by (rule distinct_update)

lemma distinct_keys_delete [simp]:
  "distinct (map fst m) \<Longrightarrow> distinct (map fst (AList.delete k m))"
  by (simp add: distinct_delete)

lemma map_of_update [simp]: "map_of (AList.update k v m) = (map_of m)(k \<mapsto> v)"
  by (simp add: update_conv')

lemma map_of_delete [simp]: "map_of (AList.delete k m) = (map_of m)(k := None)"
  by (simp add: delete_conv')

lemma set_map_of:
  "distinct (map fst m) \<Longrightarrow> (k, v) \<in> set m \<longleftrightarrow> map_of m k = Some v"
  by simp

section \<open>Stable sorting and grouping by a key\<close>

text \<open>
  The reference grouping: one group per key that occurs, in increasing order of the key, each
  group holding the elements of that key in their original order.
\<close>

definition groups_by :: "('a \<Rightarrow> 'k::linorder) \<Rightarrow> 'a list \<Rightarrow> 'a list list" where
  "groups_by f xs = map (\<lambda>k. filter (\<lambda>x. f x = k) xs) (sorted_list_of_set (f ` set xs))"

lemma groups_by_nonempty: "g \<in> set (groups_by f xs) \<Longrightarrow> g \<noteq> []"
  by (auto simp: groups_by_def filter_empty_conv)

lemma set_concat_groups_by [simp]: "set (concat (groups_by f xs)) = set xs"
  by (auto simp: groups_by_def)

lemma groups_by_same_key:
  "g \<in> set (groups_by f xs) \<Longrightarrow> x \<in> set g \<Longrightarrow> y \<in> set g \<Longrightarrow> f x = f y"
  by (auto simp: groups_by_def)

lemma groups_by_Nil [simp]: "groups_by f [] = []"
  by (simp add: groups_by_def)

lemma groups_by_sort_key: "groups_by f (sort_key f xs) = groups_by f xs"
  by (simp add: groups_by_def sort_key_stable)

lemma sorted_list_of_set_split_first:
  assumes "finite A" "a \<in> A" "\<And>b. b \<in> A \<Longrightarrow> a \<le> b"
  shows "sorted_list_of_set A = a # sorted_list_of_set (A - {a})"
proof -
  have "Min A = a" using assms by (auto intro: Min_eqI)
  moreover have "A \<noteq> {}" using assms by auto
  ultimately show ?thesis using sorted_list_of_set_nonempty [OF assms(1)] by simp
qed

lemma sorted_map_dropWhile: "sorted (map f xs) \<Longrightarrow> sorted (map f (dropWhile (\<lambda>y. f y = v) xs))"
  using sorted_dropWhile [of "map f xs" "\<lambda>w. w = v"] by (simp add: dropWhile_map o_def)

lemma dropWhile_sorted_gt:
  assumes "sorted (map f (x # xs))" and y: "y \<in> set (dropWhile (\<lambda>y. f y = f x) xs)"
  shows "f x < f y"
proof -
  let ?rest = "dropWhile (\<lambda>y. f y = f x) xs"
  from y obtain z zs where z: "?rest = z # zs" by (cases ?rest) simp_all
  then have "f z \<noteq> f x" using hd_dropWhile [of "\<lambda>y. f y = f x" xs] by simp
  moreover have "z \<in> set xs" using z by (metis list.set_intros(1) set_dropWhileD)
  ultimately have "f x < f z" using assms(1) by (auto simp: order_less_le)
  moreover have "sorted (map f (z # zs))"
    using sorted_map_dropWhile [of f xs "f x"] assms(1) z by simp
  ultimately show ?thesis using y z by auto
qed

lemma filter_sorted_least:
  assumes "sorted (map f (x # xs))"
  shows "filter (\<lambda>y. f y = f x) xs = takeWhile (\<lambda>y. f y = f x) xs"
proof -
  let ?eq = "\<lambda>y. f y = f x"
  have "filter ?eq xs = filter ?eq (takeWhile ?eq xs) @ filter ?eq (dropWhile ?eq xs)"
    by (metis filter_append takeWhile_dropWhile_id)
  moreover have "filter ?eq (takeWhile ?eq xs) = takeWhile ?eq xs"
    by (rule filter_True) (auto dest: set_takeWhileD)
  moreover have "filter ?eq (dropWhile ?eq xs) = []"
    using dropWhile_sorted_gt [OF assms] by (force simp: filter_empty_conv)
  ultimately show ?thesis by simp
qed

text \<open>A sorted list starts with the whole group of its least key.\<close>

lemma groups_by_Cons_sorted:
  assumes "sorted (map f (x # xs))"
  shows "groups_by f (x # xs) =
    (x # takeWhile (\<lambda>y. f y = f x) xs) # groups_by f (dropWhile (\<lambda>y. f y = f x) xs)"
proof -
  let ?eq = "\<lambda>y. f y = f x"
  let ?rest = "dropWhile ?eq xs"
  have le: "\<And>y. y \<in> set xs \<Longrightarrow> f x \<le> f y" using assms by auto
  have gt: "f x < f y" if "y \<in> set ?rest" for y
    using assms that by (rule dropWhile_sorted_gt)
  have tw: "filter ?eq xs = takeWhile ?eq xs"
    using assms by (rule filter_sorted_least)
  have keys: "f ` set (x # xs) - {f x} = f ` set ?rest"
  proof (rule set_eqI, rule iffI)
    fix k assume "k \<in> f ` set (x # xs) - {f x}"
    then obtain y where y: "y \<in> set xs" "k = f y" "f y \<noteq> f x" by auto
    have "y \<in> set (takeWhile ?eq xs) \<or> y \<in> set ?rest"
      using y(1) by (metis Un_iff set_append takeWhile_dropWhile_id)
    moreover have "y \<notin> set (takeWhile ?eq xs)" using y(3) by (auto dest: set_takeWhileD)
    ultimately show "k \<in> f ` set ?rest" using y(2) by blast
  next
    fix k assume "k \<in> f ` set ?rest"
    then obtain y where "y \<in> set ?rest" "k = f y" by blast
    then show "k \<in> f ` set (x # xs) - {f x}"
      using gt [of y] set_dropWhileD [of y ?eq xs] by auto
  qed
  have low: "filter (\<lambda>y. f y = k) (x # xs) = filter (\<lambda>y. f y = k) ?rest" if "k \<noteq> f x" for k
  proof -
    have "filter (\<lambda>y. f y = k) (takeWhile ?eq xs) = []"
      using that by (auto simp: filter_empty_conv dest: set_takeWhileD)
    then have "filter (\<lambda>y. f y = k) xs = filter (\<lambda>y. f y = k) ?rest"
      by (metis append_Nil filter_append takeWhile_dropWhile_id)
    with that show ?thesis by simp
  qed
  have "sorted_list_of_set (f ` set (x # xs)) = f x # sorted_list_of_set (f ` set ?rest)"
  proof -
    have "sorted_list_of_set (f ` set (x # xs)) = f x # sorted_list_of_set (f ` set (x # xs) - {f x})"
      by (rule sorted_list_of_set_split_first) (use le in auto)
    then show ?thesis by (simp only: keys)
  qed
  then have "groups_by f (x # xs) =
      filter ?eq (x # xs) # map (\<lambda>k. filter (\<lambda>y. f y = k) (x # xs)) (sorted_list_of_set (f ` set ?rest))"
    by (simp only: groups_by_def list.map)
  moreover have "map (\<lambda>k. filter (\<lambda>y. f y = k) (x # xs)) (sorted_list_of_set (f ` set ?rest)) =
      groups_by f ?rest"
    unfolding groups_by_def
  proof (rule map_cong [OF refl])
    fix k assume "k \<in> set (sorted_list_of_set (f ` set ?rest))"
    then have "k \<noteq> f x" using gt by force
    then show "filter (\<lambda>y. f y = k) (x # xs) = filter (\<lambda>y. f y = k) ?rest" by (rule low)
  qed
  ultimately show ?thesis using tw by simp
qed

lemma sorted_list_of_set_insert_top:
  assumes "finite A" "\<And>a. a \<in> A \<Longrightarrow> a < m"
  shows "sorted_list_of_set (insert m A) = sorted_list_of_set A @ [m]"
proof -
  let ?xs = "sorted_list_of_set A @ [m]"
  have "sorted ?xs" using assms by (auto simp: sorted_append order_less_imp_le)
  moreover have "distinct ?xs" using assms by auto
  moreover have "set ?xs = insert m A" using assms(1) by simp
  ultimately show ?thesis by (metis sorted_list_of_set.idem_if_sorted_distinct)
qed

text \<open>The elements of the greatest key form the last group.\<close>

lemma groups_by_top:
  assumes "\<And>x. f x \<le> m"
  shows "groups_by f xs = groups_by f (filter (\<lambda>x. f x \<noteq> m) xs) @
    (if filter (\<lambda>x. f x = m) xs = [] then [] else [filter (\<lambda>x. f x = m) xs])"
proof -
  let ?low = "filter (\<lambda>x. f x \<noteq> m) xs" and ?top = "filter (\<lambda>x. f x = m) xs"
  have low: "map (\<lambda>k. filter (\<lambda>x. f x = k) xs) (sorted_list_of_set (f ` set ?low)) = groups_by f ?low"
    unfolding groups_by_def by (rule map_cong) (auto intro!: filter_cong)
  show ?thesis
  proof (cases "?top = []")
    case True
    then have "?low = xs" by (auto simp: filter_empty_conv filter_id_conv)
    with True show ?thesis by simp
  next
    case False
    then have keys: "f ` set xs = insert m (f ` set ?low)" by (auto simp: filter_empty_conv)
    have "sorted_list_of_set (f ` set xs) = sorted_list_of_set (f ` set ?low) @ [m]"
      unfolding keys
      by (rule sorted_list_of_set_insert_top) (use assms in \<open>auto simp: order_less_le\<close>)
    then show ?thesis using False low by (simp add: groups_by_def)
  qed
qed

lemma filter_concat_groups_by:
  "k \<in> f ` set xs \<Longrightarrow> filter (\<lambda>x. f x = k) xs \<in> set (groups_by f xs)"
  by (auto simp: groups_by_def)

end
