(* ===== verification/Net.thy ===== *)
theory Net
  imports Prelude
begin

unbundle bit_operations_syntax

text \<open>
  Network addresses. The standard library's \<open>IpAddr\<close> and \<open>SocketAddr\<close> (an IPv6 socket address
  carries a flow info and a scope id), their big-endian octets, the address predicates the program
  asks for, and the helpers of \<open>src/lib/utils/net/miscellaneous.rs\<close>.
\<close>

section \<open>Addresses\<close>

datatype ip_addr = IpV4 u32 | IpV6 u128

datatype socket_addr =
    SockV4 (v4_ip: u32) (v4_port: u16)
  | SockV6 (v6_ip: u128) (v6_port: u16) (v6_flowinfo: u32) (v6_scope_id: u32)

text \<open>\<open>SocketAddr::new\<close>: flow info and scope id are zero.\<close>

fun socket_addr_new :: "ip_addr \<Rightarrow> u16 \<Rightarrow> socket_addr" where
  "socket_addr_new (IpV4 ip) port = SockV4 ip port"
| "socket_addr_new (IpV6 ip) port = SockV6 ip port 0 0"

fun sa_ip :: "socket_addr \<Rightarrow> ip_addr" where
  "sa_ip (SockV4 ip _) = IpV4 ip"
| "sa_ip (SockV6 ip _ _ _) = IpV6 ip"

fun sa_port :: "socket_addr \<Rightarrow> u16" where
  "sa_port (SockV4 _ port) = port"
| "sa_port (SockV6 _ port _ _) = port"

text \<open>The address without what an IPv6 address carries beside the IP and the port.\<close>

definition sa_normal :: "socket_addr \<Rightarrow> socket_addr" where
  "sa_normal a = socket_addr_new (sa_ip a) (sa_port a)"

lemma sa_ip_new [simp]: "sa_ip (socket_addr_new ip port) = ip"
  by (cases ip) simp_all

lemma sa_port_new [simp]: "sa_port (socket_addr_new ip port) = port"
  by (cases ip) simp_all

lemma sa_normal_simps [simp]:
  "sa_normal (SockV4 ip port) = SockV4 ip port"
  "sa_normal (SockV6 ip6 port flow scope) = SockV6 ip6 port 0 0"
  by (simp_all add: sa_normal_def)

section \<open>Big-endian octets\<close>

text \<open>\<open>be_bytes n w\<close> is the low \<open>n\<close> octets of \<open>w\<close>, most significant first.\<close>

fun be_bytes :: "nat \<Rightarrow> 'a::len word \<Rightarrow> u8 list" where
  "be_bytes 0 w = []"
| "be_bytes (Suc n) w = ucast (drop_bit (8 * n) w) # be_bytes n w"

definition from_be_step :: "'a::len word \<Rightarrow> u8 \<Rightarrow> 'a word" where
  "from_be_step acc b = push_bit 8 acc OR ucast b"

definition from_be :: "u8 list \<Rightarrow> 'a::len word" where
  "from_be bs = foldl from_be_step 0 bs"

lemma length_be_bytes [simp]: "length (be_bytes n w) = n"
  by (induction n) simp_all

lemma from_be_foldl:
  "foldl from_be_step acc (be_bytes n w) = (push_bit (8 * n) acc OR take_bit (8 * n) w :: 'a::len word)"
proof (induction n arbitrary: acc)
  case 0
  then show ?case by simp
next
  case (Suc n)
  have "foldl from_be_step acc (be_bytes (Suc n) w) =
      push_bit (8 * n) (from_be_step acc (ucast (drop_bit (8 * n) w))) OR take_bit (8 * n) w"
    using Suc by simp
  also have "\<dots> = push_bit (8 * Suc n) acc OR take_bit (8 * Suc n) w"
    by (rule bit_word_eqI)
      (auto simp: from_be_step_def bit_or_iff bit_push_bit_iff bit_take_bit_iff bit_unsigned_iff
        bit_drop_bit_eq less_diff_conv2 algebra_simps)
  finally show ?case .
qed

lemma from_be_bytes:
  "LENGTH('a) \<le> 8 * n \<Longrightarrow> from_be (be_bytes n w) = (w :: 'a::len word)"
  by (simp add: from_be_def from_be_foldl take_bit_word_eq_self)

lemma from_be_bytes_u16 [simp]: "from_be (be_bytes 2 w) = (w :: u16)"
  by (rule from_be_bytes) simp

lemma from_be_bytes_u32 [simp]: "from_be (be_bytes 4 w) = (w :: u32)"
  by (rule from_be_bytes) simp

lemma from_be_bytes_u128 [simp]: "from_be (be_bytes 16 w) = (w :: u128)"
  by (rule from_be_bytes) simp

text \<open>The octets of an address, as stored in the database and written on the wire.\<close>

fun ip_octets :: "ip_addr \<Rightarrow> u8 list" where
  "ip_octets (IpV4 ip) = be_bytes 4 ip"
| "ip_octets (IpV6 ip) = be_bytes 16 ip"

section \<open>Address predicates\<close>

definition ipv4_octet :: "nat \<Rightarrow> u32 \<Rightarrow> u8" where
  "ipv4_octet i ip = be_bytes 4 ip ! i"

definition ipv4_is_private :: "u32 \<Rightarrow> bool" where
  "ipv4_is_private ip \<longleftrightarrow>
     ipv4_octet 0 ip = 10
   \<or> (ipv4_octet 0 ip = 172 \<and> 16 \<le> ipv4_octet 1 ip \<and> ipv4_octet 1 ip \<le> 31)
   \<or> (ipv4_octet 0 ip = 192 \<and> ipv4_octet 1 ip = 168)"

definition ipv4_is_loopback :: "u32 \<Rightarrow> bool" where
  "ipv4_is_loopback ip \<longleftrightarrow> ipv4_octet 0 ip = 127"

definition ipv6_is_loopback :: "u128 \<Rightarrow> bool" where
  "ipv6_is_loopback ip \<longleftrightarrow> ip = 1"

section \<open>Helpers\<close>

definition any_address_ipv4 :: socket_addr where
  "any_address_ipv4 = SockV4 0 0"

definition any_address_ipv6 :: socket_addr where
  "any_address_ipv6 = SockV6 0 0 0 0"

fun get_any_address :: "socket_addr \<Rightarrow> socket_addr" where
  "get_any_address (SockV4 _ _) = any_address_ipv4"
| "get_any_address (SockV6 _ _ _ _) = any_address_ipv6"

fun get_any_port_address :: "ip_addr \<Rightarrow> socket_addr" where
  "get_any_port_address (IpV4 ip) = SockV4 ip 0"
| "get_any_port_address (IpV6 ip) = SockV6 ip 0 0 0"

end
