(* ===== verification/Net_Text.thy ===== *)
theory Net_Text
  imports Net
begin

text \<open>
  The textual form of addresses in the standard library: \<open>FromStr\<close> (the recursive-descent parser
  of \<open>core::net\<close>) and \<open>Display\<close>. The program parses addresses of rules and header values and
  prints the destination into the \<open>X-Address\<close> header.
\<close>

section \<open>Numbers\<close>

text \<open>\<open>char::to_digit\<close>.\<close>

definition digit_val :: "nat \<Rightarrow> char \<Rightarrow> nat option" where
  "digit_val radix c =
     (let n = of_char c :: nat;
          v = (if 48 \<le> n \<and> n \<le> 57 then n - 48
               else if 97 \<le> n \<and> n \<le> 122 then n - 87
               else if 65 \<le> n \<and> n \<le> 90 then n - 55 else 36)
      in if v < radix then Some v else None)"

fun take_digits :: "nat \<Rightarrow> string \<Rightarrow> nat list \<times> string" where
  "take_digits radix [] = ([], [])"
| "take_digits radix (c # cs) =
     (case digit_val radix c of
        None \<Rightarrow> ([], c # cs)
      | Some d \<Rightarrow> (let (ds, rest) = take_digits radix cs in (d # ds, rest)))"

definition digits_val :: "nat \<Rightarrow> nat list \<Rightarrow> nat" where
  "digits_val radix ds = foldl (\<lambda>acc d. acc * radix + d) 0 ds"

text \<open>\<open>Parser::read_number\<close> for a type whose largest value is \<open>bound\<close>.\<close>

definition read_number ::
  "nat \<Rightarrow> nat option \<Rightarrow> bool \<Rightarrow> nat \<Rightarrow> string \<Rightarrow> (nat \<times> string) option" where
  "read_number radix max_digits allow_zero_prefix bound s =
     (let (ds, rest) = take_digits radix s in
      if ds = [] then None
      else if (case max_digits of None \<Rightarrow> False | Some m \<Rightarrow> m < length ds) then None
      else if \<not> allow_zero_prefix \<and> hd s = CHR ''0'' \<and> 1 < length ds then None
      else if bound < digits_val radix ds then None
      else Some (digits_val radix ds, rest))"

fun read_given :: "char \<Rightarrow> string \<Rightarrow> string option" where
  "read_given c [] = None"
| "read_given c (x # xs) = (if x = c then Some xs else None)"

text \<open>\<open>Parser::read_separator\<close>: the separator first, unless this is the first element.\<close>

definition read_separator ::
  "bool \<Rightarrow> char \<Rightarrow> (string \<Rightarrow> ('a \<times> string) option) \<Rightarrow> string \<Rightarrow> ('a \<times> string) option" where
  "read_separator first sep inner s =
     (if first then inner s else Option.bind (read_given sep s) inner)"

section \<open>Parsing addresses\<close>

definition read_octet :: "string \<Rightarrow> (nat \<times> string) option" where
  "read_octet = read_number 10 (Some 3) False 255"

definition read_ipv4 :: "string \<Rightarrow> (u32 \<times> string) option" where
  "read_ipv4 s =
     Option.bind (read_separator True CHR ''.'' read_octet s) (\<lambda>(a, s).
     Option.bind (read_separator False CHR ''.'' read_octet s) (\<lambda>(b, s).
     Option.bind (read_separator False CHR ''.'' read_octet s) (\<lambda>(c, s).
     Option.bind (read_separator False CHR ''.'' read_octet s) (\<lambda>(d, s).
       Some (from_be (map word_of_nat [a, b, c, d]), s)))))"

text \<open>The groups read, whether they end in an IPv4 address, and the rest of the input.\<close>

fun read_groups :: "bool \<Rightarrow> nat \<Rightarrow> string \<Rightarrow> u16 list \<times> bool \<times> string" where
  "read_groups first 0 s = ([], False, s)"
| "read_groups first (Suc r) s =
     (case (if 1 \<le> r then read_separator first CHR '':'' read_ipv4 s else None) of
        Some (ip, s') \<Rightarrow> ([ucast (drop_bit 16 ip), ucast ip], True, s')
      | None \<Rightarrow>
          (case read_separator first CHR '':'' (read_number 16 (Some 4) True 65535) s of
             Some (g, s') \<Rightarrow>
               (let (gs, v4, s'') = read_groups False r s' in (word_of_nat g # gs, v4, s''))
           | None \<Rightarrow> ([], False, s)))"

lemmas read_groups_numeral [simp] =
  read_groups.simps(2) [of first "pred_numeral k" for first k, folded numeral_eq_Suc]

definition ipv6_of_groups :: "u16 list \<Rightarrow> u128" where
  "ipv6_of_groups gs = foldl (\<lambda>acc g. push_bit 16 acc OR ucast g) 0 gs"

definition read_ipv6 :: "string \<Rightarrow> (u128 \<times> string) option" where
  "read_ipv6 s =
     (let (head, head_v4, s1) = read_groups True 8 s in
      if length head = 8 then Some (ipv6_of_groups head, s1)
      else if head_v4 then None
      else Option.bind (read_given CHR '':'' s1) (\<lambda>s2.
           Option.bind (read_given CHR '':'' s2) (\<lambda>s3.
             let (tail, _, s4) = read_groups True (8 - (length head + 1)) s3
             in Some (ipv6_of_groups
                  (head @ replicate (8 - length head - length tail) 0 @ tail), s4))))"

definition read_ip_addr :: "string \<Rightarrow> (ip_addr \<times> string) option" where
  "read_ip_addr s =
     (case read_ipv4 s of
        Some (ip, rest) \<Rightarrow> Some (IpV4 ip, rest)
      | None \<Rightarrow> map_option (\<lambda>(ip, rest). (IpV6 ip, rest)) (read_ipv6 s))"

definition read_port :: "string \<Rightarrow> (u16 \<times> string) option" where
  "read_port s =
     Option.bind (read_given CHR '':'' s) (\<lambda>s'.
       map_option (\<lambda>(n, rest). (word_of_nat n, rest)) (read_number 10 None True 65535 s'))"

definition read_scope_id :: "string \<Rightarrow> u32 \<times> string" where
  "read_scope_id s =
     (case Option.bind (read_given CHR ''%'' s) (read_number 10 None True 4294967295) of
        Some (n, rest) \<Rightarrow> (word_of_nat n, rest)
      | None \<Rightarrow> (0, s))"

definition read_socket_addr_v4 :: "string \<Rightarrow> (socket_addr \<times> string) option" where
  "read_socket_addr_v4 s =
     Option.bind (read_ipv4 s) (\<lambda>(ip, s').
       map_option (\<lambda>(port, rest). (SockV4 ip port, rest)) (read_port s'))"

definition read_socket_addr_v6 :: "string \<Rightarrow> (socket_addr \<times> string) option" where
  "read_socket_addr_v6 s =
     Option.bind (read_given CHR ''['' s) (\<lambda>s.
     Option.bind (read_ipv6 s) (\<lambda>(ip, s).
       let (scope, s) = read_scope_id s in
       Option.bind (read_given CHR '']'' s) (\<lambda>s.
         map_option (\<lambda>(port, rest). (SockV6 ip port 0 scope, rest)) (read_port s))))"

text \<open>\<open>parse_with\<close>: the whole input must be consumed.\<close>

definition parse_all :: "(string \<Rightarrow> ('a \<times> string) option) \<Rightarrow> string \<Rightarrow> 'a option" where
  "parse_all p s = (case p s of Some (x, []) \<Rightarrow> Some x | _ \<Rightarrow> None)"

definition parse_ip_addr :: "string \<Rightarrow> ip_addr option" where
  "parse_ip_addr = parse_all read_ip_addr"

definition parse_socket_addr :: "string \<Rightarrow> socket_addr option" where
  "parse_socket_addr =
     parse_all (\<lambda>s. case read_socket_addr_v4 s of Some r \<Rightarrow> Some r | None \<Rightarrow> read_socket_addr_v6 s)"

lemmas parse_defs = parse_ip_addr_def parse_socket_addr_def parse_all_def read_ip_addr_def
  read_socket_addr_v4_def read_socket_addr_v6_def read_scope_id_def read_port_def
  read_ipv4_def read_ipv6_def read_octet_def read_separator_def read_number_def
  digit_val_def digits_val_def ipv6_of_groups_def from_be_def from_be_step_def

section \<open>Printing addresses\<close>

definition digit_char :: "nat \<Rightarrow> char" where
  "digit_char d = (char_of (if d < 10 then 48 + d else 87 + d))"

text \<open>The digits of a number, most significant first, without leading zeros.\<close>

fun show_digits :: "nat \<Rightarrow> nat \<Rightarrow> string" where
  "show_digits radix n =
     (if radix < 2 \<or> n < radix then [digit_char n]
      else show_digits radix (n div radix) @ [digit_char (n mod radix)])"

declare show_digits.simps [simp del]

definition show_ipv4 :: "u32 \<Rightarrow> string" where
  "show_ipv4 ip =
     show_digits 10 (unat (ipv4_octet 0 ip)) @ ''.'' @
     show_digits 10 (unat (ipv4_octet 1 ip)) @ ''.'' @
     show_digits 10 (unat (ipv4_octet 2 ip)) @ ''.'' @
     show_digits 10 (unat (ipv4_octet 3 ip))"

text \<open>The first longest run of zero segments, as (start, length).\<close>

fun zero_span :: "nat \<Rightarrow> nat \<times> nat \<Rightarrow> nat \<times> nat \<Rightarrow> u16 list \<Rightarrow> nat \<times> nat" where
  "zero_span i longest current [] = longest"
| "zero_span i longest current (seg # segs) =
     (if seg = 0
      then (let current' = (if snd current = 0 then (i, 1) else (fst current, snd current + 1));
                longest' = (if snd longest < snd current' then current' else longest)
            in zero_span (Suc i) longest' current' segs)
      else zero_span (Suc i) longest (0, 0) segs)"

definition ipv6_segments :: "u128 \<Rightarrow> u16 list" where
  "ipv6_segments ip = map (\<lambda>i. ucast (drop_bit (16 * i) ip)) [7, 6, 5, 4, 3, 2, 1, 0]"

fun show_segments :: "u16 list \<Rightarrow> string" where
  "show_segments [] = []"
| "show_segments [g] = show_digits 16 (unat g)"
| "show_segments (g # gs) = show_digits 16 (unat g) @ '':'' @ show_segments gs"

definition show_ipv6 :: "u128 \<Rightarrow> string" where
  "show_ipv6 ip =
     (let segs = ipv6_segments ip in
      if take 6 segs = [0, 0, 0, 0, 0, 0xFFFF] then ''::ffff:'' @ show_ipv4 (ucast ip)
      else
        (let (start, len) = zero_span 0 (0, 0) (0, 0) segs in
         if 1 < len then show_segments (take start segs) @ ''::'' @ show_segments (drop (start + len) segs)
         else show_segments segs))"

fun show_ip_addr :: "ip_addr \<Rightarrow> string" where
  "show_ip_addr (IpV4 ip) = show_ipv4 ip"
| "show_ip_addr (IpV6 ip) = show_ipv6 ip"

fun show_socket_addr :: "socket_addr \<Rightarrow> string" where
  "show_socket_addr (SockV4 ip port) = show_ipv4 ip @ '':'' @ show_digits 10 (unat port)"
| "show_socket_addr (SockV6 ip port _ scope) =
     (if scope = 0 then ''['' @ show_ipv6 ip @ '']:'' @ show_digits 10 (unat port)
      else ''['' @ show_ipv6 ip @ ''%'' @ show_digits 10 (unat scope) @ '']:'' @
           show_digits 10 (unat port))"

end
