(* ===== verification/Rule.thy ===== *)
theory Rule
  imports Net_Text
begin

text \<open>
  Routing rules (\<open>src/lib/route/rule.rs\<close>): labels, the five kinds of rule and the trait \<open>Rule\<close>
  with its three methods. Prefixes (\<open>ipnet::IpNet\<close>), regular expressions and \<open>itertools\<close> are
  libraries of the program, so they are the parameters gathered in \<open>route_lib\<close>.
\<close>

section \<open>Labels\<close>

datatype builtin_label = Direct | Proxy | Any

datatype label = BuiltIn builtin_label | Custom string

fun show_builtin_label :: "builtin_label \<Rightarrow> string" where
  "show_builtin_label Direct = ''DIRECT''"
| "show_builtin_label Proxy = ''PROXY''"
| "show_builtin_label Any = ''ANY''"

fun show_label :: "label \<Rightarrow> string" where
  "show_label (BuiltIn l) = show_builtin_label l"
| "show_label (Custom s) = s"

text \<open>
  Deserialising a label from a string: the enum is untagged, so the upper-case built-in names are
  tried first and any other string is a custom label.
\<close>

definition label_of_string :: "string \<Rightarrow> label" where
  "label_of_string s =
     (if s = ''DIRECT'' then BuiltIn Direct
      else if s = ''PROXY'' then BuiltIn Proxy
      else if s = ''ANY'' then BuiltIn Any
      else Custom s)"

lemma show_label_of_string [simp]: "show_label (label_of_string s) = s"
  by (simp add: label_of_string_def)

type_synonym tagged_label = "label \<times> string option"

section \<open>What the libraries provide\<close>

record ('net, 're) route_lib =
  net_parse :: "string \<Rightarrow> 'net option"
  net_new :: "ip_addr \<Rightarrow> u8 \<Rightarrow> 'net option"
  net_contains :: "'net \<Rightarrow> ip_addr \<Rightarrow> bool"
  regex_parse :: "string \<Rightarrow> 're option"
  regex_is_match :: "'re \<Rightarrow> string \<Rightarrow> bool"
  iter_unique :: "tagged_label list list \<Rightarrow> tagged_label list list"

text \<open>
  Documented behaviour: a prefix of full length contains exactly its own address, and is always
  valid; \<open>unique\<close> drops every element that has come before and keeps the order.
\<close>

definition full_prefix_length :: "ip_addr \<Rightarrow> u8" where
  "full_prefix_length ip = (case ip of IpV4 _ \<Rightarrow> 32 | IpV6 _ \<Rightarrow> 128)"

definition host_net_law :: "('net, 're) route_lib \<Rightarrow> bool" where
  "host_net_law lib \<longleftrightarrow>
     (\<forall>ip. \<exists>n. net_new lib ip (full_prefix_length ip) = Some n \<and>
        (\<forall>a. net_contains lib n a \<longleftrightarrow> a = ip))"

definition unique_law :: "('net, 're) route_lib \<Rightarrow> bool" where
  "unique_law lib \<longleftrightarrow>
     iter_unique lib [] = [] \<and>
     (\<forall>xs x. iter_unique lib (xs @ [x]) =
        (if x \<in> set xs then iter_unique lib xs else iter_unique lib xs @ [x]))"

lemma set_iter_unique:
  assumes "unique_law lib"
  shows "set (iter_unique lib xs) = set xs"
  using assms by (induction xs rule: rev_induct) (auto simp: unique_law_def)

lemma distinct_iter_unique:
  assumes "unique_law lib"
  shows "distinct (iter_unique lib xs)"
  using assms set_iter_unique [OF assms]
  by (induction xs rule: rev_induct) (auto simp: unique_law_def)

lemma iter_unique_distinct:
  assumes "unique_law lib"
  shows "distinct xs \<Longrightarrow> iter_unique lib xs = xs"
  using assms by (induction xs rule: rev_induct) (auto simp: unique_law_def)

lemma iter_unique_eq_Nil [simp]:
  assumes "unique_law lib"
  shows "iter_unique lib xs = [] \<longleftrightarrow> xs = []"
  using set_iter_unique [OF assms, of xs] by (metis set_empty)

text \<open>
  An instance of the libraries that satisfies the laws, for closed examples: prefixes are single
  hosts, a pattern matches its own text.
\<close>

definition host_lib :: "(ip_addr, string) route_lib" where
  "host_lib = \<lparr> net_parse = (\<lambda>_. None), net_new = (\<lambda>ip _. Some ip),
     net_contains = (\<lambda>net ip. ip = net), regex_parse = Some, regex_is_match = (=),
     iter_unique = (\<lambda>xs. rev (remdups (rev xs))) \<rparr>"

lemma host_lib_simps [simp]:
  "net_parse host_lib s = None" "net_new host_lib ip n = Some ip"
  "net_contains host_lib net ip \<longleftrightarrow> ip = net" "regex_parse host_lib s = Some s"
  "regex_is_match host_lib s t \<longleftrightarrow> s = t" "iter_unique host_lib xs = rev (remdups (rev xs))"
  by (simp_all add: host_lib_def)

lemma host_lib_unique [simp]: "unique_law host_lib"
  by (simp add: unique_law_def)

lemma host_lib_net [simp]: "host_net_law host_lib"
  by (simp add: host_net_law_def)

section \<open>Rules\<close>

record geoip_rule =
  geoip_matches :: "string list"
  geoip_labels :: "label list"
  geoip_priority :: i64
  geoip_negate :: bool
  geoip_tag :: "string option"

record 'net address_rule =
  match_ips :: "'net list option"
  match_ports :: "u16 list option"
  address_labels :: "label list"
  address_priority :: i64
  address_negate :: bool
  address_tag :: "string option"

record domain_rule =
  domain_matches :: "string list"
  domain_labels :: "label list"
  domain_priority :: i64
  domain_negate :: bool
  domain_tag :: "string option"

record 're domain_pattern_rule =
  pattern_matches :: "'re list"
  pattern_labels :: "label list"
  pattern_priority :: i64
  pattern_negate :: bool
  pattern_tag :: "string option"

record fallback_rule =
  fallback_labels :: "label list"
  fallback_tag :: "string option"

text \<open>The implementors of the trait, behind \<open>Box<dyn Rule>\<close>.\<close>

datatype ('net, 're) rule =
    GeoIpRule geoip_rule
  | AddressRule "'net address_rule"
  | DomainRule domain_rule
  | DomainPatternRule "'re domain_pattern_rule"
  | FallbackRule fallback_rule

fun rule_priority :: "('net, 're) rule \<Rightarrow> i64" where
  "rule_priority (GeoIpRule r) = geoip_priority r"
| "rule_priority (AddressRule r) = address_priority r"
| "rule_priority (DomainRule r) = domain_priority r"
| "rule_priority (DomainPatternRule r) = pattern_priority r"
| "rule_priority (FallbackRule _) = i64_max"

fun rule_tag :: "('net, 're) rule \<Rightarrow> string option" where
  "rule_tag (GeoIpRule r) = geoip_tag r"
| "rule_tag (AddressRule r) = address_tag r"
| "rule_tag (DomainRule r) = domain_tag r"
| "rule_tag (DomainPatternRule r) = pattern_tag r"
| "rule_tag (FallbackRule r) = fallback_tag r"

fun rule_labels :: "('net, 're) rule \<Rightarrow> label list" where
  "rule_labels (GeoIpRule r) = geoip_labels r"
| "rule_labels (AddressRule r) = address_labels r"
| "rule_labels (DomainRule r) = domain_labels r"
| "rule_labels (DomainPatternRule r) = pattern_labels r"
| "rule_labels (FallbackRule r) = fallback_labels r"

fun is_fallback :: "('net, 're) rule \<Rightarrow> bool" where
  "is_fallback (FallbackRule _) = True"
| "is_fallback _ = False"

section \<open>Matching\<close>

definition geoip_match :: "geoip_rule \<Rightarrow> string list option \<Rightarrow> label list option" where
  "geoip_match r region_codes =
     Option.bind region_codes (\<lambda>codes.
       let condition = list_ex (\<lambda>m. list_ex (\<lambda>region. region = m) codes) (geoip_matches r);
           condition = (if geoip_negate r then \<not> condition else condition)
       in if condition then Some (geoip_labels r) else None)"

definition address_match ::
  "('net, 're) route_lib \<Rightarrow> 'net address_rule \<Rightarrow> socket_addr \<Rightarrow> label list option" where
  "address_match lib r address =
     (let port_matched = (case match_ports r of
            Some ports \<Rightarrow> list_ex (\<lambda>port. port = sa_port address) ports
          | None \<Rightarrow> True);
          ip_matched = (case match_ips r of
            Some nets \<Rightarrow> list_ex (\<lambda>net. net_contains lib net (sa_ip address)) nets
          | None \<Rightarrow> True);
          condition = (ip_matched \<and> port_matched);
          condition = (if address_negate r then \<not> condition else condition)
      in if condition then Some (address_labels r) else None)"

text \<open>\<open>str::ends_with\<close> and the slice in front of a suffix.\<close>

definition ends_with :: "string \<Rightarrow> string \<Rightarrow> bool" where
  "ends_with s t \<longleftrightarrow> length t \<le> length s \<and> drop (length s - length t) s = t"

definition domain_matches_one :: "string \<Rightarrow> string \<Rightarrow> bool" where
  "domain_matches_one domain match_domain \<longleftrightarrow>
     domain = match_domain \<or>
     ends_with domain match_domain \<and>
     ends_with (take (length domain - length match_domain) domain) ''.''"

definition domain_match :: "domain_rule \<Rightarrow> string option \<Rightarrow> label list option" where
  "domain_match r domain =
     (case domain of
        Some domain \<Rightarrow>
          (let condition = list_ex (domain_matches_one domain) (domain_matches r);
               condition = (if domain_negate r then \<not> condition else condition)
           in if condition then Some (domain_labels r) else None)
      | None \<Rightarrow> None)"

definition domain_pattern_match ::
  "('net, 're) route_lib \<Rightarrow> 're domain_pattern_rule \<Rightarrow> string option \<Rightarrow> label list option" where
  "domain_pattern_match lib r domain =
     (case domain of
        Some domain \<Rightarrow>
          (let condition = list_ex (\<lambda>pattern. regex_is_match lib pattern domain) (pattern_matches r);
               condition = (if pattern_negate r then \<not> condition else condition)
           in if condition then Some (pattern_labels r) else None)
      | None \<Rightarrow> None)"

definition fallback_match :: "fallback_rule \<Rightarrow> bool \<Rightarrow> label list option" where
  "fallback_match r any_matched = (if any_matched then None else Some (fallback_labels r))"

fun rule_match ::
  "('net, 're) route_lib \<Rightarrow> ('net, 're) rule \<Rightarrow> socket_addr \<Rightarrow> string option \<Rightarrow>
   string list option \<Rightarrow> bool \<Rightarrow> label list option" where
  "rule_match lib (GeoIpRule r) address domain region_codes any_matched =
     geoip_match r region_codes"
| "rule_match lib (AddressRule r) address domain region_codes any_matched =
     address_match lib r address"
| "rule_match lib (DomainRule r) address domain region_codes any_matched =
     domain_match r domain"
| "rule_match lib (DomainPatternRule r) address domain region_codes any_matched =
     domain_pattern_match lib r domain"
| "rule_match lib (FallbackRule r) address domain region_codes any_matched =
     fallback_match r any_matched"

lemmas match_defs = geoip_match_def address_match_def domain_match_def domain_pattern_match_def
  fallback_match_def

section \<open>The contract of a rule\<close>

text \<open>
  The router relies on this of the trait's methods, for a fixed query: a match returns the rule's own labels; only
  a fallback rule looks at whether something has matched already, and it matches exactly when
  nothing has.
\<close>

locale rule_trait =
  fixes priority :: "'r \<Rightarrow> i64"
    and tag :: "'r \<Rightarrow> string option"
    and labels :: "'r \<Rightarrow> label list"
    and fallback :: "'r \<Rightarrow> bool"
    and matches :: "'r \<Rightarrow> bool \<Rightarrow> label list option"
  assumes match_labels: "matches r any = Some ls \<Longrightarrow> ls = labels r"
    and match_any: "\<not> fallback r \<Longrightarrow> matches r any = matches r any'"
    and match_fallback: "fallback r \<Longrightarrow> matches r any = (if any then None else Some (labels r))"
    and fallback_priority: "fallback r \<Longrightarrow> priority r = i64_max"

lemma rule_match_labels:
  "rule_match lib r address domain codes any = Some ls \<Longrightarrow> ls = rule_labels r"
  by (cases r) (auto simp: match_defs Let_def split: if_splits option.splits bind_splits)

lemma rule_match_any:
  "\<not> is_fallback r \<Longrightarrow>
     rule_match lib r address domain codes any = rule_match lib r address domain codes any'"
  by (cases r) simp_all

interpretation rule_impl: rule_trait rule_priority rule_tag rule_labels is_fallback
    "\<lambda>r any. rule_match lib r address domain codes any"
  for lib :: "('net, 're) route_lib" and address domain codes
proof unfold_locales
  show "rule_match lib r address domain codes any = Some ls \<Longrightarrow> ls = rule_labels r" for r any ls
    by (rule rule_match_labels)
  show "\<not> is_fallback r \<Longrightarrow>
      rule_match lib r address domain codes any = rule_match lib r address domain codes any'"
    for r any any'
    by (rule rule_match_any)
  show "is_fallback r \<Longrightarrow>
      rule_match lib r address domain codes any = (if any then None else Some (rule_labels r))"
    for r any
    by (cases r) (simp_all add: fallback_match_def)
  show "is_fallback r \<Longrightarrow> rule_priority r = i64_max" for r
    by (cases r) simp_all
qed

section \<open>Domain matching by labels\<close>

text \<open>The dot-separated labels of a name.\<close>

fun split_on :: "char \<Rightarrow> string \<Rightarrow> string list" where
  "split_on c [] = [[]]"
| "split_on c (x # xs) =
     (if x = c then [] # split_on c xs
      else (case split_on c xs of [] \<Rightarrow> [[x]] | p # ps \<Rightarrow> (x # p) # ps))"

fun join_on :: "char \<Rightarrow> string list \<Rightarrow> string" where
  "join_on c [] = []"
| "join_on c [p] = p"
| "join_on c (p # ps) = p @ c # join_on c ps"

lemma split_on_not_Nil [simp]: "split_on c s \<noteq> []"
  by (cases s) (auto split: list.splits)

lemma split_on_append:
  "split_on c (p @ c # s) = split_on c p @ split_on c s"
  by (induction p) (auto split: list.splits)

lemma join_split_on [simp]: "join_on c (split_on c s) = s"
proof (induction s)
  case (Cons x xs)
  obtain p ps where "split_on c xs = p # ps" by (cases "split_on c xs") simp_all
  with Cons show ?case by (cases ps) auto
qed simp

lemma join_on_append:
  "ps \<noteq> [] \<Longrightarrow> qs \<noteq> [] \<Longrightarrow> join_on c (ps @ qs) = join_on c ps @ c # join_on c qs"
proof (induction c ps rule: join_on.induct)
  case (2 c p)
  then show ?case by (cases qs) simp_all
qed simp_all

lemma ends_with_iff: "ends_with s t \<longleftrightarrow> suffix t s"
proof
  assume "ends_with s t"
  then have "s = take (length s - length t) s @ t"
    by (metis append_take_drop_id ends_with_def)
  then show "suffix t s" by (rule suffixI)
next
  assume "suffix t s"
  then show "ends_with s t" by (auto simp: ends_with_def elim: suffixE)
qed

lemma domain_matches_one_iff:
  "domain_matches_one d m \<longleftrightarrow> d = m \<or> (\<exists>p. d = p @ CHR ''.'' # m)"
proof -
  have "suffix m d \<and> suffix ''.'' (take (length d - length m) d) \<longleftrightarrow> (\<exists>p. d = p @ CHR ''.'' # m)"
    by (auto simp: suffix_def)
  then show ?thesis by (simp add: domain_matches_one_def ends_with_iff)
qed

lemma domain_matches_one_labels:
  "domain_matches_one d m \<longleftrightarrow> suffix (split_on CHR ''.'' m) (split_on CHR ''.'' d)"
proof
  assume "domain_matches_one d m"
  then show "suffix (split_on CHR ''.'' m) (split_on CHR ''.'' d)"
    by (auto simp: domain_matches_one_iff split_on_append suffix_def)
next
  assume "suffix (split_on CHR ''.'' m) (split_on CHR ''.'' d)"
  then obtain ps where ps: "split_on CHR ''.'' d = ps @ split_on CHR ''.'' m"
    by (rule suffixE)
  have "d = join_on CHR ''.'' (ps @ split_on CHR ''.'' m)"
    by (metis join_split_on ps)
  then show "domain_matches_one d m"
    by (cases "ps = []") (auto simp: domain_matches_one_iff join_on_append)
qed

section \<open>Properties\<close>

text \<open>C39: A domain rule matches by whole labels: without negation it matches a name exactly when the
  dot-separated labels of one of its entries are a suffix of the labels of the name (so
  \<open>example.com\<close> covers \<open>www.example.com\<close> and not \<open>badexample.com\<close>), with negation exactly when
  none are; and it never matches a connection without a name.\<close>

theorem domain_rule_matches_labels:
  "rule_match lib (DomainRule r) address domain codes any =
     Option.bind domain (\<lambda>name.
       if (\<exists>m \<in> set (domain_matches r). suffix (split_on CHR ''.'' m) (split_on CHR ''.'' name)) \<noteq>
          domain_negate r
       then Some (domain_labels r) else None)"
  by (auto simp: domain_match_def Let_def list_ex_iff domain_matches_one_labels split: option.splits)

end
