(* ===== verification/Ids.thy ===== *)
theory Ids
  imports Net
begin

text \<open>
  The identifiers of tunnels and of the IN and OUT ends of a match
  (\<open>src/lib/tunnel/tunnel.rs\<close>, \<open>src/lib/match_server/match_server.rs\<close>): newtypes over a UUID.
  A UUID is its 16 octets, read as a 128-bit word. Fresh ids (\<open>Uuid::new_v4\<close>) are inputs of the
  operations that draw them; the textual form belongs to the \<open>uuid\<close> crate and is a parameter.
\<close>

type_synonym uuid = u128

datatype match_in_id = MatchInId uuid

datatype match_out_id = MatchOutId (out_uuid: uuid)

datatype tunnel_id = TunnelId (tunnel_uuid: uuid)

definition tunnel_id_as_bytes :: "tunnel_id \<Rightarrow> u8 list" where
  "tunnel_id_as_bytes i = be_bytes 16 (tunnel_uuid i)"

definition tunnel_id_from_bytes :: "u8 list \<Rightarrow> tunnel_id" where
  "tunnel_id_from_bytes bs = TunnelId (from_be bs)"

lemma tunnel_id_from_as_bytes [simp]: "tunnel_id_from_bytes (tunnel_id_as_bytes i) = i"
  by (cases i) (simp add: tunnel_id_from_bytes_def tunnel_id_as_bytes_def)

lemma length_tunnel_id_as_bytes [simp]: "length (tunnel_id_as_bytes i) = 16"
  by (simp add: tunnel_id_as_bytes_def)

instantiation match_out_id :: linorder
begin

definition less_eq_match_out_id :: "match_out_id \<Rightarrow> match_out_id \<Rightarrow> bool" where
  "less_eq_match_out_id a b \<longleftrightarrow> out_uuid a \<le> out_uuid b"

definition less_match_out_id :: "match_out_id \<Rightarrow> match_out_id \<Rightarrow> bool" where
  "less_match_out_id a b \<longleftrightarrow> out_uuid a < out_uuid b"

instance
  by standard (auto simp: less_eq_match_out_id_def less_match_out_id_def intro: match_out_id.expand)

end

instantiation tunnel_id :: linorder
begin

definition less_eq_tunnel_id :: "tunnel_id \<Rightarrow> tunnel_id \<Rightarrow> bool" where
  "less_eq_tunnel_id a b \<longleftrightarrow> tunnel_uuid a \<le> tunnel_uuid b"

definition less_tunnel_id :: "tunnel_id \<Rightarrow> tunnel_id \<Rightarrow> bool" where
  "less_tunnel_id a b \<longleftrightarrow> tunnel_uuid a < tunnel_uuid b"

instance
  by standard (auto simp: less_eq_tunnel_id_def less_tunnel_id_def intro: tunnel_id.expand)

end

end
