(* ===== verification/Route_Config.thy ===== *)
theory Route_Config
  imports Rule Ids
begin

text \<open>
  Rule configurations and their translation into rules (\<open>src/lib/route/config/in_config.rs\<close>,
  \<open>src/lib/route/config/out_config.rs\<close>), with \<open>OneOrMany\<close> and \<open>parse_ip_net\<close> of
  \<open>src/lib/utils\<close>. The IN side panics on a bad address or pattern (\<^const>\<open>None\<close>); the OUT side
  drops it.
\<close>

datatype 'a one_or_many = One 'a | Many "'a list"

fun into_vec :: "'a one_or_many \<Rightarrow> 'a list" where
  "into_vec (One t) = [t]"
| "into_vec (Many v) = v"

definition parse_ip_net :: "('net, 're) route_lib \<Rightarrow> string \<Rightarrow> 'net result" where
  "parse_ip_net lib ip_net =
     (case net_parse lib ip_net of
        Some net \<Rightarrow> Inr net
      | None \<Rightarrow>
          (case parse_ip_addr ip_net of
             None \<Rightarrow> Inl AddrParseError
           | Some ip \<Rightarrow>
               (let prefix_length = (case ip of IpV4 _ \<Rightarrow> 32 | IpV6 _ \<Rightarrow> 128) in
                case net_new lib ip prefix_length of
                  Some net \<Rightarrow> Inr net
                | None \<Rightarrow> Inl (External ''prefix length''))))"

section \<open>IN rules\<close>

record in_geoip_rule_config =
  igeo_match :: "string one_or_many"
  igeo_negate :: bool
  igeo_out :: "label one_or_many"
  igeo_priority :: "i64 option"
  igeo_tag :: "string option"

record in_address_rule_config =
  iaddr_match_ip :: "string one_or_many option"
  iaddr_match_port :: "u16 one_or_many option"
  iaddr_negate :: bool
  iaddr_out :: "label one_or_many"
  iaddr_priority :: "i64 option"
  iaddr_tag :: "string option"

record in_domain_rule_config =
  idom_match :: "string one_or_many"
  idom_negate :: bool
  idom_out :: "label one_or_many"
  idom_priority :: "i64 option"
  idom_tag :: "string option"

record in_domain_pattern_rule_config =
  ipat_match :: "string one_or_many"
  ipat_negate :: bool
  ipat_out :: "label one_or_many"
  ipat_priority :: "i64 option"
  ipat_tag :: "string option"

record in_fallback_rule_config =
  ifall_out :: "label one_or_many"
  ifall_tag :: "string option"

datatype in_rule_config =
    InGeoIp in_geoip_rule_config
  | InAddress in_address_rule_config
  | InDomain in_domain_rule_config
  | InDomainPattern in_domain_pattern_rule_config
  | InFallback in_fallback_rule_config

fun in_into_rule :: "('net, 're) route_lib \<Rightarrow> in_rule_config \<Rightarrow> ('net, 're) rule option" where
  "in_into_rule lib (InGeoIp config) = Some (GeoIpRule
     \<lparr> geoip_matches = into_vec (igeo_match config),
       geoip_labels = into_vec (igeo_out config),
       geoip_priority = unwrap_or (igeo_priority config) i64_min,
       geoip_negate = igeo_negate config,
       geoip_tag = igeo_tag config \<rparr>)"
| "in_into_rule lib (InAddress config) =
     (let mk = (\<lambda>ips. AddressRule
        \<lparr> match_ips = ips,
          match_ports = map_option into_vec (iaddr_match_port config),
          address_labels = into_vec (iaddr_out config),
          address_priority = unwrap_or (iaddr_priority config) i64_min,
          address_negate = iaddr_negate config,
          address_tag = iaddr_tag config \<rparr>)
      in case iaddr_match_ip config of
           None \<Rightarrow> Some (mk None)
         | Some match_ip \<Rightarrow>
             map_option (\<lambda>ips. mk (Some ips))
               (those (map (\<lambda>ip. result_ok (parse_ip_net lib ip)) (into_vec match_ip))))"
| "in_into_rule lib (InDomain config) = Some (DomainRule
     \<lparr> domain_matches = into_vec (idom_match config),
       domain_labels = into_vec (idom_out config),
       domain_priority = unwrap_or (idom_priority config) i64_min,
       domain_negate = idom_negate config,
       domain_tag = idom_tag config \<rparr>)"
| "in_into_rule lib (InDomainPattern config) =
     map_option (\<lambda>patterns. DomainPatternRule
       \<lparr> pattern_matches = patterns,
         pattern_labels = into_vec (ipat_out config),
         pattern_priority = unwrap_or (ipat_priority config) i64_min,
         pattern_negate = ipat_negate config,
         pattern_tag = ipat_tag config \<rparr>)
     (those (map (regex_parse lib) (into_vec (ipat_match config))))"
| "in_into_rule lib (InFallback config) = Some (FallbackRule
     \<lparr> fallback_labels = into_vec (ifall_out config),
       fallback_tag = ifall_tag config \<rparr>)"

section \<open>OUT rules\<close>

record out_geoip_rule_config =
  ogeo_match :: "string one_or_many"
  ogeo_negate :: bool
  ogeo_priority :: "i64 option"
  ogeo_tag :: "string option"

record out_address_rule_config =
  oaddr_match_ip :: "string one_or_many option"
  oaddr_match_port :: "u16 one_or_many option"
  oaddr_negate :: bool
  oaddr_priority :: "i64 option"
  oaddr_tag :: "string option"

record out_domain_rule_config =
  odom_match :: "string one_or_many"
  odom_negate :: bool
  odom_priority :: "i64 option"
  odom_tag :: "string option"

record out_domain_pattern_rule_config =
  opat_match :: "string one_or_many"
  opat_negate :: bool
  opat_priority :: "i64 option"
  opat_tag :: "string option"

record out_fallback_rule_config =
  ofall_tag :: "string option"

datatype out_rule_config =
    OutGeoIp out_geoip_rule_config
  | OutAddress out_address_rule_config
  | OutDomain out_domain_rule_config
  | OutDomainPattern out_domain_pattern_rule_config
  | OutFallback out_fallback_rule_config

text \<open>
  \<open>show_id\<close> is the \<open>Display\<close> of a \<open>MatchOutId\<close>, that is, of its UUID. Every rule of an OUT
  carries the OUT's id as its only label.
\<close>

fun out_into_rule ::
  "('net, 're) route_lib \<Rightarrow> (match_out_id \<Rightarrow> string) \<Rightarrow> out_rule_config \<Rightarrow> match_out_id \<Rightarrow> i64 \<Rightarrow>
   ('net, 're) rule" where
  "out_into_rule lib show_id (OutGeoIp config) out_id priority_default = GeoIpRule
     \<lparr> geoip_matches = into_vec (ogeo_match config),
       geoip_labels = [Custom (show_id out_id)],
       geoip_priority = unwrap_or (ogeo_priority config) priority_default,
       geoip_negate = ogeo_negate config,
       geoip_tag = ogeo_tag config \<rparr>"
| "out_into_rule lib show_id (OutAddress config) out_id priority_default = AddressRule
     \<lparr> match_ips = map_option
         (\<lambda>match_ip. List.map_filter (\<lambda>ip. result_ok (parse_ip_net lib ip)) (into_vec match_ip))
         (oaddr_match_ip config),
       match_ports = map_option into_vec (oaddr_match_port config),
       address_labels = [Custom (show_id out_id)],
       address_priority = unwrap_or (oaddr_priority config) priority_default,
       address_negate = oaddr_negate config,
       address_tag = oaddr_tag config \<rparr>"
| "out_into_rule lib show_id (OutDomain config) out_id priority_default = DomainRule
     \<lparr> domain_matches = into_vec (odom_match config),
       domain_labels = [Custom (show_id out_id)],
       domain_priority = unwrap_or (odom_priority config) priority_default,
       domain_negate = odom_negate config,
       domain_tag = odom_tag config \<rparr>"
| "out_into_rule lib show_id (OutDomainPattern config) out_id priority_default = DomainPatternRule
     \<lparr> pattern_matches = List.map_filter (regex_parse lib) (into_vec (opat_match config)),
       pattern_labels = [Custom (show_id out_id)],
       pattern_priority = unwrap_or (opat_priority config) priority_default,
       pattern_negate = opat_negate config,
       pattern_tag = opat_tag config \<rparr>"
| "out_into_rule lib show_id (OutFallback config) out_id priority_default = FallbackRule
     \<lparr> fallback_labels = [Custom (show_id out_id)],
       fallback_tag = ofall_tag config \<rparr>"

lemma rule_labels_out_into_rule [simp]:
  "rule_labels (out_into_rule lib show_id c out_id p) = [Custom (show_id out_id)]"
  by (cases c) simp_all

section \<open>Parsing addresses in rules\<close>

lemma those_Some_iff: "those xs = Some ys \<longleftrightarrow> xs = map Some ys"
  by (induction xs arbitrary: ys) (auto split: option.splits)

lemma those_map_None_iff: "those (map f xs) = None \<longleftrightarrow> (\<exists>x \<in> set xs. f x = None)"
  by (induction xs) (auto split: option.splits)

lemma map_filter_those: "those (map f xs) = Some ys \<Longrightarrow> List.map_filter f xs = ys"
  by (induction xs arbitrary: ys) (auto simp: List.map_filter_simps split: option.splits)

lemma parse_ip_net_host:
  assumes "host_net_law lib" "net_parse lib s = None" "parse_ip_addr s = Some ip"
  obtains net where "parse_ip_net lib s = Inr net" "\<And>a. net_contains lib net a \<longleftrightarrow> a = ip"
proof -
  obtain n where n: "net_new lib ip (full_prefix_length ip) = Some n"
      "\<And>a. net_contains lib n a \<longleftrightarrow> a = ip"
    using assms(1) by (auto simp: host_net_law_def)
  then have "parse_ip_net lib s = Inr n"
    using assms(2,3) by (simp add: parse_ip_net_def full_prefix_length_def)
  from this n(2) show thesis by (rule that)
qed

section \<open>Properties\<close>

text \<open>Translating an IN rule panics exactly when it is an address rule with an entry that is
  neither a prefix nor an address, or a pattern rule with an entry that is no regular expression.\<close>

theorem in_into_rule_panics_iff:
  "in_into_rule lib c = None \<longleftrightarrow>
     (case c of
        InAddress a \<Rightarrow> \<exists>ips. iaddr_match_ip a = Some ips \<and>
          (\<exists>ip \<in> set (into_vec ips). net_parse lib ip = None \<and>
             Option.bind (parse_ip_addr ip) (\<lambda>i. net_new lib i (full_prefix_length i)) = None)
      | InDomainPattern a \<Rightarrow> \<exists>p \<in> set (into_vec (ipat_match a)). regex_parse lib p = None
      | _ \<Rightarrow> False)"
proof -
  have parse: "result_ok (parse_ip_net lib ip) = None \<longleftrightarrow> net_parse lib ip = None \<and>
      Option.bind (parse_ip_addr ip) (\<lambda>i. net_new lib i (full_prefix_length i)) = None" for ip
    by (auto simp: parse_ip_net_def full_prefix_length_def Let_def split: option.splits ip_addr.splits)
  show ?thesis
  proof (cases c)
    case (InAddress a)
    then show ?thesis
      by (cases "iaddr_match_ip a") (simp_all add: Let_def those_map_None_iff parse)
  qed (simp_all add: those_map_None_iff)
qed

text \<open>An IN address rule whose entry is a plain address, without ports and negation, matches
  exactly the connections to that address, on every port.\<close>

theorem in_address_rule_single_host:
  assumes "host_net_law lib" and "net_parse lib s = None" and "parse_ip_addr s = Some ip"
    and "iaddr_match_ip c = Some (One s)" and "iaddr_match_port c = None" and "\<not> iaddr_negate c"
  shows "\<exists>r. in_into_rule lib (InAddress c) = Some r \<and>
    (\<forall>address domain codes any. rule_match lib r address domain codes any =
       (if sa_ip address = ip then Some (into_vec (iaddr_out c)) else None))"
proof -
  obtain net where "parse_ip_net lib s = Inr net" "\<And>a. net_contains lib net a \<longleftrightarrow> a = ip"
    using assms(1-3) by (rule parse_ip_net_host) blast
  then show ?thesis using assms(4-6) by (simp add: address_match_def)
qed

theorem in_address_rule_single_host_witness:
  "\<exists>r. in_into_rule host_lib (InAddress \<lparr> iaddr_match_ip = Some (One ''10.0.0.1''),
      iaddr_match_port = None, iaddr_negate = False, iaddr_out = One (BuiltIn Direct),
      iaddr_priority = None, iaddr_tag = None \<rparr>) = Some r \<and>
    (\<forall>address domain codes any. rule_match host_lib r address domain codes any =
       (if sa_ip address = IpV4 0x0A000001 then Some [BuiltIn Direct] else None))"
proof -
  have "parse_ip_addr ''10.0.0.1'' = Some (IpV4 0x0A000001)" by (simp add: parse_defs)
  from in_address_rule_single_host [OF host_lib_net _ this, of "\<lparr> iaddr_match_ip = Some (One ''10.0.0.1''),
      iaddr_match_port = None, iaddr_negate = False, iaddr_out = One (BuiltIn Direct),
      iaddr_priority = None, iaddr_tag = None \<rparr>"]
  show ?thesis by (simp del: in_into_rule.simps split del: if_split cong: if_cong)
qed

text \<open>An OUT address rule whose entries are all invalid loses them all; if it is negated, it then
  matches every connection.\<close>

theorem out_negated_address_rule_widens:
  assumes "oaddr_match_ip c = Some ips" and "oaddr_negate c"
    and "\<forall>ip \<in> set (into_vec ips). result_ok (parse_ip_net lib ip) = None"
  shows "rule_match lib (out_into_rule lib show_id (OutAddress c) out_id p) address domain codes any =
    Some [Custom (show_id out_id)]"
proof -
  have "List.map_filter (\<lambda>ip. result_ok (parse_ip_net lib ip)) (into_vec ips) = []"
    using assms(3) by (induction "into_vec ips") (auto simp: List.map_filter_def filter_empty_conv)
  then show ?thesis using assms(1,2) by (simp add: address_match_def)
qed

theorem out_negated_address_rule_widens_witness:
  "rule_match host_lib (out_into_rule host_lib (\<lambda>_. ''o'') (OutAddress \<lparr> oaddr_match_ip = Some (One ''host''),
      oaddr_match_port = None, oaddr_negate = True, oaddr_priority = None, oaddr_tag = None \<rparr>)
      (MatchOutId 1) 0) (SockV4 1 443) None None False = Some [Custom ''o'']"
proof -
  have "parse_ip_addr ''host'' = None" by (simp add: parse_defs)
  then show ?thesis
    by (intro out_negated_address_rule_widens [where ips = "One ''host''"]) (simp_all add: parse_ip_net_def)
qed

end
