(* ===== verification/Tunnel.thy ===== *)
theory Tunnel
  imports Route_Config
begin

text \<open>
  What the program knows of a tunnel (\<open>src/lib/tunnel/tunnel.rs\<close>, \<open>src/lib/tunnel/tunnels.rs\<close>,
  \<open>src/lib/tunnel/common.rs\<close>): its identity, labels and priority, and its permit, by which it is
  active. The tunnel kinds are modelled in their own theories and meet the contract below.
\<close>

section \<open>The tunnel seen by the manager\<close>

record in_tunnel =
  tun_type :: string
  tun_id :: tunnel_id
  tun_out_id :: match_out_id
  tun_labels :: "label list"
  tun_priority :: i64

text \<open>\<open>AnyInTunnelLikeArc\<close>: a tunnel, or the direct connection, which is only \<open>InTunnelLike\<close>.\<close>

datatype any_in_tunnel = DirectInTunnel | InTunnel in_tunnel

section \<open>Display\<close>

definition hex_byte :: "u8 \<Rightarrow> string" where
  "hex_byte b = [digit_char (unat b div 16), digit_char (unat b mod 16)]"

fun join_with :: "string \<Rightarrow> string list \<Rightarrow> string" where
  "join_with sep [] = []"
| "join_with sep [s] = s"
| "join_with sep (s # ss) = s @ sep @ join_with sep ss"

definition get_tunnel_string :: "string \<Rightarrow> tunnel_id \<Rightarrow> label list \<Rightarrow> string" where
  "get_tunnel_string ty i labels =
     (let id_short = concat (map hex_byte (take 4 (tunnel_id_as_bytes i)));
          name = ty @ '' '' @ id_short
      in if labels = [] then name
         else name @ '' ('' @ join_with '','' (map show_label labels) @ '')'')"

fun show_any_in_tunnel :: "any_in_tunnel \<Rightarrow> string" where
  "show_any_in_tunnel DirectInTunnel = ''DIRECT''"
| "show_any_in_tunnel (InTunnel t) = get_tunnel_string (tun_type t) (tun_id t) (tun_labels t)"

text \<open>\<open>get_destination_string\<close> of \<open>src/lib/common.rs\<close>.\<close>

definition get_destination_string :: "socket_addr \<Rightarrow> string option \<Rightarrow> string" where
  "get_destination_string address name =
     show_socket_addr address @ (case name of None \<Rightarrow> [] | Some n \<Rightarrow> '' ('' @ n @ '')'')"

section \<open>The contract of an IN tunnel\<close>

text \<open>
  The part of the trait \<open>InTunnel\<close> that the manager relies on, for a tunnel with state \<open>'s\<close>: a
  permit makes it active; a tunnel whose connection has ended is inactive for good.
\<close>

locale in_tunnel_trait =
  fixes set_active_permit :: "'s \<Rightarrow> 's"
    and is_active :: "'s \<Rightarrow> bool"
    and is_closed :: "'s \<Rightarrow> bool"
    and steps :: "'s \<Rightarrow> 's \<Rightarrow> bool"
    and inv :: "'s \<Rightarrow> bool"
  assumes permit_active: "is_active (set_active_permit s)"
    and permit_closed: "is_closed (set_active_permit s) = is_closed s"
    and steps_inv: "inv s \<Longrightarrow> steps s s' \<Longrightarrow> inv s'"
    and steps_inactive: "inv s \<Longrightarrow> steps s s' \<Longrightarrow> is_active s' \<Longrightarrow> is_active s"
    and steps_closed: "inv s \<Longrightarrow> steps s s' \<Longrightarrow> is_closed s \<Longrightarrow> is_closed s'"
begin

text \<open>Once its own steps have made a tunnel inactive, no later step revives it.\<close>

lemma inactive_forever:
  assumes "steps\<^sup>*\<^sup>* s t" "inv s" "\<not> is_active s"
  shows "\<not> is_active t"
proof -
  from assms have "inv t \<and> \<not> is_active t"
    by (induction rule: rtranclp_induct) (auto dest: steps_inv steps_inactive)
  then show ?thesis by simp
qed

lemma closed_forever:
  assumes "steps\<^sup>*\<^sup>* s t" "inv s" "is_closed s"
  shows "is_closed t"
proof -
  from assms have "inv t \<and> is_closed t"
    by (induction rule: rtranclp_induct) (auto dest: steps_inv steps_closed)
  then show ?thesis by simp
qed

end

end
