(* ===== verification/Tunnel_Manager.thy ===== *)
theory Tunnel_Manager
  imports Tunnel
begin

text \<open>
  The tunnel manager (\<open>src/lib/in/tunnel_manager.rs\<close>): the map of open tunnels, the map from
  labels to tunnels that is rebuilt from it, and the selection of a tunnel for the label groups the
  router answers.
\<close>

section \<open>State\<close>

type_synonym tunnel_map = "(tunnel_id, in_tunnel) hash_map"
type_synonym label_to_tunnels_map = "(label, in_tunnel list) hash_map"

record tunnel_manager =
  tunnel_map :: tunnel_map
  label_to_tunnels_map :: label_to_tunnels_map
  select_index :: usize

definition tunnel_manager_new :: tunnel_manager where
  "tunnel_manager_new = \<lparr> tunnel_map = [], label_to_tunnels_map = [], select_index = 0 \<rparr>"

section \<open>Rebuilding the label map\<close>

definition tunnel_labels :: "(match_out_id \<Rightarrow> string) \<Rightarrow> in_tunnel \<Rightarrow> label list" where
  "tunnel_labels show_id tunnel =
     tun_labels tunnel @ [BuiltIn Proxy, Custom (show_id (tun_out_id tunnel))]"

text \<open>\<open>entry(label).or_default().push(tunnel)\<close>.\<close>

definition push_label :: "in_tunnel \<Rightarrow> label_to_tunnels_map \<Rightarrow> label \<Rightarrow> label_to_tunnels_map" where
  "push_label tunnel m label =
     AList.update label ((case map_of m label of Some ts \<Rightarrow> ts | None \<Rightarrow> []) @ [tunnel]) m"

definition update_label_to_tunnels_map ::
  "(match_out_id \<Rightarrow> string) \<Rightarrow> (tunnel_map \<Rightarrow> tunnel_map) \<Rightarrow> tunnel_map \<Rightarrow> label_to_tunnels_map" where
  "update_label_to_tunnels_map show_id ord tunnels =
     (let pushed = foldl (\<lambda>m (_, tunnel). foldl (push_label tunnel) m (tunnel_labels show_id tunnel))
            [] (ord tunnels)
      in map (\<lambda>(label, ts). (label, sort_key (\<lambda>t. sint (tun_priority t)) ts)) pushed)"

section \<open>Selection\<close>

definition select_from_tunnels ::
  "(in_tunnel \<Rightarrow> bool) \<Rightarrow> in_tunnel list \<Rightarrow> usize \<Rightarrow> in_tunnel option" where
  "select_from_tunnels is_active tunnels index =
     (let tunnels = filter is_active tunnels in
      if tunnels = [] then None
      else
        (let top_priority = tun_priority (hd tunnels);
             tunnels_with_top_priority = takeWhile (\<lambda>t. tun_priority t = top_priority) tunnels
         in Some (tunnels_with_top_priority ! (unat index mod length tunnels_with_top_priority))))"

text \<open>
  The scan of one group: an early return on the left, the proxy and direct tags seen so far on the
  right.
\<close>

fun scan_labels ::
  "(in_tunnel \<Rightarrow> bool) \<Rightarrow> label_to_tunnels_map \<Rightarrow> usize \<Rightarrow> tagged_label list \<Rightarrow>
   string option option \<Rightarrow> string option option \<Rightarrow>
   (any_in_tunnel \<times> string option) + (string option option \<times> string option option)" where
  "scan_labels is_active m index [] proxy_tag direct_tag = Inr (proxy_tag, direct_tag)"
| "scan_labels is_active m index ((label, tag) # labels) proxy_tag direct_tag =
     (case label of
        BuiltIn Direct \<Rightarrow> Inl (DirectInTunnel, tag)
      | BuiltIn Proxy \<Rightarrow>
          scan_labels is_active m index labels
            (if proxy_tag = None then Some tag else proxy_tag) direct_tag
      | BuiltIn Any \<Rightarrow>
          scan_labels is_active m index labels
            (if proxy_tag = None then Some tag else proxy_tag) (Some tag)
      | Custom _ \<Rightarrow>
          (case Option.bind (map_of m label) (\<lambda>ts. select_from_tunnels is_active ts index) of
             Some tunnel \<Rightarrow> Inl (InTunnel tunnel, tag)
           | None \<Rightarrow> scan_labels is_active m index labels proxy_tag direct_tag))"

fun scan_groups ::
  "(in_tunnel \<Rightarrow> bool) \<Rightarrow> label_to_tunnels_map \<Rightarrow> usize \<Rightarrow> tagged_label list list \<Rightarrow>
   string option option \<Rightarrow> (any_in_tunnel \<times> string option) option" where
  "scan_groups is_active m index [] direct_tag = map_option (\<lambda>tag. (DirectInTunnel, tag)) direct_tag"
| "scan_groups is_active m index (labels # groups) direct_tag =
     (case scan_labels is_active m index labels None direct_tag of
        Inl selected \<Rightarrow> Some selected
      | Inr (proxy_tag, direct_tag) \<Rightarrow>
          (let proxy_tunnel = Option.bind (map_of m (BuiltIn Proxy))
                 (\<lambda>ts. select_from_tunnels is_active ts index)
           in case (proxy_tag, proxy_tunnel) of
                (Some tag, Some tunnel) \<Rightarrow> Some (InTunnel tunnel, tag)
              | _ \<Rightarrow> scan_groups is_active m index groups direct_tag))"

text \<open>\<open>fetch_add\<close> returns the index before the increment and wraps around.\<close>

definition select_tunnel ::
  "(in_tunnel \<Rightarrow> bool) \<Rightarrow> tunnel_manager \<Rightarrow> tagged_label list list \<Rightarrow>
   (any_in_tunnel \<times> string option) option \<times> tunnel_manager" where
  "select_tunnel is_active manager labels_groups =
     (scan_groups is_active (label_to_tunnels_map manager) (select_index manager) labels_groups None,
      manager\<lparr>select_index := select_index manager + 1\<rparr>)"

section \<open>The label map holds every carrier of a label\<close>

lemma map_of_push_label:
  "map_of (push_label t m l) =
     (map_of m)(l \<mapsto> (case map_of m l of Some ts \<Rightarrow> ts | None \<Rightarrow> []) @ [t])"
  by (simp add: push_label_def)

definition entries :: "label_to_tunnels_map \<Rightarrow> label \<Rightarrow> in_tunnel list" where
  "entries m l = (case map_of m l of Some ts \<Rightarrow> ts | None \<Rightarrow> [])"

lemma entries_push_label:
  "entries (push_label t m l) l' = entries m l' @ (if l' = l then [t] else [])"
  by (simp add: entries_def map_of_push_label)

lemma entries_push_labels:
  "entries (foldl (push_label t) m ls) l = entries m l @ replicate (count_list ls l) t"
  by (induction ls arbitrary: m) (simp_all add: entries_push_label replicate_append_same)

lemma entries_push_tunnels:
  "entries (foldl (\<lambda>m (_, t). foldl (push_label t) m (f t)) m ts) l =
     entries m l @ concat (map (\<lambda>(_, t). replicate (count_list (f t) l) t) ts)"
  by (induction ts arbitrary: m) (auto simp: entries_push_labels)

lemma entries_map_sort:
  "entries (map (\<lambda>(l, ts). (l, sort_key f ts)) m) l = sort_key f (entries m l)"
proof -
  have "map_of (map (\<lambda>(l, ts). (l, sort_key f ts)) m) l = map_option (sort_key f) (map_of m l)"
    by (induction m) auto
  then show ?thesis by (simp add: entries_def split: option.splits)
qed

lemma entries_update_label_to_tunnels_map:
  "entries (update_label_to_tunnels_map show_id ord tunnels) l =
     sort_key (\<lambda>t. sint (tun_priority t))
       (concat (map (\<lambda>(_, t). replicate (count_list (tunnel_labels show_id t) l) t) (ord tunnels)))"
  by (simp add: update_label_to_tunnels_map_def entries_map_sort entries_push_tunnels [of _ "[]", unfolded entries_def map_of.simps option.case append_Nil, folded entries_def])

lemma set_entries_update:
  assumes "hash_order ord"
  shows "set (entries (update_label_to_tunnels_map show_id ord tunnels) l) =
    {t \<in> snd ` set tunnels. l \<in> set (tunnel_labels show_id t)}"
proof -
  have "set (replicate (count_list xs l) t) = (if l \<in> set xs then {t} else {})" for xs and t :: in_tunnel
    by (auto simp: count_list_0_iff)
  then show ?thesis
    using hash_order_set [OF assms, of tunnels]
    by (force simp: entries_update_label_to_tunnels_map split: prod.splits if_splits)
qed

section \<open>Selecting from a list\<close>

lemma select_from_tunnels_None_iff:
  "select_from_tunnels is_active ts index = None \<longleftrightarrow> (\<forall>t \<in> set ts. \<not> is_active t)"
  by (auto simp: select_from_tunnels_def Let_def filter_empty_conv)

text \<open>On a list sorted by priority the candidates are the active tunnels of least priority.\<close>

definition top_tunnels :: "(in_tunnel \<Rightarrow> bool) \<Rightarrow> in_tunnel list \<Rightarrow> in_tunnel list" where
  "top_tunnels is_active ts =
     filter (\<lambda>t. is_active t \<and> (\<forall>u \<in> set ts. is_active u \<longrightarrow> sint (tun_priority t) \<le> sint (tun_priority u))) ts"

lemma takeWhile_top_tunnels:
  assumes "sorted (map (\<lambda>t. sint (tun_priority t)) ts)" and "filter is_active ts = t # us"
  shows "takeWhile (\<lambda>u. tun_priority u = tun_priority t) (filter is_active ts) = top_tunnels is_active ts"
proof -
  let ?f = "\<lambda>t. sint (tun_priority t)"
  have sorted: "sorted (map ?f (t # us))"
    using sorted_filter [OF assms(1), of is_active] assms(2) by simp
  have eq: "tun_priority u = tun_priority t \<longleftrightarrow> ?f u = ?f t" for u
    by (auto intro: signed_word_eqI)
  have "takeWhile (\<lambda>u. tun_priority u = tun_priority t) (t # us) = filter (\<lambda>u. ?f u = ?f t) (t # us)"
    using filter_sorted_least [OF sorted] by (simp add: eq)
  also have "\<dots> = filter (\<lambda>u. is_active u \<and> ?f u = ?f t) ts"
    using assms(2) by (metis filter_filter)
  also have "\<dots> = top_tunnels is_active ts"
    unfolding top_tunnels_def
  proof (rule filter_cong [OF refl])
    fix u assume u: "u \<in> set ts"
    have mem: "v \<in> set (t # us) \<longleftrightarrow> v \<in> set ts \<and> is_active v" for v
    proof -
      have "set (t # us) = {v \<in> set ts. is_active v}" by (metis assms(2) set_filter)
      then show ?thesis by blast
    qed
    have le: "?f t \<le> ?f v" if "v \<in> set ts" "is_active v" for v
      using sorted mem [of v] that by auto
    have t: "t \<in> set ts" "is_active t" using mem [of t] by auto
    show "(is_active u \<and> ?f u = ?f t) \<longleftrightarrow>
        (is_active u \<and> (\<forall>v \<in> set ts. is_active v \<longrightarrow> ?f u \<le> ?f v))"
    proof (intro conj_cong [OF refl] iffI)
      assume "?f u = ?f t"
      then show "\<forall>v \<in> set ts. is_active v \<longrightarrow> ?f u \<le> ?f v" using le by simp
    next
      assume "is_active u" "\<forall>v \<in> set ts. is_active v \<longrightarrow> ?f u \<le> ?f v"
      then show "?f u = ?f t" using t u le by (meson antisym)
    qed
  qed
  finally show ?thesis using assms(2) by simp
qed

lemma top_tunnels_eq_Nil: "top_tunnels is_active ts = [] \<longleftrightarrow> (\<forall>t \<in> set ts. \<not> is_active t)"
proof
  assume none: "top_tunnels is_active ts = []"
  show "\<forall>t \<in> set ts. \<not> is_active t"
  proof (rule ccontr)
    let ?A = "{t \<in> set ts. is_active t}"
    assume "\<not> (\<forall>t \<in> set ts. \<not> is_active t)"
    then have "?A \<noteq> {}" by auto
    have "finite ?A" by simp
    define t where "t = arg_min_on (\<lambda>t. sint (tun_priority t)) ?A"
    have "t \<in> ?A"
      unfolding t_def by (rule arg_min_if_finite(1)) fact+
    moreover have "sint (tun_priority t) \<le> sint (tun_priority u)" if "u \<in> ?A" for u
      unfolding t_def by (rule arg_min_least) fact+
    ultimately have "t \<in> set (top_tunnels is_active ts)" by (auto simp: top_tunnels_def)
    with none show False by simp
  qed
qed (auto simp: top_tunnels_def filter_empty_conv)

lemma select_from_tunnels_top:
  assumes "sorted (map (\<lambda>t. sint (tun_priority t)) ts)"
  shows "select_from_tunnels is_active ts index =
    (if top_tunnels is_active ts = [] then None
     else Some (top_tunnels is_active ts ! (unat index mod length (top_tunnels is_active ts))))"
proof (cases "filter is_active ts")
  case Nil
  then show ?thesis by (simp add: select_from_tunnels_def top_tunnels_eq_Nil filter_empty_conv)
next
  case (Cons t us)
  then have "\<not> (\<forall>t \<in> set ts. \<not> is_active t)" by (metis filter_empty_conv list.distinct(1))
  then show ?thesis
    using Cons takeWhile_top_tunnels [OF assms Cons]
    by (simp add: select_from_tunnels_def top_tunnels_eq_Nil Let_def)
qed

text \<open>Consecutive indices go around a list.\<close>

lemma mod_rotation:
  assumes "xs \<noteq> []"
  shows "mset (map (\<lambda>i. xs ! ((n + i) mod length xs)) [0..<length xs]) = mset xs"
proof -
  have "map (\<lambda>i. xs ! ((n + i) mod length xs)) [0..<length xs] = rotate n xs"
    by (rule nth_equalityI) (simp_all add: nth_rotate add.commute)
  moreover have "mset (rotate n xs) = mset xs"
  proof (induction n)
    case (Suc n)
    then show ?case by (cases "rotate n xs") simp_all
  qed simp
  ultimately show ?thesis by simp
qed

section \<open>What a selection can return\<close>

lemma select_from_tunnels_active:
  assumes "select_from_tunnels is_active ts index = Some t"
  shows "t \<in> set ts \<and> is_active t"
proof -
  let ?ts = "filter is_active ts"
  let ?top = "takeWhile (\<lambda>t. tun_priority t = tun_priority (hd ?ts)) ?ts"
  have ne: "?ts \<noteq> []" using assms by (auto simp: select_from_tunnels_def Let_def split: if_splits)
  then have "?top \<noteq> []" by (cases ?ts) auto
  then have "?top ! (unat index mod length ?top) \<in> set ?top" by simp
  moreover have "t = ?top ! (unat index mod length ?top)"
    using assms ne by (simp add: select_from_tunnels_def Let_def)
  ultimately show ?thesis by (auto dest: set_takeWhileD)
qed

text \<open>The tunnels of a label, and whether one of them can be selected.\<close>

definition available :: "(in_tunnel \<Rightarrow> bool) \<Rightarrow> label_to_tunnels_map \<Rightarrow> label \<Rightarrow> bool" where
  "available is_active m l \<longleftrightarrow> (\<exists>t \<in> set (entries m l). is_active t)"

lemma select_label_None_iff:
  "Option.bind (map_of m l) (\<lambda>ts. select_from_tunnels is_active ts index) = None \<longleftrightarrow>
     \<not> available is_active m l"
  by (cases "map_of m l") (auto simp: available_def entries_def select_from_tunnels_None_iff)

lemma select_label_Some:
  "Option.bind (map_of m l) (\<lambda>ts. select_from_tunnels is_active ts index) = Some t \<Longrightarrow>
     t \<in> set (entries m l) \<and> is_active t"
  by (auto simp: entries_def split: bind_splits dest: select_from_tunnels_active)

text \<open>
  The specification of a selection. A group is decided by its first label that is \<open>DIRECT\<close> or a
  custom label with an active tunnel; failing that by its first \<open>PROXY\<close> or \<open>ANY\<close>, when any tunnel
  is active; the last \<open>ANY\<close> of the undecided groups is the resort.
\<close>

definition decides :: "(label \<Rightarrow> bool) \<Rightarrow> tagged_label \<Rightarrow> bool" where
  "decides avail x =
     (case fst x of BuiltIn l \<Rightarrow> l = Direct | Custom s \<Rightarrow> avail (Custom s))"

definition wants_proxy :: "tagged_label \<Rightarrow> bool" where
  "wants_proxy x \<longleftrightarrow> fst x = BuiltIn Proxy \<or> fst x = BuiltIn Any"

definition group_choice :: "(label \<Rightarrow> bool) \<Rightarrow> tagged_label list \<Rightarrow> tagged_label option" where
  "group_choice avail labels =
     (case find (decides avail) labels of
        Some x \<Rightarrow> Some x
      | None \<Rightarrow>
          (if avail (BuiltIn Proxy)
           then map_option (\<lambda>(_, tag). (BuiltIn Proxy, tag)) (find wants_proxy labels) else None))"

definition last_any :: "tagged_label list \<Rightarrow> tagged_label option" where
  "last_any labels = map_option (\<lambda>(_, tag). (BuiltIn Direct, tag))
     (find (\<lambda>x. fst x = BuiltIn Any) (rev labels))"

definition selection :: "(label \<Rightarrow> bool) \<Rightarrow> tagged_label list list \<Rightarrow> tagged_label option" where
  "selection avail groups =
     (case List.find (\<lambda>g. group_choice avail g \<noteq> None) groups of
        Some g \<Rightarrow> group_choice avail g
      | None \<Rightarrow> last_any (concat groups))"

text \<open>The tunnel that serves a selected label.\<close>

definition tunnel_for ::
  "(in_tunnel \<Rightarrow> bool) \<Rightarrow> label_to_tunnels_map \<Rightarrow> usize \<Rightarrow> tagged_label \<Rightarrow> any_in_tunnel \<times> string option" where
  "tunnel_for is_active m index x =
     (case fst x of
        BuiltIn Direct \<Rightarrow> DirectInTunnel
      | l \<Rightarrow> InTunnel (the (select_from_tunnels is_active (entries m l) index)), snd x)"

lemma select_label_entries:
  "Option.bind (map_of m l) (\<lambda>ts. select_from_tunnels is_active ts index) =
     select_from_tunnels is_active (entries m l) index"
  by (cases "map_of m l") (simp_all add: entries_def select_from_tunnels_def)

lemma select_entries_cases:
  obtains t where "available is_active m l" "select_from_tunnels is_active (entries m l) index = Some t"
  | "\<not> available is_active m l" "select_from_tunnels is_active (entries m l) index = None"
  by (metis available_def not_None_eq select_from_tunnels_None_iff)

lemma find_append: "find P (xs @ ys) = (case find P xs of Some x \<Rightarrow> Some x | None \<Rightarrow> find P ys)"
  by (induction xs) simp_all

text \<open>What the scan of one group returns.\<close>

lemma scan_labels_eq:
  "scan_labels is_active m index labels pt dt =
     (case find (decides (available is_active m)) labels of
        Some x \<Rightarrow> Inl (tunnel_for is_active m index x)
      | None \<Rightarrow> Inr
          (if pt = None then map_option snd (find wants_proxy labels) else pt,
           case last_any labels of Some x \<Rightarrow> Some (snd x) | None \<Rightarrow> dt))"
proof (induction labels arbitrary: pt dt)
  case Nil
  then show ?case by (simp add: last_any_def)
next
  case (Cons x labels)
  obtain label tag where x: "x = (label, tag)" by (cases x)
  show ?case
  proof (cases label)
    case (BuiltIn l)
    then show ?thesis
      by (cases l)
        (auto simp: x Cons.IH decides_def wants_proxy_def tunnel_for_def last_any_def find_append
          split: option.splits)
  next
    case (Custom s)
    then show ?thesis
      by (rule_tac m = m and l = label and index = index and is_active = is_active in select_entries_cases)
        (auto simp: x Cons.IH decides_def wants_proxy_def tunnel_for_def last_any_def find_append
          select_label_entries split: option.splits)
  qed
qed

lemma last_any_append:
  "last_any (xs @ ys) = (case last_any ys of Some x \<Rightarrow> Some x | None \<Rightarrow> last_any xs)"
  by (auto simp: last_any_def find_append split: option.splits)

lemma selection_Nil [simp]: "selection avail [] = None"
  by (simp add: selection_def last_any_def)

lemma selection_Cons:
  "selection avail (g # gs) =
     (case group_choice avail g of
        Some x \<Rightarrow> Some x
      | None \<Rightarrow> (case selection avail gs of Some x \<Rightarrow> Some x | None \<Rightarrow> last_any g))"
proof (cases "find (\<lambda>g. group_choice avail g \<noteq> None) gs")
  case None
  then show ?thesis by (auto simp: selection_def last_any_append split: option.splits)
next
  case (Some h)
  then have "group_choice avail h \<noteq> None" by (auto simp: find_Some_iff)
  with Some show ?thesis by (auto simp: selection_def split: option.splits)
qed

lemma tunnel_for_last_any:
  "last_any g = Some x \<Longrightarrow> tunnel_for is_active m index x = (DirectInTunnel, snd x)"
  by (auto simp: last_any_def tunnel_for_def)

lemma scan_groups_step:
  "scan_groups is_active m index (labels # groups) dt =
     (case group_choice (available is_active m) labels of
        Some x \<Rightarrow> Some (tunnel_for is_active m index x)
      | None \<Rightarrow> scan_groups is_active m index groups
          (case last_any labels of Some x \<Rightarrow> Some (snd x) | None \<Rightarrow> dt))"
  by (rule select_entries_cases [of is_active m "BuiltIn Proxy" index];
    cases "find (decides (available is_active m)) labels"; cases "find wants_proxy labels")
    (auto simp: scan_labels_eq group_choice_def select_label_entries tunnel_for_def Let_def)

lemma scan_groups_eq:
  "scan_groups is_active m index groups dt =
     (case selection (available is_active m) groups of
        Some x \<Rightarrow> Some (tunnel_for is_active m index x)
      | None \<Rightarrow> map_option (\<lambda>tag. (DirectInTunnel, tag)) dt)"
  by (induction groups arbitrary: dt)
    (auto simp: scan_groups_step selection_Cons tunnel_for_last_any simp del: scan_groups.simps(2)
      split: option.splits)

definition label_map_of ::
  "(match_out_id \<Rightarrow> string) \<Rightarrow> (tunnel_map \<Rightarrow> tunnel_map) \<Rightarrow> tunnel_manager \<Rightarrow> bool" where
  "label_map_of show_id ord manager \<longleftrightarrow>
     label_to_tunnels_map manager = update_label_to_tunnels_map show_id ord (tunnel_map manager)"

text \<open>The open tunnels that carry a label.\<close>

definition carriers :: "(match_out_id \<Rightarrow> string) \<Rightarrow> tunnel_map \<Rightarrow> label \<Rightarrow> in_tunnel set" where
  "carriers show_id tunnels l = {t \<in> snd ` set tunnels. l \<in> set (tunnel_labels show_id t)}"

lemma set_entries_manager:
  "hash_order ord \<Longrightarrow> label_map_of show_id ord mg \<Longrightarrow>
     set (entries (label_to_tunnels_map mg) l) = carriers show_id (tunnel_map mg) l"
  by (simp add: label_map_of_def set_entries_update carriers_def)

lemma sorted_entries_manager:
  "label_map_of show_id ord mg \<Longrightarrow>
     sorted (map (\<lambda>t. sint (tun_priority t)) (entries (label_to_tunnels_map mg) l))"
  by (simp add: label_map_of_def entries_update_label_to_tunnels_map)

lemma available_manager:
  "hash_order ord \<Longrightarrow> label_map_of show_id ord mg \<Longrightarrow>
     available is_active (label_to_tunnels_map mg) l \<longleftrightarrow>
       (\<exists>t \<in> carriers show_id (tunnel_map mg) l. is_active t)"
  by (simp add: available_def set_entries_manager)

lemma select_entries_least:
  assumes "hash_order ord" "label_map_of show_id ord mg"
    and "select_from_tunnels is_active (entries (label_to_tunnels_map mg) l) index = Some t"
  shows "t \<in> carriers show_id (tunnel_map mg) l \<and> is_active t \<and>
    (\<forall>u \<in> carriers show_id (tunnel_map mg) l.
       is_active u \<longrightarrow> sint (tun_priority t) \<le> sint (tun_priority u))"
proof -
  let ?ts = "entries (label_to_tunnels_map mg) l"
  let ?top = "top_tunnels is_active ?ts"
  have "?top \<noteq> []" "t = ?top ! (unat index mod length ?top)"
    using assms(3) by (simp_all add: select_from_tunnels_top sorted_entries_manager [OF assms(2)]
        split: if_splits)
  then have "t \<in> set ?top" by simp
  then show ?thesis
    using set_entries_manager [OF assms(1,2), of l] by (auto simp: top_tunnels_def)
qed

lemma find_in_set: "find P xs = Some x \<Longrightarrow> x \<in> set xs \<and> P x"
  by (metis find_Some_iff nth_mem)

lemma group_choice_cases:
  assumes "group_choice avail g = Some (l, tag)"
  shows "(l, tag) \<in> set g \<and> (l = BuiltIn Direct \<or> avail l \<and> (\<exists>s. l = Custom s)) \<or>
    l = BuiltIn Proxy \<and> avail l \<and> ((BuiltIn Proxy, tag) \<in> set g \<or> (BuiltIn Any, tag) \<in> set g)"
  using assms
  by (auto simp: group_choice_def decides_def wants_proxy_def split: option.splits if_splits label.splits
      dest!: find_in_set)

lemma selection_cases:
  assumes "selection avail gs = Some (l, tag)"
  shows "(l, tag) \<in> set (concat gs) \<and> (l = BuiltIn Direct \<or> avail l \<and> (\<exists>s. l = Custom s)) \<or>
    l = BuiltIn Direct \<and> (BuiltIn Any, tag) \<in> set (concat gs) \<or>
    l = BuiltIn Proxy \<and> avail l \<and>
      ((BuiltIn Proxy, tag) \<in> set (concat gs) \<or> (BuiltIn Any, tag) \<in> set (concat gs))"
  using assms
proof (induction gs)
  case (Cons g gs)
  then show ?case
    by (auto simp: selection_Cons last_any_def split: option.splits
        dest!: group_choice_cases find_in_set)
qed simp

lemma selected_carrier:
  assumes "hash_order ord" and "label_map_of show_id ord mg"
    and "fst (select_tunnel is_active mg groups) = Some (InTunnel t, tag)"
  shows "\<exists>l. l \<noteq> BuiltIn Direct \<and> (l, tag) \<in> set (concat groups) \<and>
    (let l' = (if l = BuiltIn Any then BuiltIn Proxy else l) in
     t \<in> carriers show_id (tunnel_map mg) l' \<and> is_active t \<and>
     (\<forall>u \<in> carriers show_id (tunnel_map mg) l'.
        is_active u \<longrightarrow> sint (tun_priority t) \<le> sint (tun_priority u)))"
proof -
  let ?m = "label_to_tunnels_map mg"
  obtain l where sel: "selection (available is_active ?m) groups = Some (l, tag)"
    and t: "tunnel_for is_active ?m (select_index mg) (l, tag) = (InTunnel t, tag)"
    using assms(3) by (auto simp: select_tunnel_def scan_groups_eq tunnel_for_def split: option.splits)
  have l: "l \<noteq> BuiltIn Direct" using t by (auto simp: tunnel_for_def)
  from selection_cases [OF sel] l have avail: "available is_active ?m l"
    and mem: "(l, tag) \<in> set (concat groups) \<and> (\<exists>s. l = Custom s) \<or>
      l = BuiltIn Proxy \<and> ((BuiltIn Proxy, tag) \<in> set (concat groups) \<or> (BuiltIn Any, tag) \<in> set (concat groups))"
    by blast+
  from avail obtain u where u: "select_from_tunnels is_active (entries ?m l) (select_index mg) = Some u"
    using select_entries_cases [of is_active ?m l "select_index mg"] by metis
  moreover have "t = u" using t l u by (auto simp: tunnel_for_def split: label.splits builtin_label.splits)
  ultimately have "t \<in> carriers show_id (tunnel_map mg) l \<and> is_active t \<and>
      (\<forall>u \<in> carriers show_id (tunnel_map mg) l. is_active u \<longrightarrow> sint (tun_priority t) \<le> sint (tun_priority u))"
    using select_entries_least [OF assms(1,2)] by blast
  then show ?thesis using mem l by (auto simp: Let_def)
qed

lemma selected_direct:
  assumes "fst (select_tunnel is_active mg groups) = Some (DirectInTunnel, tag)"
  shows "(BuiltIn Direct, tag) \<in> set (concat groups) \<or> (BuiltIn Any, tag) \<in> set (concat groups)"
proof -
  let ?m = "label_to_tunnels_map mg"
  obtain l where "selection (available is_active ?m) groups = Some (l, tag)" "l = BuiltIn Direct"
    using assms
    by (auto simp: select_tunnel_def scan_groups_eq tunnel_for_def
        split: option.splits label.splits builtin_label.splits)
  then show ?thesis using selection_cases by fastforce
qed

lemma group_choice_None_iff:
  "group_choice avail g = None \<longleftrightarrow>
     (\<forall>x \<in> set g. \<not> decides avail x \<and> (wants_proxy x \<longrightarrow> \<not> avail (BuiltIn Proxy)))"
proof (cases "find (decides avail) g")
  case None
  then have "\<forall>x \<in> set g. \<not> decides avail x" by (metis find_None_iff)
  moreover have "group_choice avail g = None \<longleftrightarrow>
      (avail (BuiltIn Proxy) \<longrightarrow> (\<forall>x \<in> set g. \<not> wants_proxy x))"
    unfolding group_choice_def None option.case
    by (cases "find wants_proxy g") (auto simp: find_None_iff dest: find_in_set)
  ultimately show ?thesis by blast
next
  case (Some x)
  then have "group_choice avail g \<noteq> None" by (simp add: group_choice_def)
  then show ?thesis using find_in_set [OF Some] by blast
qed

lemma last_any_None_iff: "last_any g = None \<longleftrightarrow> (\<forall>x \<in> set g. fst x \<noteq> BuiltIn Any)"
  by (auto simp: last_any_def find_None_iff)

text \<open>A tagged label by which nothing can be selected.\<close>

definition hopeless :: "(label \<Rightarrow> bool) \<Rightarrow> tagged_label \<Rightarrow> bool" where
  "hopeless avail x \<longleftrightarrow> fst x \<noteq> BuiltIn Direct \<and> fst x \<noteq> BuiltIn Any \<and> \<not> avail (fst x)"

lemma hopeless_iff:
  "hopeless avail x \<longleftrightarrow>
     (\<not> decides avail x \<and> (wants_proxy x \<longrightarrow> \<not> avail (BuiltIn Proxy))) \<and> fst x \<noteq> BuiltIn Any"
  by (cases "fst x" rule: label.exhaust; cases "case fst x of BuiltIn l \<Rightarrow> l | _ \<Rightarrow> Any")
    (auto simp: hopeless_def decides_def wants_proxy_def)

lemma selection_None_iff:
  "selection avail gs = None \<longleftrightarrow> (\<forall>x \<in> set (concat gs). hopeless avail x)"
proof (induction gs)
  case (Cons g gs)
  have "(group_choice avail g = None \<and> last_any g = None) \<longleftrightarrow> (\<forall>x \<in> set g. hopeless avail x)"
    unfolding group_choice_None_iff last_any_None_iff hopeless_iff by blast
  moreover have "selection avail (g # gs) = None \<longleftrightarrow>
      (group_choice avail g = None \<and> last_any g = None) \<and> selection avail gs = None"
    by (auto simp: selection_Cons split: option.splits)
  ultimately show ?case using Cons.IH by auto
qed simp

section \<open>Properties\<close>

definition example_tunnel :: in_tunnel where
  "example_tunnel = \<lparr> tun_type = ''http2'', tun_id = TunnelId 7, tun_out_id = MatchOutId 1,
     tun_labels = [Custom ''us''], tun_priority = 0 \<rparr>"

definition example_manager :: tunnel_manager where
  "example_manager = \<lparr> tunnel_map = [(TunnelId 7, example_tunnel)],
     label_to_tunnels_map = [(Custom ''us'', [example_tunnel]), (BuiltIn Proxy, [example_tunnel]),
       (Custom ''o'', [example_tunnel])], select_index = 3 \<rparr>"

lemma example_manager_label_map: "label_map_of (\<lambda>_. ''o'') (\<lambda>xs. xs) example_manager"
  by (simp add: label_map_of_def example_manager_def example_tunnel_def update_label_to_tunnels_map_def
      tunnel_labels_def push_label_def)

text \<open>Rebuilding the label map lists, for every label and whatever the iteration order of the
  hash map, exactly the open tunnels that carry the label (every tunnel carries \<open>PROXY\<close> and the id
  of its OUT), ordered by priority.\<close>

theorem label_map_carriers:
  assumes "hash_order ord"
  shows "set (entries (update_label_to_tunnels_map show_id ord tunnels) l) = carriers show_id tunnels l \<and>
    sorted (map (\<lambda>t. sint (tun_priority t))
      (entries (update_label_to_tunnels_map show_id ord tunnels) l))"
proof (rule conjI)
  show "set (entries (update_label_to_tunnels_map show_id ord tunnels) l) = carriers show_id tunnels l"
    by (simp only: set_entries_update [OF assms] carriers_def)
qed (simp add: entries_update_label_to_tunnels_map)

theorem label_map_carriers_witness:
  "set (entries (update_label_to_tunnels_map (\<lambda>_. ''o'') rev [(TunnelId 7, example_tunnel)]) (Custom ''o'')) =
     carriers (\<lambda>_. ''o'') [(TunnelId 7, example_tunnel)] (Custom ''o'') \<and>
   sorted (map (\<lambda>t. sint (tun_priority t))
     (entries (update_label_to_tunnels_map (\<lambda>_. ''o'') rev [(TunnelId 7, example_tunnel)]) (Custom ''o'')))"
  by (rule label_map_carriers) (rule hash_order_rev)

text \<open>C11: The scan with its early returns and its pending tags selects exactly what the declarative
  reading says: the first group that is decided by a \<open>DIRECT\<close>, by a custom label with an active
  tunnel, or by \<open>PROXY\<close> or \<open>ANY\<close> while any tunnel is active; and otherwise the direct connection
  under the last \<open>ANY\<close>. Every call advances the index, whatever it returns.\<close>

theorem select_tunnel_eq_selection:
  "select_tunnel is_active mg groups =
     (map_option (tunnel_for is_active (label_to_tunnels_map mg) (select_index mg))
        (selection (available is_active (label_to_tunnels_map mg)) groups),
      mg\<lparr>select_index := select_index mg + 1\<rparr>)"
  by (auto simp: select_tunnel_def scan_groups_eq split: option.splits)

text \<open>C2: A selected tunnel is open and active, was asked for by a label with the returned tag that
  it carries (\<open>ANY\<close> counts as \<open>PROXY\<close>), and no active tunnel carrying that label has a smaller
  priority value.\<close>

theorem select_tunnel_best:
  assumes "hash_order ord" and "label_map_of show_id ord mg"
    and "fst (select_tunnel is_active mg groups) = Some (InTunnel t, tag)"
  shows "\<exists>l. l \<noteq> BuiltIn Direct \<and> (l, tag) \<in> set (concat groups) \<and>
    (let l' = (if l = BuiltIn Any then BuiltIn Proxy else l) in
     t \<in> carriers show_id (tunnel_map mg) l' \<and> is_active t \<and>
     (\<forall>u \<in> carriers show_id (tunnel_map mg) l'.
        is_active u \<longrightarrow> sint (tun_priority t) \<le> sint (tun_priority u)))"
  using assms by (rule selected_carrier)

theorem select_tunnel_best_witness:
  "\<exists>l. l \<noteq> BuiltIn Direct \<and> (l, None :: string option) \<in> set (concat [[(Custom ''us'', None)]]) \<and>
    (let l' = (if l = BuiltIn Any then BuiltIn Proxy else l) in
     example_tunnel \<in> carriers (\<lambda>_. ''o'') (tunnel_map example_manager) l' \<and> True \<and>
     (\<forall>u \<in> carriers (\<lambda>_. ''o'') (tunnel_map example_manager) l'.
        True \<longrightarrow> sint (tun_priority example_tunnel) \<le> sint (tun_priority u)))"
  by (rule select_tunnel_best [OF hash_order_id example_manager_label_map, where is_active = "\<lambda>_. True"])
    (simp add: select_tunnel_def example_manager_def select_from_tunnels_def)

text \<open>The selection fails exactly when no label asks for the direct connection (by \<open>DIRECT\<close> or
  \<open>ANY\<close>) and no active tunnel carries any of the labels; in particular \<open>ANY\<close> never fails.\<close>

theorem select_tunnel_None_iff:
  assumes "hash_order ord" and "label_map_of show_id ord mg"
  shows "fst (select_tunnel is_active mg groups) = None \<longleftrightarrow>
    (\<forall>(l, tag) \<in> set (concat groups). l \<noteq> BuiltIn Direct \<and> l \<noteq> BuiltIn Any \<and>
       (\<forall>t \<in> carriers show_id (tunnel_map mg) l. \<not> is_active t))"
proof -
  have "fst (select_tunnel is_active mg groups) = None \<longleftrightarrow>
      selection (available is_active (label_to_tunnels_map mg)) groups = None"
    by (auto simp: select_tunnel_def scan_groups_eq split: option.splits)
  then show ?thesis
    by (simp add: selection_None_iff hopeless_def available_manager [OF assms] split_def)
qed

theorem select_tunnel_None_iff_witness:
  "fst (select_tunnel (\<lambda>_. True) example_manager [[(Custom ''de'', None)]]) = None \<longleftrightarrow>
    (\<forall>(l, tag) \<in> set (concat [[(Custom ''de'', None :: string option)]]).
       l \<noteq> BuiltIn Direct \<and> l \<noteq> BuiltIn Any \<and>
       (\<forall>t \<in> carriers (\<lambda>_. ''o'') (tunnel_map example_manager) l. \<not> True))"
  by (rule select_tunnel_None_iff [OF hash_order_id example_manager_label_map])

text \<open>The direct connection is only used when a label asks for it: the returned tag stands beside
  a \<open>DIRECT\<close> or an \<open>ANY\<close> of the groups.\<close>

theorem select_tunnel_direct_only_if_asked:
  assumes "fst (select_tunnel is_active mg groups) = Some (DirectInTunnel, tag)"
  shows "(BuiltIn Direct, tag) \<in> set (concat groups) \<or> (BuiltIn Any, tag) \<in> set (concat groups)"
  using assms by (rule selected_direct)

theorem select_tunnel_direct_only_if_asked_witness:
  "(BuiltIn Direct, None :: string option) \<in> set (concat [[(Custom ''de'', Some ''x''), (BuiltIn Any, None)]]) \<or>
   (BuiltIn Any, None) \<in> set (concat [[(Custom ''de'', Some ''x''), (BuiltIn Any, None :: string option)]])"
  by (rule select_tunnel_direct_only_if_asked [of "\<lambda>_. False" example_manager])
    (simp add: select_tunnel_def example_manager_def select_from_tunnels_def)

lemma len_num64: "LENGTH(64) = 64"
  by simp

text \<open>The index spreads selections evenly: as many consecutive selections from a list sorted by
  priority as there are active tunnels of least priority take each of them exactly once, as long
  as the index does not wrap around meanwhile.\<close>

theorem select_from_tunnels_round_robin:
  assumes "sorted (map (\<lambda>t. sint (tun_priority t)) ts)"
    and "unat index + length (top_tunnels is_active ts) \<le> 2 ^ 64"
  shows "mset (map (\<lambda>i. select_from_tunnels is_active ts (index + of_nat i))
      [0..<length (top_tunnels is_active ts)]) =
    image_mset Some (mset (top_tunnels is_active ts))"
proof (cases "top_tunnels is_active ts = []")
  case False
  let ?top = "top_tunnels is_active ts"
  have "unat (index + of_nat i) = unat index + i" if "i < length ?top" for i
  proof -
    have "unat index + i < 2 ^ LENGTH(64)"
      using add_strict_left_mono [OF that, of "unat index"] assms(2) unfolding len_num64 by (rule less_le_trans)
    then show ?thesis
      by (simp only: unat_word_ariths(1) unat_of_nat mod_add_right_eq mod_less)
  qed
  then have "map (\<lambda>i. select_from_tunnels is_active ts (index + of_nat i)) [0..<length ?top] =
      map Some (map (\<lambda>i. ?top ! ((unat index + i) mod length ?top)) [0..<length ?top])"
    using False by (simp add: select_from_tunnels_top [OF assms(1)])
  then show ?thesis
    by (simp only: mset_map [of Some] mod_rotation [OF False])
qed simp

theorem select_from_tunnels_round_robin_witness:
  "mset (map (\<lambda>i. select_from_tunnels (\<lambda>_. True) [example_tunnel] (3 + of_nat i))
      [0..<length (top_tunnels (\<lambda>_. True) [example_tunnel])]) =
    image_mset Some (mset (top_tunnels (\<lambda>_. True) [example_tunnel]))"
  by (rule select_from_tunnels_round_robin) (simp_all add: top_tunnels_def)

end
