(* ===== verification/Router.thy ===== *)
theory Router
  imports Route_Config
begin

text \<open>
  The router (\<open>src/lib/route/router.rs\<close>): the rules of the IN configuration, the rules of every
  OUT that has a tunnel, and a cache of all of them grouped by priority, which every query folds
  over.
\<close>

section \<open>State\<close>

type_synonym ('net, 're) out_rules_map =
  "(match_out_id, ('net, 're) rule list \<times> tunnel_id set) hash_map"

record ('net, 're) router =
  in_rules :: "('net, 're) rule list"
  out_rules_map :: "('net, 're) out_rules_map"
  rules_groups_cache :: "('net, 're) rule list list"

text \<open>\<open>Router::new\<close>; \<^const>\<open>None\<close> when a configuration panics.\<close>

definition router_new :: "('net, 're) route_lib \<Rightarrow> in_rule_config list \<Rightarrow> ('net, 're) router option" where
  "router_new lib configs =
     map_option (\<lambda>rules. \<lparr> in_rules = rules, out_rules_map = [], rules_groups_cache = [rules] \<rparr>)
       (those (map (in_into_rule lib) configs))"

section \<open>Matching\<close>

text \<open>
  The folds use a rule through its trait only: \<open>matches r any\<close> is the query's \<open>match\<close> of the rule
  and \<open>tag\<close> its tag.
\<close>

definition match_rules_step ::
  "('r \<Rightarrow> bool \<Rightarrow> label list option) \<Rightarrow> ('r \<Rightarrow> string option) \<Rightarrow> bool \<Rightarrow>
   tagged_label list \<Rightarrow> 'r \<Rightarrow> tagged_label list" where
  "match_rules_step matches tag already_matched labels rule =
     (case matches rule (already_matched \<or> labels \<noteq> []) of
        Some matching_labels \<Rightarrow> labels @ map (\<lambda>label. (label, tag rule)) matching_labels
      | None \<Rightarrow> labels)"

definition match_group_step ::
  "('r \<Rightarrow> bool \<Rightarrow> label list option) \<Rightarrow> ('r \<Rightarrow> string option) \<Rightarrow>
   tagged_label list list \<Rightarrow> 'r list \<Rightarrow> tagged_label list list" where
  "match_group_step matches tag labels_groups rules =
     (let already_matched = (labels_groups \<noteq> []);
          labels = foldl (match_rules_step matches tag already_matched) [] rules
      in if labels \<noteq> [] then labels_groups @ [labels] else labels_groups)"

definition match_groups ::
  "('r \<Rightarrow> bool \<Rightarrow> label list option) \<Rightarrow> ('r \<Rightarrow> string option) \<Rightarrow> 'r list list \<Rightarrow>
   tagged_label list list" where
  "match_groups matches tag groups = foldl (match_group_step matches tag) [] groups"

definition router_match ::
  "('net, 're) route_lib \<Rightarrow> ('net, 're) router \<Rightarrow> socket_addr \<Rightarrow> string option \<Rightarrow>
   string list option \<Rightarrow> tagged_label list list" where
  "router_match lib router address domain region_codes =
     iter_unique lib
       (match_groups (\<lambda>rule any. rule_match lib rule address domain region_codes any) rule_tag
         (rules_groups_cache router))"

section \<open>Rebuilding the cache\<close>

text \<open>\<open>rules_groups.last_mut().unwrap().push(rule)\<close>, which panics without a group.\<close>

definition push_to_last :: "'a \<Rightarrow> 'a list list \<Rightarrow> 'a list list option" where
  "push_to_last x groups =
     (if groups = [] then None else Some (butlast groups @ [last groups @ [x]]))"

fun group_loop ::
  "('a \<Rightarrow> i64) \<Rightarrow> 'a list list \<Rightarrow> i64 option \<Rightarrow> 'a list \<Rightarrow> 'a list list option" where
  "group_loop priority rules_groups priority_cursor [] = Some rules_groups"
| "group_loop priority rules_groups priority_cursor (rule # rules) =
     (let p = priority rule in
      if priority_cursor = Some p
      then Option.bind (push_to_last rule rules_groups)
             (\<lambda>groups. group_loop priority groups priority_cursor rules)
      else group_loop priority (rules_groups @ [[rule]]) (Some p) rules)"

text \<open>The rules of the IN and, in the hash map's iteration order, of every OUT.\<close>

definition all_rules ::
  "(('net, 're) out_rules_map \<Rightarrow> ('net, 're) out_rules_map) \<Rightarrow> ('net, 're) router \<Rightarrow>
   ('net, 're) rule list" where
  "all_rules ord router =
     in_rules router @ concat (map (\<lambda>(_, rules, _). rules) (ord (out_rules_map router)))"

definition update_rules_cache ::
  "(('net, 're) out_rules_map \<Rightarrow> ('net, 're) out_rules_map) \<Rightarrow> ('net, 're) router \<Rightarrow>
   ('net, 're) router option" where
  "update_rules_cache ord router =
     map_option (\<lambda>groups. router\<lparr>rules_groups_cache := groups\<rparr>)
       (group_loop rule_priority [] None
         (sort_key (\<lambda>rule. sint (rule_priority rule)) (all_rules ord router)))"

section \<open>Tunnels come and go\<close>

definition insert_tunnel ::
  "match_out_id \<Rightarrow> tunnel_id \<Rightarrow> ('net, 're) rule list \<Rightarrow> ('net, 're) out_rules_map \<Rightarrow>
   ('net, 're) out_rules_map" where
  "insert_tunnel out_id tunnel_id rules m =
     (let (_, tunnel_id_set) = (case map_of m out_id of Some e \<Rightarrow> e | None \<Rightarrow> ([], {}))
      in AList.update out_id (rules, insert tunnel_id tunnel_id_set) m)"

definition remove_tunnel ::
  "match_out_id \<Rightarrow> tunnel_id \<Rightarrow> ('net, 're) out_rules_map \<Rightarrow> ('net, 're) out_rules_map" where
  "remove_tunnel out_id tunnel_id m =
     (case map_of m out_id of
        None \<Rightarrow> m
      | Some (rules, tunnel_id_set) \<Rightarrow>
          (let tunnel_id_set = tunnel_id_set - {tunnel_id} in
           if tunnel_id_set = {} then AList.delete out_id m
           else AList.update out_id (rules, tunnel_id_set) m))"

definition register_tunnel ::
  "('net, 're) route_lib \<Rightarrow> (match_out_id \<Rightarrow> string) \<Rightarrow>
   (('net, 're) out_rules_map \<Rightarrow> ('net, 're) out_rules_map) \<Rightarrow> match_out_id \<Rightarrow> tunnel_id \<Rightarrow>
   out_rule_config list \<Rightarrow> i64 \<Rightarrow> ('net, 're) router \<Rightarrow> ('net, 're) router option" where
  "register_tunnel lib show_id ord out_id tunnel_id rules priority router =
     update_rules_cache ord (router\<lparr>out_rules_map :=
       insert_tunnel out_id tunnel_id
         (map (\<lambda>config. out_into_rule lib show_id config out_id priority) rules)
         (out_rules_map router)\<rparr>)"

definition unregister_tunnel ::
  "(('net, 're) out_rules_map \<Rightarrow> ('net, 're) out_rules_map) \<Rightarrow> match_out_id \<Rightarrow> tunnel_id \<Rightarrow>
   ('net, 're) router \<Rightarrow> ('net, 're) router option" where
  "unregister_tunnel ord out_id tunnel_id router =
     update_rules_cache ord (router\<lparr>out_rules_map :=
       remove_tunnel out_id tunnel_id (out_rules_map router)\<rparr>)"

section \<open>The grouping loop against the reference grouping\<close>

lemma group_loop_same:
  assumes "\<forall>x \<in> set xs. priority x = p"
  shows "group_loop priority (gs @ [g]) (Some p) (xs @ ys) = group_loop priority (gs @ [g @ xs]) (Some p) ys"
  using assms by (induction xs arbitrary: g) (simp_all add: push_to_last_def)

lemma group_loop_sorted:
  assumes "sorted (map (\<lambda>x. sint (priority x)) xs)"
    and "\<forall>x \<in> set xs. cursor \<noteq> Some (priority x)"
  shows "group_loop priority gs cursor xs = Some (gs @ groups_by (\<lambda>x. sint (priority x)) xs)"
  using assms
proof (induction xs arbitrary: gs cursor rule: length_induct)
  case (1 xs)
  show ?case
  proof (cases xs)
    case Nil
    then show ?thesis by simp
  next
    case (Cons x ys)
    let ?f = "\<lambda>x. sint (priority x)"
    let ?same = "takeWhile (\<lambda>y. ?f y = ?f x) ys" and ?rest = "dropWhile (\<lambda>y. ?f y = ?f x) ys"
    have split: "ys = ?same @ ?rest" by simp
    have same: "\<forall>y \<in> set ?same. priority y = priority x"
      by (auto dest!: set_takeWhileD intro: signed_word_eqI)
    have groups: "groups_by ?f xs = (x # ?same) # groups_by ?f ?rest"
      unfolding Cons by (rule groups_by_Cons_sorted) (use "1.prems" Cons in simp)
    have rest_sorted: "sorted (map ?f ?rest)"
      using "1.prems"(1) Cons by (simp add: sorted_map_dropWhile)
    have "\<forall>y \<in> set ?rest. Some (priority x) \<noteq> Some (priority y)"
      using dropWhile_sorted_gt [of ?f x ys] "1.prems"(1) Cons by fastforce
    then have IH: "group_loop priority (gs @ [x # ?same]) (Some (priority x)) ?rest =
        Some ((gs @ [x # ?same]) @ groups_by ?f ?rest)"
      using "1.IH" rest_sorted Cons by (simp add: le_imp_less_Suc length_dropWhile_le)
    have "group_loop priority gs cursor xs = group_loop priority (gs @ [[x]]) (Some (priority x)) (?same @ ?rest)"
      using "1.prems"(2) Cons split by simp
    also have "\<dots> = group_loop priority (gs @ [x # ?same]) (Some (priority x)) ?rest"
      using group_loop_same [OF same, of gs "[x]" ?rest] by simp
    finally show ?thesis using IH groups by simp
  qed
qed

lemma update_rules_cache_eq:
  "update_rules_cache ord router =
     Some (router\<lparr>rules_groups_cache :=
       groups_by (\<lambda>rule. sint (rule_priority rule)) (all_rules ord router)\<rparr>)"
  by (simp add: update_rules_cache_def group_loop_sorted groups_by_sort_key)

end
