(* ===== verification/Router_Spec.thy ===== *)
theory Router_Spec
  imports Router
begin

text \<open>
  What the router promises. The fold over the groups is compared with a specification that says
  which labels a query gets; the map of OUT rules and its cache keep an invariant.
\<close>

section \<open>Specification of a query\<close>

text \<open>The tagged labels a rule adds when it matches.\<close>

definition contribution ::
  "('r \<Rightarrow> bool \<Rightarrow> label list option) \<Rightarrow> ('r \<Rightarrow> string option) \<Rightarrow> 'r \<Rightarrow> tagged_label list" where
  "contribution matches tag r =
     (case matches r False of Some ls \<Rightarrow> map (\<lambda>l. (l, tag r)) ls | None \<Rightarrow> [])"

definition group_labels ::
  "('r \<Rightarrow> bool \<Rightarrow> label list option) \<Rightarrow> ('r \<Rightarrow> string option) \<Rightarrow> 'r list list \<Rightarrow>
   tagged_label list list" where
  "group_labels matches tag groups =
     filter (\<lambda>ls. ls \<noteq> []) (map (\<lambda>g. concat (map (contribution matches tag) g)) groups)"

text \<open>The labels of the first fallback rule that has any.\<close>

fun fallback_group :: "('r \<Rightarrow> label list) \<Rightarrow> ('r \<Rightarrow> string option) \<Rightarrow> 'r list \<Rightarrow> tagged_label list list" where
  "fallback_group labels tag [] = []"
| "fallback_group labels tag (r # rs) =
     (if labels r = [] then fallback_group labels tag rs else [map (\<lambda>l. (l, tag r)) (labels r)])"

definition match_spec ::
  "('net, 're) route_lib \<Rightarrow> ('net, 're) rule list \<Rightarrow> socket_addr \<Rightarrow> string option \<Rightarrow>
   string list option \<Rightarrow> tagged_label list list" where
  "match_spec lib rules address domain codes =
     (let normal = group_labels (\<lambda>r any. rule_match lib r address domain codes any) rule_tag
            (groups_by (\<lambda>r. sint (rule_priority r)) (filter (\<lambda>r. \<not> is_fallback r) rules))
      in if normal = [] then fallback_group rule_labels rule_tag (filter is_fallback rules)
         else normal)"

section \<open>The folds, for any implementation of the trait\<close>

lemma match_groups_append [simp]:
  "match_groups matches tag (gs @ hs) =
     foldl (match_group_step matches tag) (match_groups matches tag gs) hs"
  by (simp add: match_groups_def)

context rule_trait
begin

lemma step_normal:
  "\<not> fallback r \<Longrightarrow>
     match_rules_step matches tag already acc r = acc @ contribution matches tag r"
  using match_any [of r "already \<or> acc \<noteq> []" False]
  by (simp add: match_rules_step_def contribution_def split: option.splits)

lemma foldl_normal:
  "\<forall>r \<in> set rs. \<not> fallback r \<Longrightarrow>
     foldl (match_rules_step matches tag already) acc rs =
       acc @ concat (map (contribution matches tag) rs)"
  by (induction rs arbitrary: acc) (simp_all add: step_normal)

lemma foldl_fallback_matched:
  "\<forall>r \<in> set rs. fallback r \<Longrightarrow> already \<or> acc \<noteq> [] \<Longrightarrow>
     foldl (match_rules_step matches tag already) acc rs = acc"
  by (induction rs) (simp_all add: match_rules_step_def match_fallback)

lemma foldl_fallback_unmatched:
  "\<forall>r \<in> set rs. fallback r \<Longrightarrow>
     foldl (match_rules_step matches tag False) [] rs = concat (fallback_group labels tag rs)"
  by (induction rs) (simp_all add: match_rules_step_def match_fallback foldl_fallback_matched)

lemma foldl_groups_normal:
  "\<forall>g \<in> set gs. \<forall>r \<in> set g. \<not> fallback r \<Longrightarrow>
     foldl (match_group_step matches tag) acc gs = acc @ group_labels matches tag gs"
  by (induction gs arbitrary: acc) (simp_all add: match_group_step_def foldl_normal group_labels_def Let_def)

lemma match_groups_fallback_last:
  assumes "\<forall>g \<in> set gs. \<forall>r \<in> set g. \<not> fallback r" and "\<forall>r \<in> set fs. fallback r"
  shows "match_groups matches tag (gs @ [fs]) =
    (if group_labels matches tag gs = [] then fallback_group labels tag fs
     else group_labels matches tag gs)"
proof -
  have normal: "match_groups matches tag gs = group_labels matches tag gs"
    using foldl_groups_normal [OF assms(1), of "[]"] by (simp add: match_groups_def)
  have single: "fallback_group labels tag fs = [] \<or>
      (\<exists>l. l \<noteq> [] \<and> fallback_group labels tag fs = [l])"
    by (induction fs) auto
  show ?thesis
  proof (cases "group_labels matches tag gs = []")
    case True
    then show ?thesis
      using single normal foldl_fallback_unmatched [OF assms(2)]
      by (auto simp: match_group_step_def)
  next
    case False
    then show ?thesis
      using normal foldl_fallback_matched [OF assms(2), of True "[]"]
      by (simp add: match_group_step_def)
  qed
qed

text \<open>Whatever the groups, a label in the result was contributed by a rule that matched.\<close>

lemma foldl_rules_sound:
  "x \<in> set (foldl (match_rules_step matches tag already) acc rs) \<Longrightarrow> x \<notin> set acc \<Longrightarrow>
     \<exists>r \<in> set rs. \<exists>any ls. matches r any = Some ls \<and> fst x \<in> set ls \<and> snd x = tag r"
proof (induction rs arbitrary: acc)
  case (Cons r rs)
  show ?case
  proof (cases "x \<in> set (match_rules_step matches tag already acc r)")
    case True
    then show ?thesis
      using Cons.prems(2) by (force simp: match_rules_step_def split: option.splits)
  next
    case False
    then show ?thesis using Cons.IH Cons.prems(1) by simp
  qed
qed simp

lemma match_groups_sound:
  "g \<in> set (match_groups matches tag gs) \<Longrightarrow> x \<in> set g \<Longrightarrow>
     \<exists>rs \<in> set gs. \<exists>r \<in> set rs. \<exists>any ls. matches r any = Some ls \<and> fst x \<in> set ls \<and> snd x = tag r"
proof (induction gs rule: rev_induct)
  case (snoc rs gs)
  show ?case
  proof (cases "g \<in> set (match_groups matches tag gs)")
    case True
    then show ?thesis using snoc by simp
  next
    case False
    then have "g = foldl (match_rules_step matches tag (match_groups matches tag gs \<noteq> [])) [] rs"
      using snoc.prems(1) by (auto simp: match_group_step_def Let_def split: if_splits)
    then show ?thesis using foldl_rules_sound [of x _ "[]" rs] snoc.prems(2) by simp
  qed
qed (simp add: match_groups_def)

lemma match_groups_nonempty: "g \<in> set (match_groups matches tag gs) \<Longrightarrow> g \<noteq> []"
  by (induction gs rule: rev_induct)
    (auto simp: match_groups_def match_group_step_def Let_def split: if_splits)

end

section \<open>The cache\<close>

text \<open>
  The router is coherent when the keys of its map are distinct, every OUT in it has a tunnel, and
  the cache is the reference grouping of all rules.
\<close>

definition rule_key :: "('net, 're) rule \<Rightarrow> int" where
  "rule_key r = sint (rule_priority r)"

definition out_map_wf :: "('net, 're) out_rules_map \<Rightarrow> bool" where
  "out_map_wf m \<longleftrightarrow> distinct (map fst m) \<and> (\<forall>out_id rules tunnels. map_of m out_id = Some (rules, tunnels) \<longrightarrow> tunnels \<noteq> {})"

definition router_coherent ::
  "(('net, 're) out_rules_map \<Rightarrow> ('net, 're) out_rules_map) \<Rightarrow> ('net, 're) router \<Rightarrow> bool" where
  "router_coherent ord router \<longleftrightarrow>
     out_map_wf (out_rules_map router) \<and>
     rules_groups_cache router = groups_by rule_key (all_rules ord router)"

lemma rule_key_le_max [simp]: "rule_key r \<le> sint i64_max"
  unfolding rule_key_def by simp

lemma rule_key_fallback: "is_fallback r \<Longrightarrow> rule_key r = sint i64_max"
  by (cases r) (simp_all add: rule_key_def)

lemma update_rules_cache_key:
  "update_rules_cache ord router =
     Some (router\<lparr>rules_groups_cache := groups_by rule_key (all_rules ord router)\<rparr>)"
  by (simp add: update_rules_cache_eq rule_key_def [abs_def])

text \<open>The abstract view: the tunnels and the rules of every OUT, as a map.\<close>

definition out_tunnels :: "('net, 're) router \<Rightarrow> match_out_id \<Rightarrow> tunnel_id set" where
  "out_tunnels router out_id =
     (case map_of (out_rules_map router) out_id of Some (_, tunnels) \<Rightarrow> tunnels | None \<Rightarrow> {})"

definition out_rules :: "('net, 're) router \<Rightarrow> match_out_id \<Rightarrow> ('net, 're) rule list option" where
  "out_rules router out_id = map_option fst (map_of (out_rules_map router) out_id)"

lemma map_of_insert_tunnel:
  "map_of (insert_tunnel out_id tunnel_id rules m) =
     (map_of m)(out_id \<mapsto> (rules, insert tunnel_id
        (case map_of m out_id of Some (_, ts) \<Rightarrow> ts | None \<Rightarrow> {})))"
  by (auto simp: insert_tunnel_def Let_def split: option.splits prod.splits)

lemma map_of_remove_tunnel:
  "map_of (remove_tunnel out_id tunnel_id m) =
     (case map_of m out_id of
        None \<Rightarrow> map_of m
      | Some (rules, ts) \<Rightarrow>
          (map_of m)(out_id := if ts - {tunnel_id} = {} then None else Some (rules, ts - {tunnel_id})))"
  by (auto simp: remove_tunnel_def Let_def split: option.splits prod.splits)

lemma distinct_keys_insert_tunnel [simp]:
  "distinct (map fst m) \<Longrightarrow> distinct (map fst (insert_tunnel out_id tunnel_id rules m))"
  by (simp add: insert_tunnel_def Let_def split: prod.splits)

lemma distinct_keys_remove_tunnel [simp]:
  "distinct (map fst m) \<Longrightarrow> distinct (map fst (remove_tunnel out_id tunnel_id m))"
  by (simp add: remove_tunnel_def Let_def split: prod.splits option.splits)

lemma out_map_wf_insert [simp]:
  "out_map_wf m \<Longrightarrow> out_map_wf (insert_tunnel out_id tunnel_id rules m)"
  by (auto simp: out_map_wf_def map_of_insert_tunnel)

lemma out_map_wf_remove [simp]:
  "out_map_wf m \<Longrightarrow> out_map_wf (remove_tunnel out_id tunnel_id m)"
  unfolding out_map_wf_def
  by (auto simp: map_of_remove_tunnel split: option.splits if_splits)

lemma register_tunnel_eq:
  "register_tunnel lib show_id ord out_id tunnel_id configs priority router =
     Some (let router' = router\<lparr>out_rules_map := insert_tunnel out_id tunnel_id
             (map (\<lambda>c. out_into_rule lib show_id c out_id priority) configs) (out_rules_map router)\<rparr>
           in router'\<lparr>rules_groups_cache := groups_by rule_key (all_rules ord router')\<rparr>)"
  by (simp add: register_tunnel_def update_rules_cache_key Let_def)

lemma unregister_tunnel_eq:
  "unregister_tunnel ord out_id tunnel_id router =
     Some (let router' = router\<lparr>out_rules_map :=
             remove_tunnel out_id tunnel_id (out_rules_map router)\<rparr>
           in router'\<lparr>rules_groups_cache := groups_by rule_key (all_rules ord router')\<rparr>)"
  by (simp add: unregister_tunnel_def update_rules_cache_key Let_def)

lemma all_rules_update_cache [simp]:
  "all_rules ord (router\<lparr>rules_groups_cache := c\<rparr>) = all_rules ord router"
  by (simp add: all_rules_def)

lemmas router_ops = register_tunnel_eq unregister_tunnel_eq Let_def

lemma match_groups_spec:
  assumes "\<forall>r \<in> set rules. \<not> is_fallback r \<longrightarrow> rule_priority r \<noteq> i64_max"
  shows "match_groups (\<lambda>r any. rule_match lib r address domain codes any) rule_tag
      (groups_by rule_key rules) = match_spec lib rules address domain codes"
proof -
  let ?m = "\<lambda>r any. rule_match lib r address domain codes any"
  let ?low = "filter (\<lambda>r. \<not> is_fallback r) rules" and ?top = "filter is_fallback rules"
  have low: "filter (\<lambda>r. rule_key r \<noteq> sint i64_max) rules = ?low"
    and top: "filter (\<lambda>r. rule_key r = sint i64_max) rules = ?top"
    using assms by (auto intro!: filter_cong simp: rule_key_fallback)
      (auto simp: rule_key_def sint_eq_i64_max)
  have spec: "match_spec lib rules address domain codes =
      (if group_labels ?m rule_tag (groups_by rule_key ?low) = []
       then fallback_group rule_labels rule_tag ?top
       else group_labels ?m rule_tag (groups_by rule_key ?low))"
    by (simp add: match_spec_def Let_def rule_key_def [abs_def])
  have groups: "groups_by rule_key rules = groups_by rule_key ?low @ (if ?top = [] then [] else [?top])"
    using groups_by_top [of rule_key "sint i64_max" rules] low top by simp
  have normal: "\<forall>g \<in> set (groups_by rule_key ?low). \<forall>r \<in> set g. \<not> is_fallback r"
    by (auto simp: groups_by_def)
  show ?thesis
  proof (cases "?top = []")
    case True
    then show ?thesis
      using groups spec rule_impl.foldl_groups_normal [OF normal, of lib address domain codes "[]"]
      by (simp add: match_groups_def)
  next
    case False
    then show ?thesis
      using groups spec rule_impl.match_groups_fallback_last [OF normal, of ?top lib address domain codes]
      by simp
  qed
qed

lemma delete_update_fresh:
  "map_of m k = None \<Longrightarrow> AList.delete k (AList.update k v m) = m"
  by (induction m) (auto simp: AList.delete_eq filter_id_conv map_of_eq_None_iff)

text \<open>Whatever the cache holds, every label of an answer, with its tag, comes from a rule of the
  cache that matches the query and has that label and that tag.\<close>

lemma router_match_rule:
  assumes "unique_law lib" and "g \<in> set (router_match lib router address domain codes)"
    and "(label, tag) \<in> set g"
  shows "\<exists>r \<in> set (concat (rules_groups_cache router)).
    label \<in> set (rule_labels r) \<and> tag = rule_tag r \<and>
    (is_fallback r \<or> rule_match lib r address domain codes False = Some (rule_labels r))"
proof -
  have "g \<in> set (match_groups (\<lambda>r any. rule_match lib r address domain codes any) rule_tag
      (rules_groups_cache router))"
    using assms(1,2) by (simp add: router_match_def set_iter_unique)
  from rule_impl.match_groups_sound [OF this assms(3)]
  obtain rs r any ls where "rs \<in> set (rules_groups_cache router)" "r \<in> set rs"
      "rule_match lib r address domain codes any = Some ls" "label \<in> set ls" "tag = rule_tag r"
    by auto
  then show ?thesis
    using rule_match_labels [of lib r address domain codes any ls]
      rule_match_any [of r lib address domain codes any False] by fastforce
qed

section \<open>Properties\<close>

text \<open>C10: Rebuilding the cache never panics and yields the reference grouping: one group per
  priority that occurs, in increasing (signed) order, each holding the rules of that priority, the
  IN rules first and in the order of the configuration.\<close>

theorem update_rules_cache_groups:
  "update_rules_cache ord router =
     Some (router\<lparr>rules_groups_cache :=
       map (\<lambda>p. filter (\<lambda>r. sint (rule_priority r) = p) (all_rules ord router))
         (sorted_list_of_set ((\<lambda>r. sint (rule_priority r)) ` set (all_rules ord router)))\<rparr>)"
  using update_rules_cache_eq [of ord router] by (simp add: groups_by_def)

text \<open>C1: A query on a coherent router in which only fallback rules have the greatest priority
  returns, once each and in order of priority, the label groups of the rules that match, and the
  labels of the first fallback rule exactly when no other rule gives a label.\<close>

theorem router_match_correct:
  assumes "router_coherent ord router" and "unique_law lib"
    and "\<forall>r \<in> set (all_rules ord router). \<not> is_fallback r \<longrightarrow> rule_priority r \<noteq> i64_max"
  shows "router_match lib router address domain codes =
    iter_unique lib (match_spec lib (all_rules ord router) address domain codes)"
  using assms(1) match_groups_spec [OF assms(3)]
  by (simp add: router_match_def router_coherent_def)

definition example_router :: "(ip_addr, string) router" where
  "example_router = \<lparr>
     in_rules =
       [FallbackRule \<lparr> fallback_labels = [BuiltIn Any], fallback_tag = None \<rparr>,
        DomainRule \<lparr> domain_matches = [''example.com''], domain_labels = [Custom ''us''],
          domain_priority = 0, domain_negate = False, domain_tag = Some ''warp'' \<rparr>],
     out_rules_map = [],
     rules_groups_cache =
       [[DomainRule \<lparr> domain_matches = [''example.com''], domain_labels = [Custom ''us''],
          domain_priority = 0, domain_negate = False, domain_tag = Some ''warp'' \<rparr>],
        [FallbackRule \<lparr> fallback_labels = [BuiltIn Any], fallback_tag = None \<rparr>]] \<rparr>"

lemma example_router_coherent: "router_coherent (\<lambda>xs. xs) example_router"
  by (simp add: router_coherent_def example_router_def out_map_wf_def all_rules_def groups_by_def
      rule_key_def sint_i64_max)

theorem router_match_correct_witness:
  "router_match host_lib example_router (SockV4 1 443) (Some ''www.example.com'') None =
     [[(Custom ''us'', Some ''warp'')]]"
proof -
  have "router_match host_lib example_router (SockV4 1 443) (Some ''www.example.com'') None =
    iter_unique host_lib (match_spec host_lib (all_rules (\<lambda>xs. xs) example_router) (SockV4 1 443)
      (Some ''www.example.com'') None)"
    by (rule router_match_correct [OF example_router_coherent])
      (simp_all add: all_rules_def example_router_def i64_max_def)
  also have "\<dots> = [[(Custom ''us'', Some ''warp'')]]"
    by (simp add: all_rules_def example_router_def match_spec_def groups_by_def group_labels_def
        contribution_def domain_match_def domain_matches_one_def ends_with_def)
  finally show ?thesis .
qed

text \<open>C38: Registering a tunnel keeps the router coherent (it repairs the cache even of a router that
  was not) and refines the update of the abstract maps: the OUT gains the tunnel, its rules become
  the translation of the announced configuration, and no other OUT changes.\<close>

theorem register_tunnel_refines:
  assumes "out_map_wf (out_rules_map router)"
  shows "\<exists>router'. register_tunnel lib show_id ord out_id tunnel_id configs priority router = Some router' \<and>
    router_coherent ord router' \<and> in_rules router' = in_rules router \<and>
    out_tunnels router' = (out_tunnels router)(out_id := insert tunnel_id (out_tunnels router out_id)) \<and>
    out_rules router' = (out_rules router)(out_id \<mapsto>
      map (\<lambda>c. out_into_rule lib show_id c out_id priority) configs)"
  using assms
  by (auto simp: router_ops router_coherent_def all_rules_def out_tunnels_def out_rules_def
      map_of_insert_tunnel fun_eq_iff split: option.splits)

theorem register_tunnel_refines_witness:
  "\<exists>router'. register_tunnel host_lib (\<lambda>_. ''o'') rev (MatchOutId 1) (TunnelId 2) [] 0 example_router =
      Some router' \<and>
    router_coherent rev router' \<and> in_rules router' = in_rules example_router \<and>
    out_tunnels router' = (out_tunnels example_router)(MatchOutId 1 := insert (TunnelId 2)
      (out_tunnels example_router (MatchOutId 1))) \<and>
    out_rules router' = (out_rules example_router)(MatchOutId 1 \<mapsto>
      map (\<lambda>c. out_into_rule host_lib (\<lambda>_. ''o'') c (MatchOutId 1) 0) [])"
  by (rule register_tunnel_refines) (simp add: example_router_def out_map_wf_def)

text \<open>Unregistering a tunnel keeps the router coherent and refines the abstract maps: the OUT
  loses the tunnel, its rules go with its last tunnel and not before, and no other OUT changes.\<close>

theorem unregister_tunnel_refines:
  assumes "out_map_wf (out_rules_map router)"
  shows "\<exists>router'. unregister_tunnel ord out_id tunnel_id router = Some router' \<and>
    router_coherent ord router' \<and> in_rules router' = in_rules router \<and>
    out_tunnels router' = (out_tunnels router)(out_id := out_tunnels router out_id - {tunnel_id}) \<and>
    out_rules router' = (if out_tunnels router out_id \<subseteq> {tunnel_id}
      then (out_rules router)(out_id := None) else out_rules router)"
  using assms
  by (auto simp: router_ops router_coherent_def all_rules_def out_tunnels_def out_rules_def
      map_of_remove_tunnel fun_eq_iff split: option.splits)

theorem unregister_tunnel_refines_witness:
  "\<exists>router'. unregister_tunnel rev (MatchOutId 1) (TunnelId 2) example_router = Some router' \<and>
    router_coherent rev router' \<and> in_rules router' = in_rules example_router \<and>
    out_tunnels router' = (out_tunnels example_router)(MatchOutId 1 :=
      out_tunnels example_router (MatchOutId 1) - {TunnelId 2}) \<and>
    out_rules router' = (if out_tunnels example_router (MatchOutId 1) \<subseteq> {TunnelId 2}
      then (out_rules example_router)(MatchOutId 1 := None) else out_rules example_router)"
  by (rule unregister_tunnel_refines) (simp add: example_router_def out_map_wf_def)

text \<open>On a coherent router, registering the first tunnel of an OUT and unregistering it again
  restores the router exactly, cache included.\<close>

theorem register_unregister_restores:
  assumes "router_coherent ord router" and "map_of (out_rules_map router) out_id = None"
  shows "Option.bind (register_tunnel lib show_id ord out_id tunnel_id configs priority router)
    (unregister_tunnel ord out_id tunnel_id) = Some router"
proof -
  have "remove_tunnel out_id tunnel_id (insert_tunnel out_id tunnel_id rules (out_rules_map router)) =
      out_rules_map router" for rules
    using assms(2) by (simp add: insert_tunnel_def remove_tunnel_def delete_update_fresh)
  then show ?thesis
    using assms(1) by (simp add: router_ops router_coherent_def all_rules_def)
qed

theorem register_unregister_restores_witness:
  "Option.bind (register_tunnel host_lib (\<lambda>_. ''o'') (\<lambda>xs. xs) (MatchOutId 1) (TunnelId 2)
      [OutFallback \<lparr> ofall_tag = None \<rparr>] 5 example_router)
    (unregister_tunnel (\<lambda>xs. xs) (MatchOutId 1) (TunnelId 2)) = Some example_router"
  by (rule register_unregister_restores [OF example_router_coherent]) (simp add: example_router_def)

text \<open>A freshly built router is not coherent: its cache is one group in the order of the
  configuration, whatever the priorities. A fallback rule written first then answers beside the
  rule that matches, until the first tunnel is registered; after that tunnel is gone the same
  configuration gives another answer.\<close>

theorem router_new_cache_ungrouped:
  "\<exists>configs router router'.
     router_new host_lib configs = Some router \<and>
     Option.bind (register_tunnel host_lib (\<lambda>_. ''o'') (\<lambda>xs. xs) (MatchOutId 1) (TunnelId 2) [] 0 router)
       (unregister_tunnel (\<lambda>xs. xs) (MatchOutId 1) (TunnelId 2)) = Some router' \<and>
     in_rules router' = in_rules router \<and> out_rules_map router' = out_rules_map router \<and>
     router_match host_lib router (SockV4 1 443) (Some ''a.com'') None =
       [[(BuiltIn Direct, None), (Custom ''us'', None)]] \<and>
     router_match host_lib router' (SockV4 1 443) (Some ''a.com'') None = [[(Custom ''us'', None)]]"
proof -
  let ?configs = "[InFallback \<lparr> ifall_out = One (BuiltIn Direct), ifall_tag = None \<rparr>,
    InDomain \<lparr> idom_match = One ''a.com'', idom_negate = False, idom_out = One (Custom ''us''),
      idom_priority = None, idom_tag = None \<rparr>]"
  let ?fallback = "FallbackRule \<lparr> fallback_labels = [BuiltIn Direct], fallback_tag = None \<rparr>"
  let ?domain = "DomainRule \<lparr> domain_matches = [''a.com''], domain_labels = [Custom ''us''],
    domain_priority = i64_min, domain_negate = False, domain_tag = None \<rparr>"
  let ?router = "\<lparr> in_rules = [?fallback, ?domain], out_rules_map = [],
    rules_groups_cache = [[?fallback, ?domain]] \<rparr> :: (ip_addr, string) router"
  let ?router' = "?router\<lparr> rules_groups_cache := [[?domain], [?fallback]] \<rparr>"
  have "router_new host_lib ?configs = Some ?router" by (simp add: router_new_def)
  moreover have "Option.bind (register_tunnel host_lib (\<lambda>_. ''o'') (\<lambda>xs. xs) (MatchOutId 1) (TunnelId 2) [] 0 ?router)
      (unregister_tunnel (\<lambda>xs. xs) (MatchOutId 1) (TunnelId 2)) = Some ?router'"
    by (simp add: router_ops all_rules_def insert_tunnel_def remove_tunnel_def groups_by_def rule_key_def
        sint_i64_max sint_i64_min)
  moreover have "router_match host_lib ?router (SockV4 1 443) (Some ''a.com'') None =
      [[(BuiltIn Direct, None), (Custom ''us'', None)]]"
    by (simp add: router_match_def match_groups_def match_group_step_def match_rules_step_def
        domain_match_def domain_matches_one_def fallback_match_def)
  moreover have "router_match host_lib ?router' (SockV4 1 443) (Some ''a.com'') None = [[(Custom ''us'', None)]]"
    by (simp add: router_match_def match_groups_def match_group_step_def match_rules_step_def
        domain_match_def domain_matches_one_def fallback_match_def)
  ultimately show ?thesis by (intro exI [of _ ?configs] exI [of _ ?router] exI [of _ ?router']) simp
qed

end
