(* ===== verification/Manager_System.thy ===== *)
theory Manager_System
  imports Tunnel_Manager Router_Spec
begin

text \<open>
  The accepting side of \<open>src/lib/in/tunnel_manager.rs\<close> as a step relation: the tasks of
  \<open>handle_tunnel_provider\<close> and \<open>handle_out\<close> with their semaphores, and the changes they make
  together to the tunnel map, the label map and the router. Each block of the code that runs under
  the lock of the tunnel map is one step; tasks interleave freely between steps.
\<close>

section \<open>State\<close>

text \<open>
  One running \<open>handle_out\<close>: \<open>h_available\<close> permits in the semaphore, and whether the loop holds
  one while it waits for \<open>accept\<close>.
\<close>

record out_handler =
  h_out_id :: match_out_id
  h_connections :: nat
  h_available :: nat
  h_accepting :: bool
  h_done :: bool

definition handle_out_start :: "match_out_id \<Rightarrow> usize \<Rightarrow> out_handler" where
  "handle_out_start out_id connections =
     \<lparr> h_out_id = out_id, h_connections = unat connections, h_available = unat connections,
       h_accepting = False, h_done = False \<rparr>"

text \<open>\<open>sys_permits\<close>: the active permits, by tunnel, each with the handler it was drawn from.\<close>

record ('net, 're) manager_system =
  sys_manager :: tunnel_manager
  sys_router :: "('net, 're) router"
  sys_handlers :: "out_handler list"
  sys_permits :: "(tunnel_id \<times> nat) list"

section \<open>Operations\<close>

definition accept_tunnel ::
  "(match_out_id \<Rightarrow> string) \<Rightarrow> (tunnel_map \<Rightarrow> tunnel_map) \<Rightarrow> in_tunnel \<Rightarrow> tunnel_manager \<Rightarrow>
   tunnel_manager" where
  "accept_tunnel show_id ord tunnel manager =
     (let tunnels = AList.update (tun_id tunnel) tunnel (tunnel_map manager)
      in manager\<lparr>tunnel_map := tunnels,
           label_to_tunnels_map := update_label_to_tunnels_map show_id ord tunnels\<rparr>)"

definition close_tunnel ::
  "(match_out_id \<Rightarrow> string) \<Rightarrow> (tunnel_map \<Rightarrow> tunnel_map) \<Rightarrow> tunnel_id \<Rightarrow> tunnel_manager \<Rightarrow>
   tunnel_manager" where
  "close_tunnel show_id ord tunnel_id manager =
     (let tunnels = AList.delete tunnel_id (tunnel_map manager)
      in manager\<lparr>tunnel_map := tunnels,
           label_to_tunnels_map := update_label_to_tunnels_map show_id ord tunnels\<rparr>)"

definition acquire_permit :: "out_handler \<Rightarrow> out_handler option" where
  "acquire_permit h =
     (if h_done h \<or> h_accepting h \<or> h_available h = 0 then None
      else Some (h\<lparr>h_available := h_available h - 1, h_accepting := True\<rparr>))"

text \<open>What \<open>accept\<close> answered: a tunnel takes the permit along, otherwise it is dropped; after
  \<open>Ok(None)\<close> the loop ends.\<close>

datatype accept_outcome = Accepted | AcceptNone | AcceptFailed

fun finish_accept :: "accept_outcome \<Rightarrow> out_handler \<Rightarrow> out_handler" where
  "finish_accept Accepted h = h\<lparr>h_accepting := False\<rparr>"
| "finish_accept AcceptNone h =
     h\<lparr>h_accepting := False, h_available := h_available h + 1, h_done := True\<rparr>"
| "finish_accept AcceptFailed h = h\<lparr>h_accepting := False, h_available := h_available h + 1\<rparr>"

definition release_permit :: "out_handler \<Rightarrow> out_handler" where
  "release_permit h = h\<lparr>h_available := h_available h + 1\<rparr>"

section \<open>Steps\<close>

text \<open>
  Tunnel ids are fresh UUIDs: a new tunnel's id is not that of an open or active one. The provider
  hands out tunnels of the OUT it was asked for.
\<close>

inductive manager_step ::
  "('net, 're) route_lib \<Rightarrow> (match_out_id \<Rightarrow> string) \<Rightarrow> ('net, 're) manager_system \<Rightarrow>
   ('net, 're) manager_system \<Rightarrow> bool"
  for lib show_id where
  accept_out:
    "manager_step lib show_id s
       (s\<lparr>sys_handlers := sys_handlers s @ [handle_out_start out_id connections]\<rparr>)"
| acquire:
    "i < length (sys_handlers s) \<Longrightarrow> acquire_permit (sys_handlers s ! i) = Some h \<Longrightarrow>
     manager_step lib show_id s (s\<lparr>sys_handlers := (sys_handlers s)[i := h]\<rparr>)"
| accepted:
    "i < length (sys_handlers s) \<Longrightarrow> h_accepting (sys_handlers s ! i) \<Longrightarrow>
     tun_out_id tunnel = h_out_id (sys_handlers s ! i) \<Longrightarrow>
     map_of (tunnel_map (sys_manager s)) (tun_id tunnel) = None \<Longrightarrow>
     tun_id tunnel \<notin> fst ` set (sys_permits s) \<Longrightarrow>
     hash_order ord \<Longrightarrow> hash_order ord' \<Longrightarrow>
     register_tunnel lib show_id ord' (tun_out_id tunnel) (tun_id tunnel) rules priority
       (sys_router s) = Some router \<Longrightarrow>
     manager_step lib show_id s
       (s\<lparr>sys_manager := accept_tunnel show_id ord tunnel (sys_manager s),
          sys_router := router,
          sys_handlers := (sys_handlers s)[i := finish_accept Accepted (sys_handlers s ! i)],
          sys_permits := (tun_id tunnel, i) # sys_permits s\<rparr>)"
| not_accepted:
    "i < length (sys_handlers s) \<Longrightarrow> h_accepting (sys_handlers s ! i) \<Longrightarrow> outcome \<noteq> Accepted \<Longrightarrow>
     manager_step lib show_id s
       (s\<lparr>sys_handlers := (sys_handlers s)[i := finish_accept outcome (sys_handlers s ! i)]\<rparr>)"
| deactivated:
    "(tunnel_id, i) \<in> set (sys_permits s) \<Longrightarrow>
     manager_step lib show_id s
       (s\<lparr>sys_handlers := (sys_handlers s)[i := release_permit (sys_handlers s ! i)],
          sys_permits := remove1 (tunnel_id, i) (sys_permits s)\<rparr>)"
| closed:
    "map_of (tunnel_map (sys_manager s)) tunnel_id = Some tunnel \<Longrightarrow>
     hash_order ord \<Longrightarrow> hash_order ord' \<Longrightarrow>
     unregister_tunnel ord' (tun_out_id tunnel) tunnel_id (sys_router s) = Some router \<Longrightarrow>
     manager_step lib show_id s
       (s\<lparr>sys_manager := close_tunnel show_id ord tunnel_id (sys_manager s),
          sys_router := router\<rparr>)"
| selected:
    "manager_step lib show_id s
       (s\<lparr>sys_manager := snd (select_tunnel (\<lambda>t. tun_id t \<in> fst ` set (sys_permits s))
            (sys_manager s) groups)\<rparr>)"

definition manager_system_new :: "('net, 're) router \<Rightarrow> ('net, 're) manager_system" where
  "manager_system_new router =
     \<lparr> sys_manager = tunnel_manager_new, sys_router = router, sys_handlers = [], sys_permits = [] \<rparr>"

text \<open>The states that a program started with these IN rules can reach.\<close>

inductive manager_reachable ::
  "('net, 're) route_lib \<Rightarrow> (match_out_id \<Rightarrow> string) \<Rightarrow> ('net, 're) manager_system \<Rightarrow> bool"
  for lib show_id where
  start: "router_new lib configs = Some router \<Longrightarrow>
    manager_reachable lib show_id (manager_system_new router)"
| step: "manager_reachable lib show_id s \<Longrightarrow> manager_step lib show_id s s' \<Longrightarrow>
    manager_reachable lib show_id s'"

inductive_cases manager_stepE: "manager_step lib show_id s s'"

section \<open>The semaphores\<close>

definition permits_of :: "nat \<Rightarrow> (tunnel_id \<times> nat) list \<Rightarrow> nat" where
  "permits_of i ps = length (filter (\<lambda>p. snd p = i) ps)"

lemma permits_of_simps [simp]:
  "permits_of i [] = 0"
  "permits_of i (p # ps) = (if snd p = i then 1 else 0) + permits_of i ps"
  by (simp_all add: permits_of_def)

lemma permits_of_remove1:
  "p \<in> set ps \<Longrightarrow> permits_of i ps = (if snd p = i then 1 else 0) + permits_of i (remove1 p ps)"
  by (induction ps) auto

definition handler_balanced :: "out_handler \<Rightarrow> nat \<Rightarrow> bool" where
  "handler_balanced h held \<longleftrightarrow>
     h_available h + of_bool (h_accepting h) + held = h_connections h"

definition permits_inv :: "('net, 're) manager_system \<Rightarrow> bool" where
  "permits_inv s \<longleftrightarrow>
     (\<forall>i < length (sys_handlers s). handler_balanced (sys_handlers s ! i) (permits_of i (sys_permits s))) \<and>
     (\<forall>p \<in> set (sys_permits s). snd p < length (sys_handlers s))"

lemma permits_of_fresh:
  "\<forall>p \<in> set ps. snd p < n \<Longrightarrow> permits_of n ps = 0"
  by (auto simp: permits_of_def filter_empty_conv)

lemma permits_inv_update:
  assumes "permits_inv s" "i < length (sys_handlers s)"
    and "\<And>j. j \<noteq> i \<Longrightarrow> permits_of j ps = permits_of j (sys_permits s)"
    and "handler_balanced h (permits_of i ps)" and "snd ` set ps \<subseteq> insert i (snd ` set (sys_permits s))"
  shows "permits_inv (s\<lparr>sys_handlers := (sys_handlers s)[i := h], sys_permits := ps\<rparr>)"
  using assms by (fastforce simp: permits_inv_def nth_list_update)

lemma permits_inv_cong:
  "sys_handlers s = sys_handlers t \<Longrightarrow> sys_permits s = sys_permits t \<Longrightarrow> permits_inv s = permits_inv t"
  by (simp add: permits_inv_def)

lemma manager_step_permits:
  assumes "manager_step lib show_id s s'" and inv: "permits_inv s"
  shows "permits_inv s'"
  using assms(1)
proof cases
  case (accept_out out_id connections)
  then show ?thesis
    using inv permits_of_fresh [of "sys_permits s" "length (sys_handlers s)"]
    by (auto simp: permits_inv_def nth_append less_Suc_eq handler_balanced_def handle_out_start_def)
next
  case (acquire i h)
  have "permits_inv (s\<lparr>sys_handlers := (sys_handlers s)[i := h], sys_permits := sys_permits s\<rparr>)"
    by (rule permits_inv_update [OF inv])
      (use acquire inv in \<open>auto simp: permits_inv_def handler_balanced_def acquire_permit_def split: if_splits\<close>)
  then show ?thesis using acquire(1) by (simp add: permits_inv_def)
next
  case (accepted i tunnel ord ord' rules priority router)
  have "permits_inv (s\<lparr>sys_handlers := (sys_handlers s)[i := finish_accept Accepted (sys_handlers s ! i)],
      sys_permits := (tun_id tunnel, i) # sys_permits s\<rparr>)"
    by (rule permits_inv_update [OF inv])
      (use accepted inv in \<open>auto simp: permits_inv_def handler_balanced_def\<close>)
  then show ?thesis using accepted(1) by (simp add: permits_inv_def)
next
  case (not_accepted i outcome)
  have "permits_inv (s\<lparr>sys_handlers := (sys_handlers s)[i := finish_accept outcome (sys_handlers s ! i)],
      sys_permits := sys_permits s\<rparr>)"
  proof (rule permits_inv_update [OF inv])
    show "handler_balanced (finish_accept outcome (sys_handlers s ! i)) (permits_of i (sys_permits s))"
      using not_accepted inv by (cases outcome) (auto simp: permits_inv_def handler_balanced_def)
  qed (use not_accepted in auto)
  then show ?thesis using not_accepted(1) by (simp add: permits_inv_def)
next
  case (deactivated tunnel_id i)
  have "permits_inv (s\<lparr>sys_handlers := (sys_handlers s)[i := release_permit (sys_handlers s ! i)],
      sys_permits := remove1 (tunnel_id, i) (sys_permits s)\<rparr>)"
  proof (rule permits_inv_update [OF inv])
    show "i < length (sys_handlers s)" using inv deactivated(2) by (auto simp: permits_inv_def)
    then show "handler_balanced (release_permit (sys_handlers s ! i))
        (permits_of i (remove1 (tunnel_id, i) (sys_permits s)))"
      using inv permits_of_remove1 [OF deactivated(2), of i]
      by (auto simp: permits_inv_def handler_balanced_def release_permit_def)
    show "permits_of j (remove1 (tunnel_id, i) (sys_permits s)) = permits_of j (sys_permits s)"
      if "j \<noteq> i" for j
      using that permits_of_remove1 [OF deactivated(2), of j] by auto
    show "snd ` set (remove1 (tunnel_id, i) (sys_permits s)) \<subseteq> insert i (snd ` set (sys_permits s))"
      using set_remove1_subset [of "(tunnel_id, i)" "sys_permits s"] by blast
  qed
  then show ?thesis using deactivated(1) by simp
next
  case (closed tunnel_id tunnel ord ord' router)
  then show ?thesis using inv by (simp add: permits_inv_def)
next
  case (selected groups)
  then show ?thesis using inv by (simp add: permits_inv_def)
qed

lemma reachable_permits: "manager_reachable lib show_id s \<Longrightarrow> permits_inv s"
proof (induction rule: manager_reachable.induct)
  case (start configs router)
  then show ?case by (simp add: permits_inv_def manager_system_new_def)
qed (rule manager_step_permits)

section \<open>The maps of manager and router\<close>

lemma tunnel_map_close: "tunnel_map (close_tunnel show_id ord i mg) = AList.delete i (tunnel_map mg)"
  by (simp add: close_tunnel_def Let_def)

lemma tunnel_map_accept:
  "tunnel_map (accept_tunnel show_id ord t mg) = AList.update (tun_id t) t (tunnel_map mg)"
  by (simp add: accept_tunnel_def Let_def)

definition tunnels_of :: "tunnel_map \<Rightarrow> match_out_id \<Rightarrow> tunnel_id set" where
  "tunnels_of tunnels out_id = {i. \<exists>t. map_of tunnels i = Some t \<and> tun_out_id t = out_id}"

text \<open>
  The invariant: ids are those of the tunnels, the label map is the one of the open tunnels, the
  router knows the open tunnels of every OUT and no other OUT, its rules carry the OUT's id, and
  the cache holds exactly the rules of the router.
\<close>

definition maps_inv ::
  "(match_out_id \<Rightarrow> string) \<Rightarrow> ('net, 're) manager_system \<Rightarrow> bool" where
  "maps_inv show_id s \<longleftrightarrow>
     distinct (map fst (tunnel_map (sys_manager s))) \<and>
     (\<forall>i t. map_of (tunnel_map (sys_manager s)) i = Some t \<longrightarrow> tun_id t = i) \<and>
     (\<exists>ord. hash_order ord \<and> label_map_of show_id ord (sys_manager s)) \<and>
     out_map_wf (out_rules_map (sys_router s)) \<and>
     (\<forall>out_id. out_tunnels (sys_router s) out_id = tunnels_of (tunnel_map (sys_manager s)) out_id) \<and>
     (\<forall>out_id rules. out_rules (sys_router s) out_id = Some rules \<longrightarrow>
        (\<forall>r \<in> set rules. rule_labels r = [Custom (show_id out_id)])) \<and>
     set (concat (rules_groups_cache (sys_router s))) =
       set (in_rules (sys_router s)) \<union> (\<Union>rules \<in> ran (out_rules (sys_router s)). set rules)"

lemma set_all_rules:
  assumes "hash_order ord" "distinct (map fst (out_rules_map router))"
  shows "set (all_rules ord router) =
    set (in_rules router) \<union> (\<Union>rules \<in> ran (out_rules router). set rules)"
proof -
  have "rules \<in> ran (out_rules router) \<longleftrightarrow> (\<exists>o' ts. (o', rules, ts) \<in> set (out_rules_map router))" for rules
    using assms(2) by (force simp: ran_def out_rules_def)
  then show ?thesis
    by (force simp: all_rules_def hash_order_set [OF assms(1)])
qed

lemma update_tunnels_of:
  assumes "map_of m (tun_id t) = None"
  shows "tunnels_of (AList.update (tun_id t) t m) o' =
    (if o' = tun_out_id t then insert (tun_id t) (tunnels_of m o') else tunnels_of m o')"
  using assms by (auto simp: tunnels_of_def)

lemma delete_tunnels_of:
  assumes "map_of m i = Some t"
  shows "tunnels_of (AList.delete i m) o' =
    (if o' = tun_out_id t then tunnels_of m o' - {i} else tunnels_of m o')"
  using assms by (auto simp: tunnels_of_def)

lemma label_map_accept: "label_map_of show_id ord (accept_tunnel show_id ord t mg)"
  by (simp add: label_map_of_def accept_tunnel_def Let_def)

lemma label_map_close: "label_map_of show_id ord (close_tunnel show_id ord i mg)"
  by (simp add: label_map_of_def close_tunnel_def Let_def)

text \<open>The router's operations, seen through the abstract maps.\<close>

lemma register_abs:
  assumes "register_tunnel lib show_id ord out_id i rules priority router = Some router'"
    and "hash_order ord" and "out_map_wf (out_rules_map router)"
  shows "out_map_wf (out_rules_map router')" and "in_rules router' = in_rules router"
    and "out_tunnels router' = (out_tunnels router)(out_id := insert i (out_tunnels router out_id))"
    and "out_rules router' = (out_rules router)(out_id \<mapsto> map (\<lambda>c. out_into_rule lib show_id c out_id priority) rules)"
    and "set (concat (rules_groups_cache router')) = set (all_rules ord router')"
  using assms
  by (auto simp: router_ops out_tunnels_def out_rules_def map_of_insert_tunnel fun_eq_iff
      simp del: set_concat split: option.splits)

lemma unregister_abs:
  assumes "unregister_tunnel ord out_id i router = Some router'"
    and "hash_order ord" and "out_map_wf (out_rules_map router)"
  shows "out_map_wf (out_rules_map router')" and "in_rules router' = in_rules router"
    and "out_tunnels router' = (out_tunnels router)(out_id := out_tunnels router out_id - {i})"
    and "out_rules router' = (if out_tunnels router out_id \<subseteq> {i}
      then (out_rules router)(out_id := None) else out_rules router)"
    and "set (concat (rules_groups_cache router')) = set (all_rules ord router')"
  using assms
  by (auto simp: router_ops out_tunnels_def out_rules_def map_of_remove_tunnel fun_eq_iff
      simp del: set_concat split: option.splits if_splits)

lemma maps_inv_cong:
  assumes "maps_inv show_id s" "sys_router t = sys_router s"
    and "tunnel_map (sys_manager t) = tunnel_map (sys_manager s)"
    and "label_to_tunnels_map (sys_manager t) = label_to_tunnels_map (sys_manager s)"
  shows "maps_inv show_id t"
  using assms by (simp add: maps_inv_def label_map_of_def)

lemma maps_inv_accept:
  assumes inv: "maps_inv show_id s" and fresh: "map_of (tunnel_map (sys_manager s)) (tun_id t) = None"
    and ord: "hash_order ord" and ord': "hash_order ord'"
    and reg: "register_tunnel lib show_id ord' (tun_out_id t) (tun_id t) rules priority (sys_router s) = Some router"
    and s': "sys_manager s' = accept_tunnel show_id ord t (sys_manager s)" "sys_router s' = router"
  shows "maps_inv show_id s'"
proof -
  note abs = register_abs [OF reg ord']
  have wf: "out_map_wf (out_rules_map (sys_router s))" using inv by (simp add: maps_inv_def)
  note abs = abs [OF wf]
  have "set (concat (rules_groups_cache router)) =
      set (in_rules router) \<union> (\<Union>rules \<in> ran (out_rules router). set rules)"
    unfolding abs(5) by (rule set_all_rules [OF ord']) (use abs(1) in \<open>simp add: out_map_wf_def\<close>)
  moreover have "\<forall>o'. out_tunnels router o' = tunnels_of (tunnel_map (sys_manager s')) o'"
    unfolding s' tunnel_map_accept update_tunnels_of [OF fresh] abs(3)
    using inv by (simp add: maps_inv_def)
  moreover have "\<exists>ord. hash_order ord \<and> label_map_of show_id ord (sys_manager s')"
    unfolding s' using ord label_map_accept by blast
  moreover have "\<forall>o' rs. out_rules router o' = Some rs \<longrightarrow> (\<forall>r \<in> set rs. rule_labels r = [Custom (show_id o')])"
    unfolding abs(4) using inv by (auto simp: maps_inv_def)
  ultimately show ?thesis
    using inv abs(1) unfolding maps_inv_def s' tunnel_map_accept by auto
qed

lemma maps_inv_close:
  assumes inv: "maps_inv show_id s" and t: "map_of (tunnel_map (sys_manager s)) i = Some t"
    and ord: "hash_order ord" and ord': "hash_order ord'"
    and reg: "unregister_tunnel ord' (tun_out_id t) i (sys_router s) = Some router"
    and s': "sys_manager s' = close_tunnel show_id ord i (sys_manager s)" "sys_router s' = router"
  shows "maps_inv show_id s'"
proof -
  have wf: "out_map_wf (out_rules_map (sys_router s))" using inv by (simp add: maps_inv_def)
  note abs = unregister_abs [OF reg ord' wf]
  have "set (concat (rules_groups_cache router)) =
      set (in_rules router) \<union> (\<Union>rules \<in> ran (out_rules router). set rules)"
    unfolding abs(5) by (rule set_all_rules [OF ord']) (use abs(1) in \<open>simp add: out_map_wf_def\<close>)
  moreover have "\<forall>o'. out_tunnels router o' = tunnels_of (tunnel_map (sys_manager s')) o'"
    unfolding s' tunnel_map_close delete_tunnels_of [OF t] abs(3)
    using inv by (simp add: maps_inv_def)
  moreover have "\<exists>ord. hash_order ord \<and> label_map_of show_id ord (sys_manager s')"
    unfolding s' using ord label_map_close by blast
  moreover have "\<forall>o' rs. out_rules router o' = Some rs \<longrightarrow> (\<forall>r \<in> set rs. rule_labels r = [Custom (show_id o')])"
    unfolding abs(4) using inv by (auto simp: maps_inv_def split: if_splits)
  ultimately show ?thesis
    using inv abs(1) unfolding maps_inv_def s' tunnel_map_close by auto
qed

lemma manager_step_maps:
  assumes "manager_step lib show_id s s'" and inv: "maps_inv show_id s"
  shows "maps_inv show_id s'"
  using assms(1)
proof cases
  case (accepted i tunnel ord ord' rules priority router)
  show ?thesis
    by (rule maps_inv_accept [OF inv accepted(5,7,8,9)]) (simp_all add: accepted(1))
next
  case (closed tunnel_id tunnel ord ord' router)
  show ?thesis
    by (rule maps_inv_close [OF inv closed(2-5)]) (simp_all add: closed(1))
qed (use inv in \<open>auto intro!: maps_inv_cong [OF inv] simp: select_tunnel_def\<close>)

lemma maps_inv_start:
  assumes "router_new lib configs = Some router"
  shows "maps_inv show_id (manager_system_new router)"
proof -
  have "label_map_of show_id (\<lambda>xs. xs) tunnel_manager_new"
    by (simp add: label_map_of_def tunnel_manager_new_def update_label_to_tunnels_map_def)
  then show ?thesis
    using assms hash_order_id
    by (auto simp: maps_inv_def manager_system_new_def router_new_def tunnel_manager_new_def
        out_map_wf_def out_tunnels_def tunnels_of_def out_rules_def ran_def)
qed

lemma maps_inv_tunnel:
  assumes inv: "maps_inv show_id s" and rules: "out_rules (sys_router s) out_id = Some rules"
  shows "\<exists>i t. map_of (tunnel_map (sys_manager s)) i = Some t \<and> tun_out_id t = out_id"
proof -
  have wf: "out_map_wf (out_rules_map (sys_router s))" using inv by (simp add: maps_inv_def)
  obtain ts where ts: "map_of (out_rules_map (sys_router s)) out_id = Some (rules, ts)"
    using rules by (auto simp: out_rules_def)
  then have "ts \<noteq> {}" using wf unfolding out_map_wf_def by blast
  then have "out_tunnels (sys_router s) out_id \<noteq> {}" using ts by (simp add: out_tunnels_def)
  then have "tunnels_of (tunnel_map (sys_manager s)) out_id \<noteq> {}" using inv by (simp add: maps_inv_def)
  then show ?thesis by (auto simp: tunnels_of_def)
qed

lemma reachable_maps: "manager_reachable lib show_id s \<Longrightarrow> maps_inv show_id s"
  by (induction rule: manager_reachable.induct) (rule maps_inv_start manager_step_maps, assumption+)+

section \<open>The tunnels of an OUT\<close>

text \<open>
  A tunnel has one permit at most, from a handler of its OUT: the permits of all handlers of an OUT,
  one for each protocol and each time the OUT was accepted, bound its active tunnels.
\<close>

definition permits_belong :: "('net, 're) manager_system \<Rightarrow> bool" where
  "permits_belong s \<longleftrightarrow> distinct (map fst (sys_permits s)) \<and>
     (\<forall>(i, j) \<in> set (sys_permits s). \<forall>t. map_of (tunnel_map (sys_manager s)) i = Some t \<longrightarrow>
        tun_out_id t = h_out_id (sys_handlers s ! j))"

lemma permits_belong_update:
  assumes "permits_belong s" "h_out_id h = h_out_id (sys_handlers s ! i)"
  shows "permits_belong (s\<lparr>sys_handlers := (sys_handlers s)[i := h]\<rparr>)"
proof -
  have "h_out_id ((sys_handlers s)[i := h] ! j) = h_out_id (sys_handlers s ! j)" for j
    using assms(2) by (cases "i < length (sys_handlers s)"; cases "i = j") (simp_all add: list_update_beyond)
  then show ?thesis using assms(1) by (simp add: permits_belong_def)
qed

lemma finish_accept_out_id [simp]: "h_out_id (finish_accept outcome h) = h_out_id h"
  by (cases outcome) simp_all

lemma permits_belong_remove:
  assumes "permits_belong s" shows "permits_belong (s\<lparr>sys_permits := remove1 p (sys_permits s)\<rparr>)"
proof -
  have "distinct (map f xs) \<Longrightarrow> distinct (map f (remove1 p xs))" for f :: "tunnel_id \<times> nat \<Rightarrow> tunnel_id" and xs
    by (induction xs) (auto dest!: set_mp [OF set_remove1_subset] intro: rev_image_eqI)
  then show ?thesis using assms notin_set_remove1 [of _ "sys_permits s" p] by (fastforce simp: permits_belong_def)
qed

lemma permits_belong_step:
  assumes "manager_step lib show_id s s'" and inv: "permits_belong s" and permits: "permits_inv s"
  shows "permits_belong s'"
  using assms(1)
proof cases
  case (accept_out out_id connections)
  then show ?thesis using inv permits by (fastforce simp: permits_belong_def permits_inv_def nth_append)
next
  case (acquire i h)
  have "permits_belong (s\<lparr>sys_handlers := (sys_handlers s)[i := h]\<rparr>)"
    by (rule permits_belong_update [OF inv]) (use acquire(3) in \<open>auto simp: acquire_permit_def split: if_splits\<close>)
  then show ?thesis using acquire(1) by simp
next
  case (accepted i tunnel ord ord' rules priority router)
  have "permits_belong (s\<lparr>sys_handlers := (sys_handlers s)[i := finish_accept Accepted (sys_handlers s ! i)]\<rparr>)"
    by (rule permits_belong_update [OF inv]) simp
  moreover have "h_out_id ((sys_handlers s)[i := finish_accept Accepted (sys_handlers s ! i)] ! i) = tun_out_id tunnel"
    using accepted(2,4) by simp
  ultimately show ?thesis
    using accepted(6) unfolding accepted(1) permits_belong_def
    by (auto simp: tunnel_map_accept rev_image_eqI simp del: finish_accept.simps split: if_splits)
next
  case (not_accepted i outcome)
  then show ?thesis using permits_belong_update [OF inv] by simp
next
  case (deactivated tunnel_id i)
  have "permits_belong (s\<lparr>sys_handlers := (sys_handlers s)[i := release_permit (sys_handlers s ! i)]\<rparr>)"
    by (rule permits_belong_update [OF inv]) (simp add: release_permit_def)
  from permits_belong_remove [OF this] show ?thesis using deactivated(1) by simp
next
  case (closed tunnel_id tunnel ord ord' router)
  then show ?thesis using inv by (auto simp: permits_belong_def tunnel_map_close split: if_splits)
next
  case (selected groups)
  then show ?thesis using inv by (simp add: permits_belong_def select_tunnel_def)
qed

lemma reachable_permits_belong: "manager_reachable lib show_id s \<Longrightarrow> permits_belong s"
proof (induction rule: manager_reachable.induct)
  case (start configs router)
  then show ?case by (simp add: permits_belong_def manager_system_new_def)
next
  case (step s s')
  then show ?case using permits_belong_step reachable_permits by blast
qed

definition handlers_of :: "('net, 're) manager_system \<Rightarrow> match_out_id \<Rightarrow> nat set" where
  "handlers_of s out_id = {j. j < length (sys_handlers s) \<and> h_out_id (sys_handlers s ! j) = out_id}"

lemma finite_handlers_of [simp]: "finite (handlers_of s out_id)"
  by (simp add: handlers_of_def)

lemma sum_permits_of: "finite A \<Longrightarrow> (\<Sum>j \<in> A. permits_of j ps) = length (filter (\<lambda>p. snd p \<in> A) ps)"
proof (induction ps)
  case (Cons p ps)
  have "(\<Sum>j \<in> A. permits_of j (p # ps)) = (\<Sum>j \<in> A. if j = snd p then 1 else 0) + (\<Sum>j \<in> A. permits_of j ps)"
    by (simp add: sum.distrib eq_commute)
  then show ?case using Cons by simp
qed simp

definition active_of :: "('net, 're) manager_system \<Rightarrow> match_out_id \<Rightarrow> tunnel_id set" where
  "active_of s out_id =
     {i \<in> fst ` set (sys_permits s). \<exists>t. map_of (tunnel_map (sys_manager s)) i = Some t \<and> tun_out_id t = out_id}"

lemma card_active_of:
  assumes "permits_belong s" "permits_inv s"
  shows "card (active_of s out_id) \<le> length (filter (\<lambda>p. snd p \<in> handlers_of s out_id) (sys_permits s))"
proof -
  have "active_of s out_id \<subseteq> fst ` set (filter (\<lambda>p. snd p \<in> handlers_of s out_id) (sys_permits s))"
  proof
    fix i assume "i \<in> active_of s out_id"
    then obtain j t where p: "(i, j) \<in> set (sys_permits s)" "map_of (tunnel_map (sys_manager s)) i = Some t" "tun_out_id t = out_id"
      by (auto simp: active_of_def)
    have "j \<in> handlers_of s out_id"
      using assms p by (auto simp: permits_belong_def permits_inv_def handlers_of_def)
    then show "i \<in> fst ` set (filter (\<lambda>p. snd p \<in> handlers_of s out_id) (sys_permits s))" using p(1) by force
  qed
  then have "card (active_of s out_id) \<le> card (fst ` set (filter (\<lambda>p. snd p \<in> handlers_of s out_id) (sys_permits s)))"
    by (rule card_mono [rotated]) simp
  also have "\<dots> \<le> length (filter (\<lambda>p. snd p \<in> handlers_of s out_id) (sys_permits s))"
    by (metis card_length length_map set_map)
  finally show ?thesis .
qed

section \<open>Properties\<close>

text \<open>An example: one OUT with one connection has registered one tunnel.\<close>

definition example_system :: "(ip_addr, string) manager_system" where
  "example_system =
     \<lparr> sys_manager = example_manager\<lparr>select_index := 0\<rparr>,
       sys_router = \<lparr> in_rules = [],
         out_rules_map = [(MatchOutId 1,
           [FallbackRule \<lparr> fallback_labels = [Custom ''o''], fallback_tag = None \<rparr>], {TunnelId 7})],
         rules_groups_cache = [[FallbackRule \<lparr> fallback_labels = [Custom ''o''], fallback_tag = None \<rparr>]] \<rparr>,
       sys_handlers = [\<lparr> h_out_id = MatchOutId 1, h_connections = 1, h_available = 0,
         h_accepting = False, h_done = False \<rparr>],
       sys_permits = [(TunnelId 7, 0)] \<rparr>"

lemma example_system_reachable: "manager_reachable host_lib (\<lambda>_. ''o'') example_system"
proof -
  let ?show = "\<lambda>_ :: match_out_id. ''o''"
  let ?router = "\<lparr> in_rules = [], out_rules_map = [], rules_groups_cache = [[]] \<rparr> :: (ip_addr, string) router"
  let ?h = "\<lparr> h_out_id = MatchOutId 1, h_connections = 1, h_available = 1, h_accepting = False, h_done = False \<rparr>"
  let ?s0 = "manager_system_new ?router"
  let ?s1 = "?s0\<lparr>sys_handlers := [?h]\<rparr>"
  let ?s2 = "?s0\<lparr>sys_handlers := [?h\<lparr>h_available := 0, h_accepting := True\<rparr>]\<rparr>"
  have "manager_reachable host_lib ?show ?s0"
    by (rule manager_reachable.start [of _ "[]"]) (simp add: router_new_def)
  moreover have "manager_step host_lib ?show ?s0 ?s1"
    using manager_step.accept_out [of host_lib ?show ?s0 "MatchOutId 1" 1]
    by (simp add: manager_system_new_def handle_out_start_def)
  moreover have "manager_step host_lib ?show ?s1 ?s2"
    using manager_step.acquire [of 0 ?s1 "?h\<lparr>h_available := 0, h_accepting := True\<rparr>" host_lib ?show]
    by (simp add: manager_system_new_def acquire_permit_def)
  moreover have "manager_step host_lib ?show ?s2 example_system"
  proof -
    have reg: "register_tunnel host_lib ?show (\<lambda>xs. xs) (MatchOutId 1) (TunnelId 7)
        [OutFallback \<lparr> ofall_tag = None \<rparr>] 0 ?router = Some (sys_router example_system)"
      by (simp add: router_ops example_system_def all_rules_def insert_tunnel_def groups_by_def)
    show ?thesis
      using manager_step.accepted [of 0 ?s2 example_tunnel "\<lambda>xs. xs" "\<lambda>xs. xs" host_lib ?show
          "[OutFallback \<lparr> ofall_tag = None \<rparr>]" 0 "sys_router example_system"] reg
      by (simp add: manager_system_new_def example_system_def example_manager_def example_tunnel_def
          tunnel_manager_new_def hash_order_id accept_tunnel_def update_label_to_tunnels_map_def
          tunnel_labels_def push_label_def)
  qed
  ultimately show ?thesis by (blast intro: manager_reachable.step)
qed

text \<open>C16: In every reachable state the permits of an OUT are accounted for, over all its handlers (one for
  each protocol, and a new one each time the OUT is accepted again): those in their semaphores, those
  held while accepting and those of tunnels add up to the connections that the handlers were started
  with; every active open tunnel of the OUT holds one of them, so the OUT never has more active tunnels
  than its handlers have connections. For an OUT that was accepted once this is its announced number.\<close>

theorem active_tunnels_bounded:
  assumes "manager_reachable lib show_id s"
  shows "(\<Sum>j \<in> handlers_of s out_id. h_available (sys_handlers s ! j)) +
      card {j \<in> handlers_of s out_id. h_accepting (sys_handlers s ! j)} +
      length (filter (\<lambda>p. snd p \<in> handlers_of s out_id) (sys_permits s)) =
      (\<Sum>j \<in> handlers_of s out_id. h_connections (sys_handlers s ! j)) \<and>
    card {i \<in> fst ` set (sys_permits s). \<exists>t. map_of (tunnel_map (sys_manager s)) i = Some t \<and> tun_out_id t = out_id} \<le>
      length (filter (\<lambda>p. snd p \<in> handlers_of s out_id) (sys_permits s)) \<and>
    card {i \<in> fst ` set (sys_permits s). \<exists>t. map_of (tunnel_map (sys_manager s)) i = Some t \<and> tun_out_id t = out_id} \<le>
      (\<Sum>j \<in> handlers_of s out_id. h_connections (sys_handlers s ! j))"
proof -
  note permits = reachable_permits [OF assms]
  have "(\<Sum>j \<in> handlers_of s out_id. h_connections (sys_handlers s ! j)) =
      (\<Sum>j \<in> handlers_of s out_id. h_available (sys_handlers s ! j) + of_bool (h_accepting (sys_handlers s ! j)) +
        permits_of j (sys_permits s))"
    using permits by (intro sum.cong) (auto simp: handlers_of_def permits_inv_def handler_balanced_def)
  also have "\<dots> = (\<Sum>j \<in> handlers_of s out_id. h_available (sys_handlers s ! j)) +
      card {j \<in> handlers_of s out_id. h_accepting (sys_handlers s ! j)} +
      length (filter (\<lambda>p. snd p \<in> handlers_of s out_id) (sys_permits s))"
    by (simp add: sum.distrib sum_permits_of of_bool_def sum.If_cases Int_def)
  finally show ?thesis
    using card_active_of [OF reachable_permits_belong [OF assms] permits, of out_id] by (simp add: active_of_def)
qed

theorem active_tunnels_bounded_witness:
  "card {i \<in> fst ` set (sys_permits example_system).
       \<exists>t. map_of (tunnel_map (sys_manager example_system)) i = Some t \<and> tun_out_id t = MatchOutId 1} \<le> 1 \<and>
   TunnelId 7 \<in> {i \<in> fst ` set (sys_permits example_system).
       \<exists>t. map_of (tunnel_map (sys_manager example_system)) i = Some t \<and> tun_out_id t = MatchOutId 1}"
proof
  have "handlers_of example_system (MatchOutId 1) = {0}" by (auto simp: handlers_of_def example_system_def)
  then show "card {i \<in> fst ` set (sys_permits example_system).
       \<exists>t. map_of (tunnel_map (sys_manager example_system)) i = Some t \<and> tun_out_id t = MatchOutId 1} \<le> 1"
    using active_tunnels_bounded [OF example_system_reachable, of "MatchOutId 1"]
    by (simp add: example_system_def)
  show "TunnelId 7 \<in> {i \<in> fst ` set (sys_permits example_system).
       \<exists>t. map_of (tunnel_map (sys_manager example_system)) i = Some t \<and> tun_out_id t = MatchOutId 1}"
    by (simp add: example_system_def example_manager_def example_tunnel_def)
qed

text \<open>C13: In every reachable state the router and the manager agree: for every OUT the tunnels the
  router counts are exactly the open tunnels of that OUT, and the label map lists for every label
  exactly the open tunnels that carry it.\<close>

theorem router_manager_agree:
  assumes "manager_reachable lib show_id s"
  shows "out_tunnels (sys_router s) out_id =
      {i. \<exists>t. map_of (tunnel_map (sys_manager s)) i = Some t \<and> tun_out_id t = out_id} \<and>
    set (entries (label_to_tunnels_map (sys_manager s)) l) = carriers show_id (tunnel_map (sys_manager s)) l"
  using reachable_maps [OF assms] set_entries_manager
  by (auto simp: maps_inv_def tunnels_of_def simp del: set_concat)

theorem router_manager_agree_witness:
  "out_tunnels (sys_router example_system) (MatchOutId 1) =
      {i. \<exists>t. map_of (tunnel_map (sys_manager example_system)) i = Some t \<and> tun_out_id t = MatchOutId 1} \<and>
    set (entries (label_to_tunnels_map (sys_manager example_system)) (Custom ''us'')) =
      carriers (\<lambda>_. ''o'') (tunnel_map (sys_manager example_system)) (Custom ''us'')"
  by (rule router_manager_agree [OF example_system_reachable])

text \<open>C12: In every reachable state, every rule that a query can meet is a rule of the IN
  configuration or the rule of an OUT that has an open tunnel, and that tunnel is found in the label
  map under the rule's label: no answer refers to an OUT that is gone.\<close>

theorem rules_have_tunnels:
  assumes "manager_reachable lib show_id s"
    and "r \<in> set (concat (rules_groups_cache (sys_router s)))"
  shows "r \<in> set (in_rules (sys_router s)) \<or>
    (\<exists>out_id. rule_labels r = [Custom (show_id out_id)] \<and>
       entries (label_to_tunnels_map (sys_manager s)) (Custom (show_id out_id)) \<noteq> [])"
proof -
  let ?tunnels = "tunnel_map (sys_manager s)"
  have inv: "maps_inv show_id s" using assms(1) by (rule reachable_maps)
  then obtain ord where ord: "hash_order ord" "label_map_of show_id ord (sys_manager s)"
    by (auto simp: maps_inv_def)
  show ?thesis
  proof (cases "r \<in> set (in_rules (sys_router s))")
    case False
    then obtain out_id rules where rules: "out_rules (sys_router s) out_id = Some rules" "r \<in> set rules"
      using inv assms(2) by (auto simp: maps_inv_def ran_def simp del: set_concat)
    then have "rule_labels r = [Custom (show_id out_id)]" using inv by (simp add: maps_inv_def)
    moreover obtain i t where t: "map_of ?tunnels i = Some t" "tun_out_id t = out_id"
      using maps_inv_tunnel [OF inv rules(1)] by blast
    moreover have "t \<in> carriers show_id ?tunnels (Custom (show_id out_id))"
      using t by (force simp: carriers_def tunnel_labels_def dest: map_of_SomeD)
    ultimately show ?thesis
      using set_entries_manager [OF ord, of "Custom (show_id out_id)"] by force
  qed simp
qed

theorem rules_have_tunnels_witness:
  "FallbackRule \<lparr> fallback_labels = [Custom ''o''], fallback_tag = None \<rparr> \<in> set (in_rules (sys_router example_system)) \<or>
    (\<exists>out_id. rule_labels (FallbackRule \<lparr> fallback_labels = [Custom ''o''], fallback_tag = None \<rparr> ::
        (ip_addr, string) rule) = [Custom ((\<lambda>_ :: match_out_id. ''o'') out_id)] \<and>
       entries (label_to_tunnels_map (sys_manager example_system)) (Custom ((\<lambda>_. ''o'') out_id)) \<noteq> [])"
  by (rule rules_have_tunnels [OF example_system_reachable]) (simp add: example_system_def)

end
