(* ===== verification/Bytes.thy ===== *)
theory Bytes
  imports Net
begin

text \<open>
  Octet strings: the UTF-8 check of \<open>String::from_utf8\<close>, readers over a byte stream with the
  errors of \<open>AsyncReadExt\<close>, and the contract of a self-delimiting encoding.
\<close>

section \<open>Text\<close>

definition bytes_of :: "string \<Rightarrow> u8 list" where
  "bytes_of s = map (\<lambda>c. of_nat (of_char c)) s"

definition text_of :: "u8 list \<Rightarrow> string" where
  "text_of bs = map (\<lambda>b. char_of (unat b)) bs"

lemma unat_char [simp]: "unat (of_nat (of_char c) :: u8) = of_char c"
  by (simp add: unat_of_nat of_char_mod_256)

lemma text_of_bytes_of [simp]: "text_of (bytes_of s) = s"
  by (simp add: text_of_def bytes_of_def comp_def)

lemma bytes_of_text_of [simp]: "bytes_of (text_of bs) = bs"
proof -
  have "of_nat (of_char (char_of (unat b) :: char)) = b" for b :: u8
  proof -
    have "unat b < 256" using unsigned_less [of b, where ?'a = nat] by simp
    then show ?thesis by simp
  qed
  then show ?thesis by (simp add: bytes_of_def text_of_def comp_def)
qed

lemma length_bytes_of [simp]: "length (bytes_of s) = length s"
  by (simp add: bytes_of_def)

lemma bytes_of_Nil [simp]: "bytes_of s = [] \<longleftrightarrow> s = []" "text_of bs = [] \<longleftrightarrow> bs = []"
  by (simp_all add: bytes_of_def text_of_def)

lemma length_text_of [simp]: "length (text_of bs) = length bs"
  by (simp add: text_of_def)

lemma be_bytes_2: "be_bytes 2 w = [ucast (drop_bit 8 w), ucast w]"
  by (simp add: numeral_2_eq_2)

lemma be_bytes_4:
  "be_bytes 4 w = [ucast (drop_bit 24 w), ucast (drop_bit 16 w), ucast (drop_bit 8 w), ucast w]"
  using be_bytes.simps(2) [of 3 w] be_bytes.simps(2) [of 2 w] by (simp add: be_bytes_2)

text \<open>Well-formed UTF-8, by the ranges of the second octet for each first octet.\<close>

definition utf8_tail :: "u8 \<Rightarrow> bool" where
  "utf8_tail b \<longleftrightarrow> 0x80 \<le> b \<and> b \<le> 0xBF"

definition utf8_second :: "u8 \<Rightarrow> u8 \<Rightarrow> bool" where
  "utf8_second a b \<longleftrightarrow>
     (if a = 0xE0 then 0xA0 \<le> b \<and> b \<le> 0xBF
      else if a = 0xED then 0x80 \<le> b \<and> b \<le> 0x9F
      else if a = 0xF0 then 0x90 \<le> b \<and> b \<le> 0xBF
      else if a = 0xF4 then 0x80 \<le> b \<and> b \<le> 0x8F
      else utf8_tail b)"

definition utf8_width :: "u8 \<Rightarrow> nat" where
  "utf8_width a =
     (if a < 0x80 then 1
      else if 0xC2 \<le> a \<and> a \<le> 0xDF then 2
      else if 0xE0 \<le> a \<and> a \<le> 0xEF then 3
      else if 0xF0 \<le> a \<and> a \<le> 0xF4 then 4
      else 0)"

function utf8_valid :: "u8 list \<Rightarrow> bool" where
  "utf8_valid [] = True"
| "utf8_valid (a # bs) =
     (let w = utf8_width a in
      if w = 0 \<or> length bs < w - 1 then False
      else if w = 1 then utf8_valid bs
      else utf8_second a (hd bs) \<and> list_all utf8_tail (take (w - 2) (tl bs)) \<and> utf8_valid (drop (w - 1) bs))"
  by pat_completeness auto
termination by (relation "measure length") auto

text \<open>A Rust \<open>String\<close> always holds well-formed UTF-8.\<close>

definition rust_string :: "string \<Rightarrow> bool" where
  "rust_string s \<longleftrightarrow> utf8_valid (bytes_of s)"

lemma utf8_valid_ascii: "\<forall>b \<in> set bs. b < 0x80 \<Longrightarrow> utf8_valid bs"
  by (induction bs) (simp_all add: utf8_width_def)

definition from_utf8 :: "u8 list \<Rightarrow> string result" where
  "from_utf8 bs = (if utf8_valid bs then Inr (text_of bs) else Inl FromUtf8Error)"

lemma from_utf8_bytes_of [simp]: "rust_string s \<Longrightarrow> from_utf8 (bytes_of s) = Inr s"
  by (simp add: from_utf8_def rust_string_def)

section \<open>Readers\<close>

text \<open>A reader takes the octets that the stream still yields before its end.\<close>

type_synonym 'a reader = "u8 list \<Rightarrow> ('a \<times> u8 list) result"

definition r_return :: "'a \<Rightarrow> 'a reader" where
  "r_return x s = Inr (x, s)"

definition r_bind :: "'a reader \<Rightarrow> ('a \<Rightarrow> 'b reader) \<Rightarrow> 'b reader" where
  "r_bind m f s = (case m s of Inl e \<Rightarrow> Inl e | Inr (x, s') \<Rightarrow> f x s')"

definition r_lift :: "'a result \<Rightarrow> 'a reader" where
  "r_lift r s = (case r of Inl e \<Rightarrow> Inl e | Inr x \<Rightarrow> Inr (x, s))"

definition read_exact :: "nat \<Rightarrow> u8 list reader" where
  "read_exact n s = (if length s < n then Inl UnexpectedEof else Inr (take n s, drop n s))"

definition read_uint :: "nat \<Rightarrow> 'a::len word reader" where
  "read_uint n = r_bind (read_exact n) (\<lambda>bs. r_return (from_be bs))"

definition read_u8 :: "u8 reader" where "read_u8 = read_uint 1"
definition read_u16 :: "u16 reader" where "read_u16 = read_uint 2"
definition read_u32 :: "u32 reader" where "read_u32 = read_uint 4"
definition read_u128 :: "u128 reader" where "read_u128 = read_uint 16"

lemma r_bind_Inr [simp]: "m s = Inr (x, s') \<Longrightarrow> r_bind m f s = f x s'"
  by (simp add: r_bind_def)

lemma r_bind_Inl [simp]: "m s = Inl e \<Longrightarrow> r_bind m f s = Inl e"
  by (simp add: r_bind_def)

lemma r_return_simp [simp]: "r_return x s = Inr (x, s)"
  by (simp add: r_return_def)

lemma r_lift_simps [simp]: "r_lift (Inl e) s = Inl e" "r_lift (Inr x) s = Inr (x, s)"
  by (simp_all add: r_lift_def)

lemma r_bind_assoc: "r_bind (r_bind m f) g = r_bind m (\<lambda>x. r_bind (f x) g)"
  by (rule ext) (simp add: r_bind_def split: sum.splits prod.splits)

lemma read_exact_append [simp]: "n = length bs \<Longrightarrow> read_exact n (bs @ rest) = Inr (bs, rest)"
  by (simp add: read_exact_def)

lemma read_uint_append [simp]:
  "LENGTH('a) \<le> 8 * n \<Longrightarrow> read_uint n (be_bytes n w @ rest) = Inr (w :: 'a::len word, rest)"
  by (simp add: read_uint_def from_be_bytes)

lemma read_u8_Cons [simp]: "read_u8 (b # rest) = Inr (b, rest)"
  by (simp add: read_u8_def read_uint_def read_exact_def from_be_def from_be_step_def)

lemma read_u16_append [simp]: "read_u16 (be_bytes 2 w @ rest) = Inr (w, rest)"
  by (simp add: read_u16_def)

lemma read_u32_append [simp]: "read_u32 (be_bytes 4 w @ rest) = Inr (w, rest)"
  by (simp add: read_u32_def)

lemma read_u128_append [simp]: "read_u128 (be_bytes 16 w @ rest) = Inr (w, rest)"
  by (simp add: read_u128_def)

text \<open>
  A reader is tight when it only looks at what it consumes: adding octets behind leaves its answer,
  and cutting the stream inside what it needs is \<^const>\<open>UnexpectedEof\<close>.
\<close>

definition tight :: "'a reader \<Rightarrow> bool" where
  "tight m \<longleftrightarrow>
     (\<forall>s x s'. m s = Inr (x, s') \<longrightarrow>
        (\<exists>u. s = u @ s' \<and> (\<forall>rest. m (u @ rest) = Inr (x, rest)) \<and>
           (\<forall>k < length u. m (take k u) = Inl UnexpectedEof)))"

lemma tightI:
  assumes "\<And>s x s'. m s = Inr (x, s') \<Longrightarrow>
    \<exists>u. s = u @ s' \<and> (\<forall>rest. m (u @ rest) = Inr (x, rest)) \<and> (\<forall>k < length u. m (take k u) = Inl UnexpectedEof)"
  shows "tight m"
  using assms by (simp add: tight_def)

lemma tightD:
  assumes "tight m" "m s = Inr (x, s')"
  obtains u where "s = u @ s'" "\<And>rest. m (u @ rest) = Inr (x, rest)"
    "\<And>k. k < length u \<Longrightarrow> m (take k u) = Inl UnexpectedEof"
  using assms unfolding tight_def by blast

lemma tight_return [intro]: "tight (r_return x)"
  by (rule tightI) auto

lemma tight_lift [intro]: "tight (r_lift r)"
  by (rule tightI) (cases r; auto)

lemma tight_read_exact [intro]: "tight (read_exact n)"
proof (rule tightI)
  fix s x s' assume "read_exact n s = Inr (x, s')"
  then have "n \<le> length s" "x = take n s" "s' = drop n s"
    by (auto simp: read_exact_def split: if_splits)
  then show "\<exists>u. s = u @ s' \<and> (\<forall>rest. read_exact n (u @ rest) = Inr (x, rest)) \<and>
      (\<forall>k < length u. read_exact n (take k u) = Inl UnexpectedEof)"
    by (intro exI [of _ "take n s"]) (auto simp: read_exact_def)
qed

lemma tight_bind [intro]:
  assumes m: "tight m" and f: "\<And>x. tight (f x)"
  shows "tight (r_bind m f)"
proof (rule tightI)
  fix s y s'' assume "r_bind m f s = Inr (y, s'')"
  then obtain x s' where x: "m s = Inr (x, s')" and y: "f x s' = Inr (y, s'')"
    by (auto simp: r_bind_def split: sum.splits)
  obtain u where u: "s = u @ s'" "\<And>rest. m (u @ rest) = Inr (x, rest)"
    "\<And>k. k < length u \<Longrightarrow> m (take k u) = Inl UnexpectedEof"
    using tightD [OF m x] by metis
  obtain v where v: "s' = v @ s''" "\<And>rest. f x (v @ rest) = Inr (y, rest)"
    "\<And>k. k < length v \<Longrightarrow> f x (take k v) = Inl UnexpectedEof"
    using tightD [OF f y] by metis
  have "r_bind m f (take k (u @ v)) = Inl UnexpectedEof" if "k < length (u @ v)" for k
  proof (cases "k < length u")
    case True
    then show ?thesis using u(3) by simp
  next
    case False
    then have "m (take k (u @ v)) = Inr (x, take (k - length u) v)"
      using u(2) by simp
    then show ?thesis using v(3) [of "k - length u"] that False by simp
  qed
  then show "\<exists>w. s = w @ s'' \<and> (\<forall>rest. r_bind m f (w @ rest) = Inr (y, rest)) \<and>
      (\<forall>k < length w. r_bind m f (take k w) = Inl UnexpectedEof)"
    using u v by (intro exI [of _ "u @ v"]) simp
qed

lemma tight_read_uint [intro]: "tight (read_uint n)"
  unfolding read_uint_def by (intro tight_bind tight_read_exact tight_return)

section \<open>Self-delimiting encodings\<close>

text \<open>
  The contract of an encoding that is followed by other data on the same stream: decoding takes
  exactly the encoding off, yields the value up to what the encoding forgets, and only looks at
  what it takes.
\<close>

locale stream_codec =
  fixes encode :: "'a \<Rightarrow> u8 list result" and decode :: "'a reader" and canon :: "'a \<Rightarrow> 'a"
    and valid :: "'a \<Rightarrow> bool"
  assumes decode_encode: "valid x \<Longrightarrow> encode x = Inr bs \<Longrightarrow> decode (bs @ rest) = Inr (canon x, rest)"
    and decode_tight: "tight decode"
begin

lemma decode_truncated:
  assumes "valid x" "encode x = Inr bs" "k < length bs"
  shows "decode (take k bs) = Inl UnexpectedEof"
proof -
  have "decode bs = Inr (canon x, [])" using decode_encode [OF assms(1,2), of "[]"] by simp
  then obtain u where "bs = u @ []" "\<And>k. k < length u \<Longrightarrow> decode (take k u) = Inl UnexpectedEof"
    using tightD [OF decode_tight] by metis
  then show ?thesis using assms(3) by simp
qed

text \<open>No encoding is a proper prefix of another, and equal encodings mean equal values.\<close>

lemma encode_prefix_free:
  assumes "valid x" "valid y" "encode x = Inr bs" "encode y = Inr (bs @ cs)"
  shows "cs = [] \<and> canon x = canon y"
  using decode_encode [OF assms(1,3), of cs] decode_encode [OF assms(2,4), of "[]"] by simp

lemma encode_inj:
  "valid x \<Longrightarrow> valid y \<Longrightarrow> encode x = Inr bs \<Longrightarrow> encode y = Inr bs \<Longrightarrow> canon x = canon y"
  using encode_prefix_free [of x y bs "[]"] by simp

end

end
