(* ===== verification/Byte_Stream.thy ===== *)
theory Byte_Stream
  imports Tunnel Bytes
begin

text \<open>
  The tunnel over a transport of byte streams (\<open>src/lib/tunnel/byte_stream_tunnel.rs\<close>, used over
  QUIC): the head that the IN end writes in front of a stream and the OUT end reads, and the IN
  end's permit. The transport is a parameter: what opening a stream and each write answer, and the
  octets that a stream yields before it ends.
\<close>

section \<open>Writing the head\<close>

text \<open>\<open>s.len().try_into::<u8>()?\<close>, then the length and the text.\<close>

definition encode_text :: "string option \<Rightarrow> u8 list result" where
  "encode_text t =
     (let s = (case t of None \<Rightarrow> [] | Some s \<Rightarrow> s) in
      if length s < 256 then Inr (of_nat (length s) # bytes_of s) else Inl TryFromIntError)"

fun encode_address :: "socket_addr \<Rightarrow> u8 list" where
  "encode_address (SockV4 ip port) = 0x00 # be_bytes 4 ip @ be_bytes 2 port"
| "encode_address (SockV6 ip port _ _) = 0x80 # be_bytes 16 ip @ be_bytes 2 port"

type_synonym destination = "socket_addr \<times> string option \<times> string option"

definition encode_head :: "destination \<Rightarrow> u8 list result" where
  "encode_head d =
     (case d of (destination_address, destination_name, tag) \<Rightarrow>
        (case encode_text destination_name of
           Inl e \<Rightarrow> Inl e
         | Inr name_bytes \<Rightarrow>
             (case encode_text tag of
                Inl e \<Rightarrow> Inl e
              | Inr tag_bytes \<Rightarrow> Inr (encode_address destination_address @ name_bytes @ tag_bytes))))"

text \<open>
  \<open>connect\<close>: what the writes put on the stream, \<^const>\<open>None\<close> if no stream was opened, and the
  answer. \<open>opened\<close> is what \<open>open\<close> answers; \<open>write\<close> is what \<open>write_all\<close> answers for the octets
  it is given, after which it has put them all on the stream if it succeeded and some
  prefix, of length \<open>partial\<close>, if not.
\<close>

definition write_all ::
  "(u8 list \<Rightarrow> unit result) \<Rightarrow> (u8 list \<Rightarrow> nat) \<Rightarrow> u8 list \<Rightarrow> u8 list \<times> unit result" where
  "write_all write partial bs =
     (case write bs of Inr _ \<Rightarrow> (bs, Inr ()) | Inl e \<Rightarrow> (take (partial bs) bs, Inl e))"

definition bs_connect ::
  "unit result \<Rightarrow> (u8 list \<Rightarrow> unit result) \<Rightarrow> (u8 list \<Rightarrow> nat) \<Rightarrow> destination \<Rightarrow> u8 list option \<Rightarrow>
   u8 list option \<times> unit result" where
  "bs_connect opened write partial destination sniff_buffer =
     (case opened of
        Inl e \<Rightarrow> (None, Inl e)
      | Inr _ \<Rightarrow>
          (case encode_head destination of
             Inl e \<Rightarrow> (Some [], Inl e)
           | Inr head \<Rightarrow>
               (case write_all write partial head of
                  (written, Inl e) \<Rightarrow> (Some written, Inl e)
                | (written, Inr _) \<Rightarrow>
                    (case sniff_buffer of
                       None \<Rightarrow> (Some written, Inr ())
                     | Some buffer \<Rightarrow>
                         (case write_all write partial buffer of
                            (sniffed, r) \<Rightarrow> (Some (written @ sniffed), r))))))"

section \<open>Reading the head\<close>

definition read_address :: "socket_addr reader" where
  "read_address =
     r_bind read_u8 (\<lambda>option_byte.
       if option_byte AND 0x80 = 0
       then r_bind read_u32 (\<lambda>ip. r_bind read_u16 (\<lambda>port. r_return (SockV4 ip port)))
       else r_bind read_u128 (\<lambda>ip. r_bind read_u16 (\<lambda>port. r_return (SockV6 ip port 0 0))))"

definition read_text :: "string option reader" where
  "read_text =
     r_bind read_u8 (\<lambda>len.
       if len = 0 then r_return None
       else r_bind (read_exact (unat len)) (\<lambda>buffer.
              r_bind (r_lift (from_utf8 buffer)) (\<lambda>s. r_return (Some s))))"

definition bs_accept :: "destination reader" where
  "bs_accept =
     r_bind read_address (\<lambda>destination_address.
       r_bind read_text (\<lambda>destination_name.
         r_bind read_text (\<lambda>tag.
           r_return (destination_address, destination_name, tag))))"

section \<open>The IN tunnel\<close>

record byte_stream_in_tunnel =
  bs_tunnel :: in_tunnel
  bs_connection_closed :: bool
  bs_active_permit :: bool
  bs_watching :: bool

definition byte_stream_in_tunnel_new ::
  "string \<Rightarrow> tunnel_id \<Rightarrow> match_out_id \<Rightarrow> label list \<Rightarrow> i64 \<Rightarrow> byte_stream_in_tunnel" where
  "byte_stream_in_tunnel_new ty i out_id labels priority =
     \<lparr> bs_tunnel = \<lparr> tun_type = ty, tun_id = i, tun_out_id = out_id, tun_labels = labels,
         tun_priority = priority \<rparr>,
       bs_connection_closed = False, bs_active_permit = False, bs_watching = True \<rparr>"

definition bs_set_active_permit :: "byte_stream_in_tunnel \<Rightarrow> byte_stream_in_tunnel" where
  "bs_set_active_permit t = t\<lparr>bs_active_permit := True\<rparr>"

definition bs_is_active :: "byte_stream_in_tunnel \<Rightarrow> bool" where
  "bs_is_active t \<longleftrightarrow> bs_active_permit t"

definition bs_is_closed :: "byte_stream_in_tunnel \<Rightarrow> bool" where
  "bs_is_closed t \<longleftrightarrow> bs_connection_closed t"

text \<open>The task spawned by \<open>new\<close> waits for the connection to close and takes the permit.\<close>

definition bs_watch :: "byte_stream_in_tunnel \<Rightarrow> byte_stream_in_tunnel option" where
  "bs_watch t =
     (if bs_watching t \<and> bs_connection_closed t
      then Some (t\<lparr>bs_active_permit := False, bs_watching := False\<rparr>) else None)"

inductive bs_step :: "byte_stream_in_tunnel \<Rightarrow> byte_stream_in_tunnel \<Rightarrow> bool" where
  connection_closed: "bs_step t (t\<lparr>bs_connection_closed := True\<rparr>)"
| watched: "bs_watch t = Some t' \<Longrightarrow> bs_step t t'"

inductive_simps bs_step_simps: "bs_step t t'"

interpretation bs_in: in_tunnel_trait bs_set_active_permit bs_is_active bs_is_closed bs_step "\<lambda>_. True"
  by unfold_locales
    (auto simp: bs_set_active_permit_def bs_is_active_def bs_is_closed_def bs_step_simps bs_watch_def
      split: if_splits)

section \<open>The head is a self-delimiting encoding\<close>

text \<open>Reading yields the address without flow info and scope, and absence for empty texts.\<close>

definition canon_text :: "string option \<Rightarrow> string option" where
  "canon_text t = (if t = Some [] then None else t)"

definition canon_destination :: "destination \<Rightarrow> destination" where
  "canon_destination d = (case d of (a, name, tag) \<Rightarrow> (sa_normal a, canon_text name, canon_text tag))"

definition valid_text :: "string option \<Rightarrow> bool" where
  "valid_text t \<longleftrightarrow> pred_option rust_string t"

definition valid_destination :: "destination \<Rightarrow> bool" where
  "valid_destination d = (case d of (a, name, tag) \<Rightarrow> valid_text name \<and> valid_text tag)"

lemma read_address_encode [simp]: "read_address (encode_address a @ rest) = Inr (sa_normal a, rest)"
  by (cases a) (simp_all add: read_address_def)

lemma of_nat_length_u8:
  "n < 256 \<Longrightarrow> unat (of_nat n :: u8) = n"
  by (simp add: unat_of_nat)

lemma of_nat_length_u8_eq_0: "n < 256 \<Longrightarrow> (of_nat n :: u8) = 0 \<longleftrightarrow> n = 0"
  by (cases "n = 0") (auto simp: word_of_nat_eq_0_iff dest: dvd_imp_le)

lemma read_text_encode:
  assumes "encode_text t = Inr bs" "valid_text t"
  shows "read_text (bs @ rest) = Inr (canon_text t, rest)"
proof -
  let ?s = "case t of None \<Rightarrow> [] | Some s \<Rightarrow> s"
  have len: "length ?s < 256" and bs: "bs = of_nat (length ?s) # bytes_of ?s"
    using assms(1) by (auto simp: encode_text_def Let_def split: if_splits)
  show ?thesis
  proof (cases "?s = []")
    case True
    then show ?thesis
      using bs by (auto simp: read_text_def canon_text_def split: option.splits)
  next
    case False
    then obtain s where s: "t = Some s" "s \<noteq> []" by (cases t) auto
    then show ?thesis
      using bs len assms(2)
      by (simp add: read_text_def canon_text_def of_nat_length_u8 of_nat_length_u8_eq_0 valid_text_def)
  qed
qed

lemma bs_accept_encode:
  assumes "encode_head d = Inr bs" "valid_destination d"
  shows "bs_accept (bs @ rest) = Inr (canon_destination d, rest)"
  using assms
  by (cases d)
    (auto simp: encode_head_def bs_accept_def canon_destination_def valid_destination_def
      read_text_encode split: sum.splits)

lemma tight_if [intro]: "tight m \<Longrightarrow> tight m' \<Longrightarrow> tight (if b then m else m')"
  by simp

lemma tight_bs_accept: "tight bs_accept"
  unfolding bs_accept_def read_address_def read_text_def read_u8_def read_u16_def read_u32_def read_u128_def
  by (intro tight_bind tight_read_uint tight_return tight_if tight_read_exact tight_lift)

interpretation head: stream_codec encode_head bs_accept canon_destination valid_destination
  by unfold_locales (simp_all add: bs_accept_encode tight_bs_accept)

text \<open>When the head can be written.\<close>

lemma encode_head_Inr_iff:
  "(\<exists>bs. encode_head (a, name, tag) = Inr bs) \<longleftrightarrow>
     (\<forall>s \<in> set_option name \<union> set_option tag. length s < 256)"
  by (cases name; cases tag) (auto simp: encode_head_def encode_text_def)

section \<open>Properties\<close>

text \<open>C20: What the OUT end reads from a stream that the IN end has connected is the destination it
  was given (an IPv6 address without flow info and scope id, an empty name or tag as none), and the
  stream then yields exactly the sniffed bytes: head and payload cannot be confused.\<close>

theorem connect_accept_roundtrip:
  assumes "valid_destination d"
    and "bs_connect opened write partial d sniff = (Some written, Inr ())"
  shows "bs_accept written =
    Inr (canon_destination d, case sniff of None \<Rightarrow> [] | Some buffer \<Rightarrow> buffer)"
proof -
  obtain head where head: "encode_head d = Inr head"
    and "written = head @ (case sniff of None \<Rightarrow> [] | Some buffer \<Rightarrow> buffer)"
    using assms(2)
    by (auto simp: bs_connect_def write_all_def split: sum.splits option.splits unit.splits)
  then show ?thesis using head.decode_encode [OF assms(1) head] by simp
qed

lemma example_head:
  "encode_head (SockV4 0x01020304 443, Some ''a'', None) = Inr [0, 1, 2, 3, 4, 1, 0xBB, 1, 97, 0]"
  by (simp add: encode_head_def encode_text_def be_bytes_2 be_bytes_4 bytes_of_def)

lemma example_valid: "valid_destination (SockV4 0x01020304 443, Some ''a'', None)"
  by (simp add: valid_destination_def valid_text_def rust_string_def bytes_of_def utf8_width_def)

theorem connect_accept_roundtrip_witness:
  "bs_accept ([0, 1, 2, 3, 4, 1, 0xBB, 1, 97, 0] @ [22, 3]) =
     Inr (canon_destination (SockV4 0x01020304 443, Some ''a'', None),
       case Some [22, 3] of None \<Rightarrow> [] | Some buffer \<Rightarrow> buffer)"
  by (rule connect_accept_roundtrip [OF example_valid, of "Inr ()" "\<lambda>_. Inr ()" length "Some [22, 3]"])
    (simp add: bs_connect_def example_head write_all_def)

text \<open>A stream that ends anywhere inside the head is reported as an unexpected end, never as a
  destination.\<close>

theorem truncated_head_is_error:
  assumes "valid_destination d" and "encode_head d = Inr bs" and "k < length bs"
  shows "bs_accept (take k bs) = Inl UnexpectedEof"
  using assms by (rule head.decode_truncated)

theorem truncated_head_is_error_witness:
  "bs_accept (take 5 [0, 1, 2, 3, 4, 1, 0xBB, 1, 97, 0]) = Inl UnexpectedEof"
  by (rule truncated_head_is_error [OF example_valid example_head]) simp

text \<open>A name or a tag longer than 255 bytes, and nothing else in the destination, makes every
  connect fail; it fails before anything is written but after the stream was opened.\<close>

theorem connect_rejects_long_texts:
  "(\<exists>s \<in> set_option name \<union> set_option tag. 255 < length s) \<longleftrightarrow>
     (\<forall>write partial. bs_connect (Inr ()) write partial (a, name, tag) sniff = (Some [], Inl TryFromIntError))"
proof
  assume "\<exists>s \<in> set_option name \<union> set_option tag. 255 < length s"
  then have "encode_head (a, name, tag) = Inl TryFromIntError"
    by (cases name; cases tag) (auto simp: encode_head_def encode_text_def)
  then show "\<forall>write partial. bs_connect (Inr ()) write partial (a, name, tag) sniff = (Some [], Inl TryFromIntError)"
    by (simp add: bs_connect_def)
next
  assume "\<forall>write partial. bs_connect (Inr ()) write partial (a, name, tag) sniff = (Some [], Inl TryFromIntError)"
  then have "bs_connect (Inr ()) (\<lambda>_. Inr ()) length (a, name, tag) sniff = (Some [], Inl TryFromIntError)"
    by blast
  then have "\<not> (\<exists>bs. encode_head (a, name, tag) = Inr bs)"
    by (auto simp: bs_connect_def write_all_def split: option.splits)
  then show "\<exists>s \<in> set_option name \<union> set_option tag. 255 < length s"
    unfolding encode_head_Inr_iff by force
qed

end
