(* ===== verification/Compat.thy ===== *)
theory Compat
  imports Prelude
begin

text \<open>
  The adapters between HTTP/2 streams and byte streams (\<open>src/lib/tunnel/http2/compat.rs\<close>). What
  the \<open>h2\<close> library answers when it is polled is the environment of a poll: the response future,
  the next DATA frame, the capacity of the send window.
\<close>

datatype 'a poll = Pending | Ready 'a

section \<open>Reading\<close>

text \<open>\<open>recv_awaiting\<close>: the inner stream is still the response future.\<close>

record recv_async_read =
  recv_awaiting :: bool
  recv_pending :: "u8 list"

definition recv_async_read_new :: "bool \<Rightarrow> recv_async_read" where
  "recv_async_read_new is_response = \<lparr> recv_awaiting = is_response, recv_pending = [] \<rparr>"

record recv_env =
  env_response :: "unit result poll"
  env_data :: "u8 list result option poll"
  env_release :: "unit result"

text \<open>
  \<open>poll_read\<close> with \<open>remaining\<close> bytes of room: the answer, the bytes put into the buffer and the
  new state. The loop of the code runs twice at most, once for the response.
\<close>

definition poll_data_step ::
  "recv_env \<Rightarrow> nat \<Rightarrow> recv_async_read \<Rightarrow> unit result poll \<times> u8 list \<times> recv_async_read" where
  "poll_data_step env remaining this =
     (case env_data env of
        Pending \<Rightarrow> (Pending, [], this)
      | Ready None \<Rightarrow> (Ready (Inr ()), [], this)
      | Ready (Some (Inl e)) \<Rightarrow> (Ready (Inl e), [], this)
      | Ready (Some (Inr data)) \<Rightarrow>
          (let (put, pending) =
             (if length data < remaining then (data, recv_pending this)
              else (take remaining data, recv_pending this @ drop remaining data))
           in (Ready (env_release env), put, this\<lparr>recv_pending := pending\<rparr>)))"

definition poll_read ::
  "recv_env \<Rightarrow> nat \<Rightarrow> recv_async_read \<Rightarrow> unit result poll \<times> u8 list \<times> recv_async_read" where
  "poll_read env remaining this =
     (if recv_pending this \<noteq> [] then
        (let n = min (length (recv_pending this)) remaining
         in (Ready (Inr ()), take n (recv_pending this),
             this\<lparr>recv_pending := drop n (recv_pending this)\<rparr>))
      else if recv_awaiting this then
        (case env_response env of
           Pending \<Rightarrow> (Pending, [], this)
         | Ready (Inl e) \<Rightarrow> (Ready (Inl e), [], this)
         | Ready (Inr _) \<Rightarrow> poll_data_step env remaining (this\<lparr>recv_awaiting := False\<rparr>))
      else poll_data_step env remaining this)"

section \<open>Writing\<close>

text \<open>The successive answers of \<open>poll_capacity\<close>, with the capacity afterwards.\<close>

datatype capacity_outcome = CapacityPending | CapacityGranted nat | CapacityError error | CapacityClosed

fun wait_capacity :: "nat \<Rightarrow> capacity_outcome list \<Rightarrow> nat result option poll" where
  "wait_capacity capacity outcomes =
     (if capacity \<noteq> 0 then Ready (Some (Inr capacity))
      else case outcomes of
             [] \<Rightarrow> Pending
           | CapacityPending # _ \<Rightarrow> Pending
           | CapacityGranted c # outcomes \<Rightarrow> wait_capacity c outcomes
           | CapacityError e # _ \<Rightarrow> Ready (Some (Inl e))
           | CapacityClosed # _ \<Rightarrow> Ready None)"

declare wait_capacity.simps [simp del]

text \<open>The answer and the DATA frame sent, if any; \<open>send\<close> is what \<open>send_data\<close> answers.\<close>

definition poll_write ::
  "nat \<Rightarrow> capacity_outcome list \<Rightarrow> unit result \<Rightarrow> u8 list \<Rightarrow> nat result poll \<times> u8 list option" where
  "poll_write capacity outcomes send buffer =
     (if buffer = [] then (Ready (Inr 0), None)
      else case wait_capacity capacity outcomes of
             Pending \<Rightarrow> (Pending, None)
           | Ready None \<Rightarrow> (Ready (Inr 0), None)
           | Ready (Some (Inl e)) \<Rightarrow> (Ready (Inl e), None)
           | Ready (Some (Inr capacity)) \<Rightarrow>
               (let n = min capacity (length buffer) in
                case send of
                  Inl e \<Rightarrow> (Ready (Inl e), None)
                | Inr _ \<Rightarrow> (Ready (Inr n), Some (take n buffer))))"

definition poll_shutdown :: "unit result \<Rightarrow> unit result poll \<times> (u8 list \<times> bool) option" where
  "poll_shutdown send =
     (case send of Inl e \<Rightarrow> (Ready (Inl e), None) | Inr _ \<Rightarrow> (Ready (Inr ()), Some ([], True)))"

section \<open>Whole transfers\<close>

text \<open>
  A writer that writes a buffer out, one \<open>poll_write\<close> after the other, on a stream that grants
  the listed capacities: the frames sent and the bytes left when the capacities run out.
\<close>

fun write_frames :: "nat list \<Rightarrow> u8 list \<Rightarrow> u8 list list \<times> u8 list" where
  "write_frames [] buffer = ([], buffer)"
| "write_frames (capacity # capacities) buffer =
     (case poll_write capacity [] (Inr ()) buffer of
        (Ready (Inr n), Some frame) \<Rightarrow>
          (let (frames, rest) = write_frames capacities (drop n buffer) in (frame # frames, rest))
      | _ \<Rightarrow> write_frames capacities buffer)"

text \<open>
  A reader that reads with a buffer of \<open>room\<close> bytes until it reads nothing, which is the end of
  the stream for \<open>AsyncRead\<close>. The frames are what the stream yields before its end.
\<close>

definition frame_env :: "u8 list list \<Rightarrow> recv_env" where
  "frame_env frames = \<lparr> env_response = Ready (Inr ()),
     env_data = Ready (case frames of [] \<Rightarrow> None | frame # _ \<Rightarrow> Some (Inr frame)),
     env_release = Inr () \<rparr>"

definition frames_after :: "recv_async_read \<Rightarrow> u8 list list \<Rightarrow> u8 list list" where
  "frames_after this frames = (if recv_pending this \<noteq> [] then frames else tl frames)"

lemma poll_read_frame_env:
  "poll_read (frame_env frames) room this = (r, put, this') \<Longrightarrow>
     put @ recv_pending this' @ concat (frames_after this frames) = recv_pending this @ concat frames"
  by (cases frames)
    (auto simp: poll_read_def poll_data_step_def frame_env_def frames_after_def Let_def split: if_splits)

function read_all :: "nat \<Rightarrow> u8 list list \<Rightarrow> recv_async_read \<Rightarrow> u8 list" where
  "read_all room frames this =
     (case poll_read (frame_env frames) room this of
        (_, put, this') \<Rightarrow> if put = [] then [] else put @ read_all room (frames_after this frames) this')"
  by auto
termination
proof (relation "measure (\<lambda>(_, frames, this). length (recv_pending this @ concat frames))", goal_cases)
  case (2 room frames this x y put this')
  then have "put @ recv_pending this' @ concat (frames_after this frames) = recv_pending this @ concat frames"
    using poll_read_frame_env [of frames room this] by (metis prod.collapse)
  then have "length put + length (recv_pending this' @ concat (frames_after this frames)) =
      length (recv_pending this @ concat frames)"
    by (metis length_append)
  moreover have "1 \<le> length put" using 2 by (cases put) simp_all
  ultimately have "length (recv_pending this' @ concat (frames_after this frames)) <
      length (recv_pending this @ concat frames)"
    by linarith
  then show ?case using 2 by simp
qed simp

declare read_all.simps [simp del]

lemma poll_read_progress:
  assumes "0 < room" "[] \<notin> set frames" "poll_read (frame_env frames) room this = (r, put, this')" "put = []"
  shows "recv_pending this = [] \<and> frames = []"
  using assms
  by (cases frames)
    (auto simp: poll_read_def poll_data_step_def frame_env_def Let_def min_def split: if_splits)

lemma read_all_frames:
  assumes "0 < room" "[] \<notin> set frames"
  shows "read_all room frames this = recv_pending this @ concat frames"
  using assms
proof (induction room frames this rule: read_all.induct)
  case (1 room frames this)
  obtain r put this' where poll: "poll_read (frame_env frames) room this = (r, put, this')"
    by (cases "poll_read (frame_env frames) room this")
  show ?case
  proof (cases "put = []")
    case True
    then show ?thesis using poll_read_progress [OF "1.prems" poll] poll by (simp add: read_all.simps)
  next
    case False
    have "[] \<notin> set (frames_after this frames)"
      using "1.prems"(2) by (cases frames) (auto simp: frames_after_def)
    then have "read_all room (frames_after this frames) this' =
        recv_pending this' @ concat (frames_after this frames)"
      using "1.IH" [OF poll [symmetric] refl] False "1.prems"(1) by simp
    then show ?thesis
      using poll_read_frame_env [OF poll] poll False by (simp add: read_all.simps [of room frames])
  qed
qed

lemma write_frames_step:
  "write_frames (c # cs) buffer =
     (if buffer = [] \<or> c = 0 then write_frames cs buffer
      else apfst (Cons (take (min c (length buffer)) buffer))
        (write_frames cs (drop (min c (length buffer)) buffer)))"
  by (simp add: poll_write_def wait_capacity.simps Let_def apfst_def map_prod_def split: prod.splits)

declare write_frames.simps(2) [simp del]

lemma write_frames_bytes:
  "write_frames capacities buffer = (frames, rest) \<Longrightarrow> concat frames @ rest = buffer \<and> [] \<notin> set frames"
proof (induction capacities arbitrary: buffer frames rest)
  case (Cons c cs)
  let ?n = "min c (length buffer)"
  show ?case
  proof (cases "buffer = [] \<or> c = 0")
    case True
    then show ?thesis using Cons.IH Cons.prems by (simp add: write_frames_step)
  next
    case False
    then obtain frames' where sub: "write_frames cs (drop ?n buffer) = (frames', rest)"
        "frames = take ?n buffer # frames'"
      using Cons.prems by (cases "write_frames cs (drop ?n buffer)") (auto simp: write_frames_step)
    have "take ?n buffer @ drop ?n buffer = buffer" by (rule append_take_drop_id)
    then show ?thesis using Cons.IH [OF sub(1)] sub(2) False by (simp add: min_def)
  qed
qed simp

lemma write_frames_enough:
  assumes "write_frames capacities buffer = (frames, rest)" "0 \<notin> set capacities"
    and "length buffer \<le> length capacities"
  shows "rest = []"
  using assms
proof (induction capacities arbitrary: buffer frames rest)
  case (Cons c cs)
  let ?b = "if buffer = [] then buffer else drop (min c (length buffer)) buffer"
  obtain frames' where sub: "write_frames cs ?b = (frames', rest)"
    using Cons.prems(1,2) by (cases "write_frames cs ?b") (auto simp: write_frames_step split: if_splits)
  have "length ?b \<le> length cs" using Cons.prems(2,3) by auto
  then show ?case using Cons.IH [OF sub] Cons.prems(2) by simp
qed simp

text \<open>Frames behind an empty one are not reached.\<close>

lemma read_all_empty_frame:
  assumes "0 < room" "[] \<notin> set before"
  shows "read_all room (before @ [] # behind) this = recv_pending this @ concat before"
  using assms(2)
proof (induction "length (recv_pending this @ concat before)" arbitrary: before this rule: less_induct)
  case less
  let ?frames = "before @ [] # behind"
  show ?case
  proof (cases "recv_pending this = [] \<and> before = []")
    case True
    then have "fst (snd (poll_read (frame_env ?frames) room this)) = []"
      using assms(1) by (simp add: poll_read_def poll_data_step_def frame_env_def)
    then show ?thesis
      using True by (subst read_all.simps) (auto simp: split_def)
  next
    case False
    obtain r put this' where poll: "poll_read (frame_env before) room this = (r, put, this')"
      by (cases "poll_read (frame_env before) room this")
    have same: "poll_read (frame_env ?frames) room this = poll_read (frame_env before) room this"
      using False by (cases before) (auto simp: poll_read_def poll_data_step_def frame_env_def)
    have put: "put \<noteq> []" using poll_read_progress [OF assms(1) less.prems poll] False by blast
    have after: "frames_after this ?frames = frames_after this before @ [] # behind"
      using False by (cases before) (auto simp: frames_after_def)
    have split: "put @ recv_pending this' @ concat (frames_after this before) = recv_pending this @ concat before"
      by (rule poll_read_frame_env [OF poll])
    then have "length put + length (recv_pending this' @ concat (frames_after this before)) =
        length (recv_pending this @ concat before)"
      by (metis length_append)
    then have "length (recv_pending this' @ concat (frames_after this before)) <
        length (recv_pending this @ concat before)"
      using put by (cases put) simp_all
    moreover have "[] \<notin> set (frames_after this before)"
      using less.prems by (cases before) (auto simp: frames_after_def)
    ultimately have "read_all room (frames_after this before @ [] # behind) this' =
        recv_pending this' @ concat (frames_after this before)"
      by (rule less.hyps)
    then show ?thesis using split poll same put after by (simp add: read_all.simps [of room ?frames])
  qed
qed

section \<open>Properties\<close>

text \<open>Whatever the capacities granted to the writer and the room of the reader's buffer, the reader
  gets exactly the bytes the writer has written, in order, and sees the end only after the last;
  with as many grants as there are bytes, the whole buffer arrives.\<close>

theorem http2_stream_transfer:
  assumes "write_frames capacities buffer = (frames, rest)" and "0 < room"
  shows "read_all room frames (recv_async_read_new is_response) @ rest = buffer \<and>
    (0 \<notin> set capacities \<and> length buffer \<le> length capacities \<longrightarrow> rest = [])"
  using write_frames_bytes [OF assms(1)] read_all_frames [OF assms(2)] write_frames_enough [OF assms(1)]
  by (auto simp: recv_async_read_new_def)

theorem http2_stream_transfer_witness:
  "read_all 2 [[1, 2, 3], [4]] (recv_async_read_new True) @ [5] = [1, 2, 3, 4, 5]"
  using http2_stream_transfer [of "[3, 1]" "[1, 2, 3, 4, 5]" "[[1, 2, 3], [4]]" "[5]" 2 True]
  by (simp add: write_frames_step)

text \<open>An empty DATA frame that does not end the stream is taken for the end: the reader stops and
  never sees the frames behind it. (The writer above never sends one.)\<close>

theorem empty_frame_ends_reading:
  assumes "0 < room" and "[] \<notin> set before"
  shows "read_all room (before @ [] # behind) (recv_async_read_new is_response) = concat before"
  using read_all_empty_frame [OF assms] by (simp add: recv_async_read_new_def)

theorem empty_frame_ends_reading_witness:
  "read_all 8 ([[1]] @ [] # [[2]]) (recv_async_read_new True) = concat [[1]]"
  by (rule empty_frame_ends_reading) simp_all

end
