(* ===== verification/Net_Text_Roundtrip.thy ===== *)
theory Net_Text_Roundtrip
  imports Net_Text Bytes
begin

text \<open>
  Parsing what was printed: every socket address that \<open>Display\<close> writes is read back by
  \<open>FromStr\<close>, up to the flow info, which the text does not carry.
\<close>

section \<open>Digits\<close>

fun digits_of :: "nat \<Rightarrow> nat \<Rightarrow> nat list" where
  "digits_of radix n =
     (if radix < 2 \<or> n < radix then [n] else digits_of radix (n div radix) @ [n mod radix])"

declare digits_of.simps [simp del]

lemma show_digits_map: "show_digits radix n = map digit_char (digits_of radix n)"
  by (induction radix n rule: digits_of.induct) (subst digits_of.simps, subst show_digits.simps, simp)

lemma digits_of_less: "2 \<le> radix \<Longrightarrow> d \<in> set (digits_of radix n) \<Longrightarrow> d < radix"
proof (induction radix n rule: digits_of.induct)
  case (1 radix n)
  then show ?case
    by (subst (asm) (2) digits_of.simps) (auto split: if_splits)
qed

lemma digits_of_neq_Nil [simp]: "digits_of radix n \<noteq> []"
  by (subst digits_of.simps) simp

lemma digits_val_snoc: "digits_val radix (ds @ [d]) = digits_val radix ds * radix + d"
  by (simp add: digits_val_def)

lemma digits_val_digits_of: "2 \<le> radix \<Longrightarrow> digits_val radix (digits_of radix n) = n"
proof (induction radix n rule: digits_of.induct)
  case (1 radix n)
  show ?case
  proof (cases "n < radix")
    case True
    then show ?thesis by (subst digits_of.simps) (simp add: digits_val_def)
  next
    case False
    then have "digits_of radix n = digits_of radix (n div radix) @ [n mod radix]"
      using "1.prems" by (subst digits_of.simps) simp
    moreover have "digits_val radix (digits_of radix (n div radix)) = n div radix"
      using "1.IH" False "1.prems" by simp
    ultimately show ?thesis by (simp add: digits_val_snoc)
  qed
qed

lemma length_digits_of: "2 \<le> radix \<Longrightarrow> n < radix ^ k \<Longrightarrow> 0 < k \<Longrightarrow> length (digits_of radix n) \<le> k"
proof (induction k arbitrary: n)
  case (Suc k)
  show ?case
  proof (cases "n < radix")
    case True
    then show ?thesis by (subst digits_of.simps) simp
  next
    case False
    then have "0 < k" using Suc.prems(2) by (cases k) auto
    moreover have "n div radix < radix ^ k"
      using Suc.prems(1,2) by (simp add: less_mult_imp_div_less mult.commute)
    ultimately have "length (digits_of radix (n div radix)) \<le> k"
      using Suc.IH Suc.prems(1) by blast
    then show ?thesis using False by (subst digits_of.simps) simp
  qed
qed simp

lemma hd_digits_of: "2 \<le> radix \<Longrightarrow> radix \<le> n \<Longrightarrow> hd (digits_of radix n) \<noteq> 0"
proof (induction radix n rule: digits_of.induct)
  case (1 radix n)
  have step: "digits_of radix n = digits_of radix (n div radix) @ [n mod radix]"
    using "1.prems" by (subst digits_of.simps) simp
  show ?case
  proof (cases "n div radix < radix")
    case True
    then have "digits_of radix (n div radix) = [n div radix]" by (subst digits_of.simps) simp
    moreover have "n div radix \<noteq> 0" using "1.prems" by (simp add: div_eq_0_iff)
    ultimately show ?thesis by (simp add: step)
  next
    case False
    then have "hd (digits_of radix (n div radix)) \<noteq> 0" using "1.IH" "1.prems" by simp
    then show ?thesis by (simp add: step)
  qed
qed

lemma length_digits_of_gt_1: "2 \<le> radix \<Longrightarrow> 1 < length (digits_of radix n) \<Longrightarrow> radix \<le> n"
  by (subst (asm) digits_of.simps) (auto split: if_splits)

lemma of_char_digit_char:
  "d < 36 \<Longrightarrow> (of_char (digit_char d) :: nat) = (if d < 10 then 48 + d else 87 + d)"
  by (simp add: digit_char_def)

lemma digit_val_digit_char: "d < radix \<Longrightarrow> radix \<le> 36 \<Longrightarrow> digit_val radix (digit_char d) = Some d"
  by (simp add: digit_val_def of_char_digit_char)

lemma digit_char_eq_0: "d < 36 \<Longrightarrow> digit_char d = CHR ''0'' \<longleftrightarrow> d = 0"
proof -
  assume d: "d < 36"
  have "digit_char d = CHR ''0'' \<longleftrightarrow> (of_char (digit_char d) :: nat) = of_char CHR ''0''"
    by (simp only: of_char_eq_iff)
  then show ?thesis using d by (simp add: of_char_digit_char)
qed

text \<open>What may follow a number.\<close>

definition no_digit :: "nat \<Rightarrow> string \<Rightarrow> bool" where
  "no_digit radix s \<longleftrightarrow> (case s of [] \<Rightarrow> True | c # _ \<Rightarrow> digit_val radix c = None)"

lemma no_digit_simps [simp]:
  "no_digit radix []" "no_digit radix (c # s) \<longleftrightarrow> digit_val radix c = None"
  by (simp_all add: no_digit_def)

lemma take_digits_show:
  assumes "2 \<le> radix" "radix \<le> 36" "no_digit radix rest"
  shows "take_digits radix (show_digits radix n @ rest) = (digits_of radix n, rest)"
proof -
  have "take_digits radix (map digit_char ds @ rest) = (ds, rest)" if "\<forall>d \<in> set ds. d < radix" for ds
    using that assms(2,3)
    by (induction ds) (auto simp: digit_val_digit_char no_digit_def split: list.splits)
  then show ?thesis using digits_of_less [OF assms(1)] by (simp add: show_digits_map)
qed

lemma hd_show_digits:
  assumes "2 \<le> radix" "radix \<le> 36"
  shows "hd (show_digits radix n @ rest) = CHR ''0'' \<longleftrightarrow> hd (digits_of radix n) = 0"
proof -
  have "hd (digits_of radix n) < 36"
    using digits_of_less [OF assms(1), of "hd (digits_of radix n)" n] assms(2) by simp
  then show ?thesis by (simp add: show_digits_map hd_map hd_append digit_char_eq_0)
qed

lemma read_number_show:
  assumes "2 \<le> radix" "radix \<le> 36" "no_digit radix rest" "n \<le> bound"
    and "\<And>m. max_digits = Some m \<Longrightarrow> n < radix ^ m \<and> 0 < m"
  shows "read_number radix max_digits zeros bound (show_digits radix n @ rest) = Some (n, rest)"
proof -
  have "\<not> (case max_digits of None \<Rightarrow> False | Some m \<Rightarrow> m < length (digits_of radix n))"
    using assms(1,5) length_digits_of [OF assms(1), of n] by (auto simp: not_less split: option.splits)
  moreover have "\<not> (hd (show_digits radix n @ rest) = CHR ''0'' \<and> 1 < length (digits_of radix n))"
    using hd_digits_of [OF assms(1)] length_digits_of_gt_1 [OF assms(1)] hd_show_digits [OF assms(1,2)] by blast
  ultimately show ?thesis
    using take_digits_show [OF assms(1-3), of n] assms(4) digits_val_digits_of [OF assms(1), of n]
    by (simp add: read_number_def)
qed

section \<open>IPv4\<close>

lemma digit_val_separators [simp]:
  "digit_val 10 CHR ''.'' = None" "digit_val 10 CHR '':'' = None" "digit_val 10 CHR '']'' = None"
  "digit_val 10 CHR ''%'' = None" "digit_val 16 CHR '':'' = None" "digit_val 16 CHR '']'' = None"
  "digit_val 16 CHR ''%'' = None"
  by (simp_all add: digit_val_def)

lemma read_octet_show:
  "no_digit 10 rest \<Longrightarrow> read_octet (show_digits 10 (unat (b :: u8)) @ rest) = Some (unat b, rest)"
  unfolding read_octet_def
  using unsigned_less [of b, where ?'a = nat] by (intro read_number_show) auto

lemma be_bytes_octets: "be_bytes 4 ip = map (\<lambda>i. ipv4_octet i ip) [0, 1, 2, 3]"
  by (simp add: ipv4_octet_def be_bytes_4)

lemma read_ipv4_show:
  assumes "no_digit 10 rest"
  shows "read_ipv4 (show_ipv4 ip @ rest) = Some (ip, rest)"
proof -
  have "from_be [ipv4_octet 0 ip, ipv4_octet 1 ip, ipv4_octet 2 ip, ipv4_octet 3 ip] = ip"
    using from_be_bytes_u32 [of ip] unfolding be_bytes_octets by simp
  then show ?thesis
    using assms by (simp add: read_ipv4_def read_separator_def show_ipv4_def read_octet_show)
qed

lemma read_port_show:
  "read_port ('':'' @ show_digits 10 (unat (port :: u16))) = Some (port, [])"
proof -
  have "unat port \<le> 65535" using unsigned_less [of port, where ?'a = nat] by simp
  then have "read_number 10 None True 65535 (show_digits 10 (unat port) @ []) = Some (unat port, [])"
    by (intro read_number_show) auto
  then show ?thesis by (simp add: read_port_def)
qed

lemma parse_socket_addr_v4:
  "parse_socket_addr (show_socket_addr (SockV4 ip port)) = Some (SockV4 ip port)"
  using read_ipv4_show [of "'':'' @ show_digits 10 (unat port)" ip] read_port_show [of port]
  by (simp add: parse_socket_addr_def parse_all_def read_socket_addr_v4_def)

section \<open>IPv6\<close>

text \<open>Without a dot in the text there is no IPv4 address to read.\<close>

lemma set_take_digits: "take_digits radix s = (ds, rest) \<Longrightarrow> set rest \<subseteq> set s"
  by (induction s arbitrary: ds) (auto split: option.splits prod.splits)

lemma read_number_rest: "read_number radix m z bound s = Some (n, rest) \<Longrightarrow> set rest \<subseteq> set s"
  by (auto simp: read_number_def split: prod.splits if_splits dest: set_take_digits)

lemma read_ipv4_no_dot: "CHR ''.'' \<notin> set s \<Longrightarrow> read_ipv4 s = None"
proof -
  assume s: "CHR ''.'' \<notin> set s"
  have "read_given CHR ''.'' rest = None" if "read_octet s = Some (a, rest)" for a rest
    using read_number_rest [OF that [unfolded read_octet_def]] s by (cases rest) auto
  then show ?thesis
    by (cases "read_octet s") (auto simp: read_ipv4_def read_separator_def)
qed

text \<open>The groups of a text end where no digit and no separator with a digit follows.\<close>

definition ends_groups :: "string \<Rightarrow> bool" where
  "ends_groups s \<longleftrightarrow>
     (case s of c # s' \<Rightarrow> digit_val 16 c = None \<and> digit_val 10 c = None \<and> (c = CHR '':'' \<longrightarrow> no_digit 16 s' \<and> no_digit 10 s')
      | [] \<Rightarrow> True)"

lemma read_number_no_digit: "no_digit radix s \<Longrightarrow> read_number radix m z bound s = None"
  by (cases s) (simp_all add: read_number_def)

lemma read_ipv4_no_digit: "no_digit 10 s \<Longrightarrow> read_ipv4 s = None"
  by (simp add: read_ipv4_def read_separator_def read_octet_def read_number_no_digit)

lemma read_separator_end:
  assumes "ends_groups rest"
  shows "read_separator first CHR '':'' (read_number 16 (Some 4) True 65535) rest = None"
    and "read_separator first CHR '':'' read_ipv4 rest = None"
  using assms
  by (cases rest; auto simp: ends_groups_def read_separator_def read_number_no_digit read_ipv4_no_digit)+

lemma read_groups_end: "ends_groups rest \<Longrightarrow> read_groups first n rest = ([], False, rest)"
  by (cases n) (simp_all add: read_separator_end)

lemma no_dot_digit_char: "d < 36 \<Longrightarrow> digit_char d \<noteq> CHR ''.''"
proof
  assume d: "d < 36" and eq: "digit_char d = CHR ''.''"
  have "(of_char (digit_char d) :: nat) = 46" unfolding eq by simp
  then show False using d by (simp add: of_char_digit_char split: if_splits)
qed

lemma no_dot_show_digits: "2 \<le> radix \<Longrightarrow> radix \<le> 36 \<Longrightarrow> CHR ''.'' \<notin> set (show_digits radix n)"
proof -
  assume r: "2 \<le> radix" "radix \<le> 36"
  have "digit_char d \<noteq> CHR ''.''" if "d \<in> set (digits_of radix n)" for d
    by (rule no_dot_digit_char) (use digits_of_less [OF r(1) that] r(2) in simp)
  then show ?thesis unfolding show_digits_map by force
qed

lemma read_hex_group:
  "no_digit 16 rest \<Longrightarrow>
     read_number 16 (Some 4) True 65535 (show_digits 16 (unat (g :: u16)) @ rest) = Some (unat g, rest)"
  using unsigned_less [of g, where ?'a = nat] by (intro read_number_show) auto

text \<open>Reading one printed group, when what follows gives no IPv4 address.\<close>

lemma read_groups_Cons:
  assumes "no_digit 16 rest" "CHR ''.'' \<notin> set (show_digits 16 (unat g) @ rest) \<or>
      read_ipv4 (show_digits 16 (unat g) @ rest) = None"
  shows "read_groups first (Suc n) ((if first then [] else '':'') @ show_digits 16 (unat (g :: u16)) @ rest) =
    (case read_groups False n rest of (gs, v4, s) \<Rightarrow> (g # gs, v4, s))"
proof -
  have "read_ipv4 (show_digits 16 (unat g) @ rest) = None"
    using assms(2) read_ipv4_no_dot by blast
  then show ?thesis
    using read_hex_group [OF assms(1), of g] by (simp add: read_separator_def split: prod.splits)
qed

definition colon_groups :: "bool \<Rightarrow> u16 list \<Rightarrow> string" where
  "colon_groups first gs =
     (if first then show_segments gs else concat (map (\<lambda>g. '':'' @ show_digits 16 (unat g)) gs))"

lemma show_segments_Cons:
  "show_segments (g # gs) = show_digits 16 (unat g) @ colon_groups False gs"
  by (induction gs arbitrary: g) (simp_all add: colon_groups_def)

lemma colon_groups_Cons:
  "colon_groups first (g # gs) =
     (if first then [] else '':'') @ show_digits 16 (unat g) @ colon_groups False gs"
  by (simp add: colon_groups_def show_segments_Cons del: show_segments.simps)

lemma colon_groups_Nil [simp]: "colon_groups first [] = []"
  by (simp add: colon_groups_def)

lemma no_dot_colon_groups: "CHR ''.'' \<notin> set (colon_groups first gs)"
  by (induction gs arbitrary: first) (auto simp: colon_groups_Cons no_dot_show_digits)

lemma no_digit_colon_groups: "no_digit 16 rest \<Longrightarrow> no_digit 16 (colon_groups False gs @ rest)"
  by (cases gs) (simp_all add: colon_groups_Cons)

lemma read_groups_colon_groups:
  assumes "length gs \<le> n" "ends_groups rest" "CHR ''.'' \<notin> set rest"
  shows "read_groups first n (colon_groups first gs @ rest) = (gs, False, rest)"
  using assms(1)
proof (induction gs arbitrary: first n)
  case Nil
  then show ?case using read_groups_end [OF assms(2)] by simp
next
  case (Cons g gs)
  then obtain n' where n: "n = Suc n'" "length gs \<le> n'" by (cases n) auto
  have "no_digit 16 rest" using assms(2) by (cases rest) (auto simp: ends_groups_def)
  then have "no_digit 16 (colon_groups False gs @ rest)" by (rule no_digit_colon_groups)
  moreover have "CHR ''.'' \<notin> set (show_digits 16 (unat g) @ colon_groups False gs @ rest)"
    using assms(3) no_dot_colon_groups no_dot_show_digits [of 16] by simp
  ultimately show ?case
    using read_groups_Cons [of "colon_groups False gs @ rest" g first n'] Cons.IH [OF n(2), of False]
    by (simp add: n(1) colon_groups_Cons)
qed

lemmas read_groups_show_segments =
  read_groups_colon_groups [where first = True, unfolded colon_groups_def if_True]

text \<open>Segments and their run of zeros.\<close>

lemma bit_ipv6_of_groups_foldl:
  "bit (foldl (\<lambda>acc g. push_bit 16 acc OR ucast g) acc (gs :: u16 list) :: u128) n \<longleftrightarrow>
     n < 128 \<and> (if n < 16 * length gs then bit (rev gs ! (n div 16)) (n mod 16)
       else bit acc (n - 16 * length gs))"
proof (induction gs arbitrary: acc n rule: rev_induct)
  case Nil
  then show ?case by (auto dest: bit_imp_le_length)
next
  case (snoc g gs)
  show ?case
  proof (cases "n < 16")
    case True
    then show ?thesis
      by (auto simp: bit_or_iff bit_push_bit_iff bit_unsigned_iff)
  next
    case False
    then have n: "n div 16 = Suc ((n - 16) div 16)" "n mod 16 = (n - 16) mod 16"
      by (simp_all add: le_div_geq le_mod_geq)
    have "\<not> bit g n" using False by (auto dest: bit_imp_le_length)
    then show ?thesis
      using False snoc.IH [of acc "n - 16"]
      by (auto simp: bit_or_iff bit_push_bit_iff bit_unsigned_iff n)
  qed
qed

lemma length_ipv6_segments [simp]: "length (ipv6_segments ip) = 8"
  by (simp add: ipv6_segments_def)

lemma ipv6_of_segments [simp]: "ipv6_of_groups (ipv6_segments ip) = ip"
proof (rule bit_word_eqI)
  fix n assume n: "n < LENGTH(128)"
  have "rev (ipv6_segments ip) ! k = ucast (drop_bit (16 * k) ip)" if "k < 8" for k
  proof -
    have "rev (ipv6_segments ip) = map (\<lambda>i. ucast (drop_bit (16 * i) ip)) [0..<8]"
      by (simp add: ipv6_segments_def upt_rec)
    then show ?thesis using that by simp
  qed
  moreover have "n div 16 < 8" using n by simp
  ultimately show "bit (ipv6_of_groups (ipv6_segments ip)) n = bit ip n"
    using n by (simp add: ipv6_of_groups_def bit_ipv6_of_groups_foldl bit_unsigned_iff bit_drop_bit_eq)
qed

definition zero_run :: "u16 list \<Rightarrow> nat \<times> nat \<Rightarrow> bool" where
  "zero_run gs r \<longleftrightarrow> fst r + snd r \<le> length gs \<and> (\<forall>k < snd r. gs ! (fst r + k) = 0)"

lemma zero_span_run:
  assumes "zero_run (pre @ suf) longest" "zero_run (pre @ suf) current"
    and "snd current = 0 \<or> fst current + snd current = length pre"
  shows "zero_run (pre @ suf) (zero_span (length pre) longest current suf)"
  using assms
proof (induction suf arbitrary: pre longest current)
  case (Cons g suf)
  have IH: "zero_run (pre @ g # suf) (zero_span (Suc (length pre)) l c suf)"
    if "zero_run (pre @ g # suf) l" "zero_run (pre @ g # suf) c"
      "snd c = 0 \<or> fst c + snd c = Suc (length pre)" for l c
    using Cons.IH [of "pre @ [g]" l c] that by simp
  show ?case
  proof (cases "g = 0")
    case True
    let ?c = "if snd current = 0 then (length pre, 1) else (fst current, snd current + 1)"
    have c: "zero_run (pre @ g # suf) ?c" "snd ?c = 0 \<or> fst ?c + snd ?c = Suc (length pre)"
      using Cons.prems(2,3) True by (auto simp: zero_run_def less_Suc_eq nth_append)
    then have "zero_run (pre @ g # suf) (if snd longest < snd ?c then ?c else longest)"
      using Cons.prems(1) by simp
    with c show ?thesis using IH True by (simp add: Let_def)
  next
    case False
    have "zero_run (pre @ g # suf) (0, 0)" by (simp add: zero_run_def)
    then show ?thesis using IH Cons.prems(1) False by simp
  qed
qed simp

lemma zero_run_split:
  assumes "zero_run gs (start, len)"
  shows "take start gs @ replicate len 0 @ drop (start + len) gs = gs"
proof -
  have "take len (drop start gs) = replicate len 0"
    using assms by (intro nth_equalityI) (auto simp: zero_run_def)
  then show ?thesis by (metis append_take_drop_id drop_drop add.commute)
qed

lemma zero_run_length: "zero_run gs (start, len) \<Longrightarrow> start + len \<le> length gs"
  by (simp add: zero_run_def)

text \<open>What may follow an IPv6 address.\<close>

definition ends_ipv6 :: "string \<Rightarrow> bool" where
  "ends_ipv6 s \<longleftrightarrow> ends_groups s \<and> CHR ''.'' \<notin> set s"

lemma ends_groups_colons:
  "ends_groups ('':'' @ '':'' @ s)" "ends_groups (CHR '':'' # CHR '':'' # s)"
  by (simp_all add: ends_groups_def)

text \<open>The IPv4-mapped form; the dots of the port-free rest are those of the IPv4 address.\<close>

lemma read_ipv4_hex_letter:
  "read_ipv4 (CHR ''f'' # s) = None"
  by (rule read_ipv4_no_digit) (simp add: digit_val_def)

lemma read_groups_mapped:
  assumes "no_digit 10 rest"
  shows "read_groups True 7 (''ffff:'' @ show_ipv4 ip @ rest) =
    ([0xFFFF, ucast (drop_bit 16 ip), ucast ip], True, rest)"
proof -
  have hex: "read_number 16 (Some 4) True 65535 (''ffff:'' @ s) = Some (65535, CHR '':'' # s)" for s
  proof -
    have "digit_char 15 = CHR ''f''"
      by (simp add: digit_char_def char_of_def bit_simps)
    then have "''ffff'' = show_digits 16 65535"
      by (simp add: show_digits_map digits_of.simps [of 16 65535] digits_of.simps [of 16 4095]
          digits_of.simps [of 16 255] digits_of.simps [of 16 15])
    then have "read_number 16 (Some 4) True 65535 (''ffff'' @ CHR '':'' # s) = Some (65535, CHR '':'' # s)"
      using read_number_show [of 16 "CHR '':'' # s" 65535 65535 "Some 4" True] by simp
    then show ?thesis by simp
  qed
  have "read_groups False 6 (CHR '':'' # show_ipv4 ip @ rest) =
      ([ucast (drop_bit 16 ip), ucast ip], True, rest)"
    using read_ipv4_show [OF assms, of ip]
    by (simp add: read_separator_def)
  then show ?thesis
    using hex [of "show_ipv4 ip @ rest"] read_ipv4_hex_letter
    by (simp add: read_separator_def)
qed

lemma ends_ipv6_colons: "ends_groups (CHR '':'' # CHR '':'' # s)"
  by (simp add: ends_groups_def)

lemma mapped_segments:
  assumes "take 6 (ipv6_segments ip) = [0, 0, 0, 0, 0, 0xFFFF]"
  shows "ipv6_segments ip =
    [0, 0, 0, 0, 0, 0xFFFF, ucast (drop_bit 16 (ucast ip :: u32)), ucast (ucast ip :: u32)]"
proof -
  have "drop 6 (ipv6_segments ip) = [ucast (drop_bit 16 ip), ucast ip]"
    by (simp add: ipv6_segments_def)
  moreover have "ucast (drop_bit 16 ip) = (ucast (drop_bit 16 (ucast ip :: u32)) :: u16)"
    by (rule bit_word_eqI) (auto simp: bit_unsigned_iff bit_drop_bit_eq)
  moreover have "ucast ip = (ucast (ucast ip :: u32) :: u16)"
    by (rule bit_word_eqI) (auto simp: bit_unsigned_iff)
  ultimately have "drop 6 (ipv6_segments ip) = [ucast (drop_bit 16 (ucast ip :: u32)), ucast (ucast ip :: u32)]"
    by simp
  then show ?thesis by (metis append_take_drop_id assms append_Cons append_Nil)
qed

lemma read_ipv6_show:
  assumes "ends_ipv6 rest"
  shows "read_ipv6 (show_ipv6 ip @ rest) = Some (ip, rest)"
proof (cases "take 6 (ipv6_segments ip) = [0, 0, 0, 0, 0, 0xFFFF]")
  case True
  have rest: "no_digit 10 rest" using assms by (cases rest) (auto simp: ends_ipv6_def ends_groups_def)
  let ?ip4 = "ucast ip :: u32"
  have "ipv6_of_groups ([] @ replicate 5 0 @ [0xFFFF, ucast (drop_bit 16 ?ip4), ucast ?ip4]) = ip"
    using ipv6_of_segments [of ip] unfolding mapped_segments [OF True] by (simp add: eval_nat_numeral)
  moreover have "read_groups True 8 (CHR '':'' # CHR '':'' # ''ffff:'' @ show_ipv4 ?ip4 @ rest) =
      ([], False, CHR '':'' # CHR '':'' # ''ffff:'' @ show_ipv4 ?ip4 @ rest)"
    by (rule read_groups_end) (rule ends_ipv6_colons)
  ultimately show ?thesis
    using True read_groups_mapped [OF rest, of ?ip4]
    by (simp add: read_ipv6_def show_ipv6_def Let_def)
next
  case False
  let ?segs = "ipv6_segments ip"
  obtain start len where span: "zero_span 0 (0, 0) (0, 0) ?segs = (start, len)" by fastforce
  have run: "zero_run ?segs (start, len)"
    using zero_span_run [of "[]" ?segs "(0, 0)" "(0, 0)"] span by (simp add: zero_run_def)
  show ?thesis
  proof (cases "1 < len")
    case True
    let ?head = "take start ?segs" and ?tail = "drop (start + len) ?segs"
    have len: "length ?head = start" "length ?tail = 8 - (start + len)" "start + len \<le> 8"
      using zero_run_length [OF run] by simp_all
    have "read_groups True 8 (show_segments ?head @ CHR '':'' # CHR '':'' # show_segments ?tail @ rest) =
        (?head, False, CHR '':'' # CHR '':'' # show_segments ?tail @ rest)"
      by (rule read_groups_show_segments)
        (use len no_dot_colon_groups [of True ?tail] assms in
          \<open>simp_all add: ends_ipv6_colons colon_groups_def ends_ipv6_def\<close>)
    moreover have "read_groups True (8 - (length ?head + 1)) (show_segments ?tail @ rest) = (?tail, False, rest)"
      by (rule read_groups_show_segments) (use len True assms in \<open>simp_all add: ends_ipv6_def\<close>)
    moreover have "ipv6_of_groups (?head @ replicate (8 - length ?head - length ?tail) 0 @ ?tail) = ip"
      using zero_run_split [OF run] len ipv6_of_segments [of ip] by simp
    ultimately show ?thesis
      using False True span len by (simp add: read_ipv6_def show_ipv6_def Let_def)
  next
    case short: False
    have "read_groups True 8 (show_segments ?segs @ rest) = (?segs, False, rest)"
      by (rule read_groups_show_segments) (use assms in \<open>simp_all add: ends_ipv6_def\<close>)
    then show ?thesis using False short span by (simp add: read_ipv6_def show_ipv6_def Let_def)
  qed
qed

section \<open>Socket addresses\<close>

lemma read_ipv4_bracket: "read_ipv4 (CHR ''['' # s) = None"
  by (rule read_ipv4_no_digit) (simp add: digit_val_def)

lemma no_dot_port: "CHR ''.'' \<notin> set (show_digits 10 n)"
  by (rule no_dot_show_digits) simp_all

lemma read_scope_id_show:
  "read_scope_id (CHR ''%'' # show_digits 10 (unat (scope :: u32)) @ CHR '']'' # rest) =
     (scope, CHR '']'' # rest)"
proof -
  have "unat scope \<le> 4294967295" using unsigned_less [of scope, where ?'a = nat] by simp
  then have "read_number 10 None True 4294967295 (show_digits 10 (unat scope) @ CHR '']'' # rest) =
      Some (unat scope, CHR '']'' # rest)"
    by (intro read_number_show) auto
  then show ?thesis by (simp add: read_scope_id_def)
qed

lemma read_socket_addr_v6_show:
  "read_socket_addr_v6 (show_socket_addr (SockV6 ip port flow scope)) = Some (SockV6 ip port 0 scope, [])"
proof -
  let ?port = "CHR '']'' # '':'' @ show_digits 10 (unat port)"
  let ?scope = "if scope = 0 then ?port else CHR ''%'' # show_digits 10 (unat scope) @ ?port"
  have "ends_ipv6 ?scope" by (simp add: ends_ipv6_def ends_groups_def no_dot_port)
  then have "read_ipv6 (show_ipv6 ip @ ?scope) = Some (ip, ?scope)" by (rule read_ipv6_show)
  moreover have "read_scope_id ?scope = (scope, ?port)"
  proof (cases "scope = 0")
    case True
    then show ?thesis by (simp add: read_scope_id_def)
  next
    case False
    then show ?thesis using read_scope_id_show [of scope "'':'' @ show_digits 10 (unat port)"] by simp
  qed
  moreover have "show_socket_addr (SockV6 ip port flow scope) = CHR ''['' # show_ipv6 ip @ ?scope"
    by simp
  ultimately show ?thesis
    using read_port_show [of port] unfolding read_socket_addr_v6_def by simp
qed

text \<open>What the text keeps of an address.\<close>

fun sa_printed :: "socket_addr \<Rightarrow> socket_addr" where
  "sa_printed (SockV4 ip port) = SockV4 ip port"
| "sa_printed (SockV6 ip port _ scope) = SockV6 ip port 0 scope"

lemma parse_show_socket_addr: "parse_socket_addr (show_socket_addr a) = Some (sa_printed a)"
proof (cases a)
  case (SockV4 ip port)
  then show ?thesis using parse_socket_addr_v4 [of ip port] by simp
next
  case (SockV6 ip port flow scope)
  have "read_socket_addr_v4 (show_socket_addr a) = None"
    using SockV6 by (simp add: read_socket_addr_v4_def read_ipv4_bracket)
  then show ?thesis
    using read_socket_addr_v6_show [of ip port flow scope] SockV6
    by (simp add: parse_socket_addr_def parse_all_def)
qed

end
