(* ===== verification/Http2_Tunnel.thy ===== *)
theory Http2_Tunnel
  imports Byte_Stream Compat Net_Text_Roundtrip
begin

text \<open>
  The HTTP/2 tunnel (\<open>src/lib/tunnel/http2/http2_tunnel.rs\<close>): the request that stands for a stream,
  the life of the IN tunnel with its permit, stream counters and closing, the OUT tunnel that
  accepts requests, and the window sizes derived from the socket buffer. The \<open>h2\<close> and \<open>http\<close>
  libraries are parameters: what sending, accepting and polling answer, and which header values
  are legal.
\<close>

section \<open>Requests\<close>

record http_request =
  rq_address :: string
  rq_name :: "string option"
  rq_tag :: "string option"

text \<open>
  \<open>header_ok\<close>: a header can be built from the string; \<open>header_str\<close>: \<open>to_str\<close> of the received
  value. Documented behaviour: control characters other than tab are illegal, and only visible
  ASCII reads back as a string.
\<close>

record header_lib =
  header_ok :: "string \<Rightarrow> bool"
  header_str :: "string \<Rightarrow> string option"

definition legal_header_char :: "char \<Rightarrow> bool" where
  "legal_header_char c \<longleftrightarrow> (32 \<le> (of_char c :: nat) \<and> (of_char c :: nat) \<noteq> 127) \<or> (of_char c :: nat) = 9"

definition visible_header_char :: "char \<Rightarrow> bool" where
  "visible_header_char c \<longleftrightarrow> (32 \<le> (of_char c :: nat) \<and> (of_char c :: nat) < 127) \<or> (of_char c :: nat) = 9"

definition header_law :: "header_lib \<Rightarrow> bool" where
  "header_law lib \<longleftrightarrow>
     (\<forall>s. header_ok lib s \<longleftrightarrow> list_all legal_header_char s) \<and>
     (\<forall>s. header_str lib s = (if list_all visible_header_char s then Some s else None))"

text \<open>Building the request; \<open>body(()).unwrap()\<close> panics if a header could not be built.\<close>

definition connect_request :: "header_lib \<Rightarrow> destination \<Rightarrow> http_request option" where
  "connect_request lib d =
     (case d of (destination_address, destination_name, tag) \<Rightarrow>
        if header_ok lib (show_socket_addr destination_address) \<and>
           pred_option (header_ok lib) destination_name \<and> pred_option (header_ok lib) tag
        then Some \<lparr> rq_address = show_socket_addr destination_address, rq_name = destination_name,
               rq_tag = tag \<rparr>
        else None)"

section \<open>The IN tunnel\<close>

text \<open>
  The spawned driver polls the connection until it ends, then takes the permit, stores \<open>closed\<close>
  and wakes the tasks that wait at the \<open>Notify\<close>, one step each.
\<close>

datatype driver = Driving | PermitTaken | ClosedStored | DriverDone

record http2_in_tunnel =
  h2_tunnel :: in_tunnel
  h2_request_sender :: bool
  h2_active_permit :: bool
  h2_lifetime_streams :: usize
  h2_active_streams :: usize
  h2_closed :: bool
  h2_driver :: driver
  h2_waiting :: nat
  h2_woken :: nat
  h2_stream_tasks :: nat

definition http2_in_tunnel_new :: "in_tunnel \<Rightarrow> http2_in_tunnel" where
  "http2_in_tunnel_new tunnel =
     \<lparr> h2_tunnel = tunnel, h2_request_sender = True, h2_active_permit = False,
       h2_lifetime_streams = 0, h2_active_streams = 0, h2_closed = False, h2_driver = Driving,
       h2_waiting = 0, h2_woken = 0, h2_stream_tasks = 0 \<rparr>"

definition lifetime_streams_limit :: usize where
  "lifetime_streams_limit = 4096"

text \<open>
  \<open>connect\<close>: \<open>send\<close> is what \<open>send_request\<close> answers, \<open>write\<close> what writing the sniffed bytes does.
  \<^const>\<open>None\<close> is the panic.
\<close>

definition count_stream :: "http2_in_tunnel \<Rightarrow> http2_in_tunnel" where
  "count_stream t =
     (let lifetime_streams = h2_lifetime_streams t + 1;
          t = t\<lparr>h2_lifetime_streams := lifetime_streams\<rparr>
      in if lifetime_streams = lifetime_streams_limit then t\<lparr>h2_active_permit := False\<rparr> else t)"

definition h2_connect ::
  "header_lib \<Rightarrow> unit result \<Rightarrow> (u8 list \<Rightarrow> unit result) \<Rightarrow> destination \<Rightarrow> u8 list option \<Rightarrow>
   http2_in_tunnel \<Rightarrow> (http_request result \<times> http2_in_tunnel) option" where
  "h2_connect lib send write destination sniff_buffer t =
     (let t = count_stream t in
      case connect_request lib destination of
        None \<Rightarrow> None
      | Some request \<Rightarrow>
          if \<not> h2_request_sender t
          then Some (Inl (Msg (tun_type (h2_tunnel t) @ '' connection no longer available.'')), t)
          else case send of
                 Inl e \<Rightarrow> Some (Inl e, t)
               | Inr _ \<Rightarrow>
                   (case (case sniff_buffer of None \<Rightarrow> Inr () | Some buffer \<Rightarrow> write buffer) of
                      Inl e \<Rightarrow> Some (Inl e, t)
                    | Inr _ \<Rightarrow>
                        Some (Inr request, t\<lparr>h2_active_streams := h2_active_streams t + 1,
                          h2_stream_tasks := h2_stream_tasks t + 1\<rparr>)))"

text \<open>A stream's task, when the \<open>stream_closed\<close> sender has been used or dropped.\<close>

definition h2_stream_closed :: "http2_in_tunnel \<Rightarrow> http2_in_tunnel option" where
  "h2_stream_closed t =
     (if h2_stream_tasks t = 0 then None
      else let active_streams = h2_active_streams t - 1 in
        Some (t\<lparr>h2_active_streams := active_streams, h2_stream_tasks := h2_stream_tasks t - 1,
          h2_request_sender :=
            (if \<not> h2_active_permit t \<and> active_streams = 0 then False else h2_request_sender t)\<rparr>))"

text \<open>The driver; its first step is the end of the connection. \<open>notify_waiters\<close> wakes only those
  that wait already.\<close>

definition h2_drive :: "http2_in_tunnel \<Rightarrow> http2_in_tunnel option" where
  "h2_drive t =
     (case h2_driver t of
        Driving \<Rightarrow> Some (t\<lparr>h2_active_permit := False, h2_driver := PermitTaken\<rparr>)
      | PermitTaken \<Rightarrow> Some (t\<lparr>h2_closed := True, h2_driver := ClosedStored\<rparr>)
      | ClosedStored \<Rightarrow> Some (t\<lparr>h2_woken := h2_woken t + h2_waiting t, h2_waiting := 0,
          h2_driver := DriverDone\<rparr>)
      | DriverDone \<Rightarrow> None)"

definition h2_set_active_permit :: "http2_in_tunnel \<Rightarrow> http2_in_tunnel" where
  "h2_set_active_permit t = t\<lparr>h2_active_permit := True\<rparr>"

definition h2_is_active :: "http2_in_tunnel \<Rightarrow> bool" where
  "h2_is_active t \<longleftrightarrow> h2_active_permit t"

definition h2_is_closed :: "http2_in_tunnel \<Rightarrow> bool" where
  "h2_is_closed t \<longleftrightarrow> h2_closed t"

text \<open>\<open>closed().await\<close> starts to wait for the next notification.\<close>

definition h2_await_closed :: "http2_in_tunnel \<Rightarrow> http2_in_tunnel" where
  "h2_await_closed t = t\<lparr>h2_waiting := h2_waiting t + 1\<rparr>"

text \<open>The tunnel's own steps, and those of its user.\<close>

inductive h2_step :: "http2_in_tunnel \<Rightarrow> http2_in_tunnel \<Rightarrow> bool" where
  connect: "h2_connect lib send write destination sniff_buffer t = Some (r, t') \<Longrightarrow> h2_step t t'"
| stream_closed: "h2_stream_closed t = Some t' \<Longrightarrow> h2_step t t'"
| drive: "h2_drive t = Some t' \<Longrightarrow> h2_step t t'"

inductive_cases h2_stepE: "h2_step t t'"

inductive h2_reachable :: "http2_in_tunnel \<Rightarrow> bool" where
  new: "h2_reachable (http2_in_tunnel_new tunnel)"
| step: "h2_reachable t \<Longrightarrow> h2_step t t' \<Longrightarrow> h2_reachable t'"
| permit: "h2_reachable t \<Longrightarrow> h2_reachable (h2_set_active_permit t)"
| await: "h2_reachable t \<Longrightarrow> h2_reachable (h2_await_closed t)"

section \<open>The OUT tunnel\<close>

record http2_out_tunnel =
  h2_out_id :: tunnel_id
  h2_out_closed :: bool

datatype accept_event = AcceptRequest http_request "unit result" | AcceptError error | AcceptEnd

text \<open>\<open>accept\<close> on the request that the connection yields next; the second argument of
  \<open>AcceptRequest\<close> is what \<open>send_response\<close> answers.\<close>

definition h2_destination :: "header_lib \<Rightarrow> http_request \<Rightarrow> destination result" where
  "h2_destination lib request =
     (case Option.bind (header_str lib (rq_address request)) parse_socket_addr of
        None \<Rightarrow> Inl (Msg ''missing X-Address header.'')
      | Some address \<Rightarrow>
          Inr (address, Option.bind (rq_name request) (header_str lib),
            Option.bind (rq_tag request) (header_str lib)))"

definition h2_accept ::
  "header_lib \<Rightarrow> string \<Rightarrow> accept_event \<Rightarrow> http2_out_tunnel \<Rightarrow> destination result \<times> http2_out_tunnel" where
  "h2_accept lib tunnel_type event t =
     (let result =
        (case event of
           AcceptRequest request response \<Rightarrow>
             (case h2_destination lib request of
                Inl e \<Rightarrow> Inl e
              | Inr destination \<Rightarrow> (case response of Inl e \<Rightarrow> Inl e | Inr _ \<Rightarrow> Inr destination))
         | AcceptError e \<Rightarrow> Inl e
         | AcceptEnd \<Rightarrow> Inl (Msg (tunnel_type @ '' connection closed.'')))
      in (result, case result of Inl _ \<Rightarrow> t\<lparr>h2_out_closed := True\<rparr> | Inr _ \<Rightarrow> t))"

section \<open>Window sizes\<close>

definition min_window_size :: u32 where
  "min_window_size = 4 * 1024 * 1024"

text \<open>
  The stream and connection windows set for a receive buffer size, \<^const>\<open>None\<close> when it has not
  changed, and the recorded size.
\<close>

definition set_window_size :: "u32 \<Rightarrow> u32 \<Rightarrow> (u32 \<times> u32) option \<times> u32" where
  "set_window_size recorded_receive_buffer_size receive_buffer_size =
     (if recorded_receive_buffer_size = receive_buffer_size
      then (None, recorded_receive_buffer_size)
      else (Some (receive_buffer_size, max receive_buffer_size min_window_size * 4), receive_buffer_size))"

section \<open>The contract of an IN tunnel\<close>

lemma count_stream_simps [simp]:
  "h2_tunnel (count_stream t) = h2_tunnel t"
  "h2_request_sender (count_stream t) = h2_request_sender t"
  "h2_active_streams (count_stream t) = h2_active_streams t"
  "h2_stream_tasks (count_stream t) = h2_stream_tasks t"
  "h2_closed (count_stream t) = h2_closed t"
  "h2_driver (count_stream t) = h2_driver t"
  "h2_waiting (count_stream t) = h2_waiting t"
  "h2_woken (count_stream t) = h2_woken t"
  "h2_lifetime_streams (count_stream t) = h2_lifetime_streams t + 1"
  "h2_active_permit (count_stream t) \<longleftrightarrow>
     h2_active_permit t \<and> h2_lifetime_streams t + 1 \<noteq> lifetime_streams_limit"
  by (simp_all add: count_stream_def Let_def)

text \<open>What a connect changes beside the counters.\<close>

definition connected :: "http2_in_tunnel \<Rightarrow> http2_in_tunnel" where
  "connected t = t\<lparr>h2_active_streams := h2_active_streams t + 1, h2_stream_tasks := h2_stream_tasks t + 1\<rparr>"

lemma h2_connect_eq:
  "h2_connect lib send write d sniff t =
     (case connect_request lib d of
        None \<Rightarrow> None
      | Some rq \<Rightarrow>
          if \<not> h2_request_sender t
          then Some (Inl (Msg (tun_type (h2_tunnel t) @ '' connection no longer available.'')), count_stream t)
          else case send of
                 Inl e \<Rightarrow> Some (Inl e, count_stream t)
               | Inr _ \<Rightarrow>
                   (case (case sniff of None \<Rightarrow> Inr () | Some buffer \<Rightarrow> write buffer) of
                      Inl e \<Rightarrow> Some (Inl e, count_stream t)
                    | Inr _ \<Rightarrow> Some (Inr rq, connected (count_stream t))))"
  unfolding h2_connect_def connected_def Let_def count_stream_simps ..

lemma h2_connect_result:
  assumes "h2_connect lib send write d sniff t = Some (r, t')"
  shows "(t' = count_stream t \<and> (\<exists>e. r = Inl e)) \<or>
    (\<exists>rq. connect_request lib d = Some rq \<and> r = Inr rq \<and> h2_request_sender t \<and> t' = connected (count_stream t))"
proof (cases "connect_request lib d")
  case None
  then show ?thesis using assms by (simp add: h2_connect_eq)
next
  case rq: (Some rq)
  show ?thesis
  proof (cases "h2_request_sender t")
    case False
    then show ?thesis using assms rq by (auto simp: h2_connect_eq)
  next
    case sender: True
    show ?thesis
    proof (cases send)
      case (Inl e)
      then show ?thesis using assms rq sender by (auto simp: h2_connect_eq)
    next
      case (Inr u)
      then show ?thesis
        using assms rq sender
        by (cases "case sniff of None \<Rightarrow> Inr () | Some buffer \<Rightarrow> write buffer") (auto simp: h2_connect_eq)
    qed
  qed
qed

lemma h2_connect_cases:
  assumes "h2_connect lib send write d sniff t = Some (r, t')"
  obtains e where "t' = count_stream t" "r = Inl e"
  | rq where "connect_request lib d = Some rq" "r = Inr rq" "h2_request_sender t"
      "t' = connected (count_stream t)"
  using h2_connect_result [OF assms] by blast

lemma connected_simps [simp]:
  "h2_active_permit (connected t) = h2_active_permit t" "h2_closed (connected t) = h2_closed t"
  "h2_driver (connected t) = h2_driver t" "h2_waiting (connected t) = h2_waiting t"
  "h2_woken (connected t) = h2_woken t" "h2_request_sender (connected t) = h2_request_sender t"
  "h2_lifetime_streams (connected t) = h2_lifetime_streams t"
  "h2_active_streams (connected t) = h2_active_streams t + 1"
  "h2_stream_tasks (connected t) = h2_stream_tasks t + 1"
  by (simp_all add: connected_def)

interpretation h2_in: in_tunnel_trait h2_set_active_permit h2_is_active h2_is_closed h2_step "\<lambda>_. True"
proof unfold_locales
  fix t t'
  assume step: "h2_step t t'"
  have "(h2_active_permit t' \<longrightarrow> h2_active_permit t) \<and> (h2_closed t \<longrightarrow> h2_closed t')"
    using step
    by cases (auto elim!: h2_connect_cases simp: h2_stream_closed_def h2_drive_def Let_def
        split: if_splits driver.splits)
  then show "h2_is_active t' \<Longrightarrow> h2_is_active t" "h2_is_closed t \<Longrightarrow> h2_is_closed t'"
    by (simp_all add: h2_is_active_def h2_is_closed_def)
qed (simp_all add: h2_set_active_permit_def h2_is_active_def h2_is_closed_def)

section \<open>Counting streams\<close>

text \<open>The counter of active streams is the number of their tasks.\<close>

definition streams_inv :: "http2_in_tunnel \<Rightarrow> bool" where
  "streams_inv t \<longleftrightarrow> h2_active_streams t = of_nat (h2_stream_tasks t)"

lemma h2_step_streams: "h2_step t t' \<Longrightarrow> streams_inv t \<Longrightarrow> streams_inv t'"
proof (erule h2_stepE)
  fix lib send wr d sniff r
  assume connect: "h2_connect lib send wr d sniff t = Some (r, t')" and inv: "streams_inv t"
  show "streams_inv t'"
    using connect by (rule h2_connect_cases) (use inv in \<open>simp_all add: streams_inv_def\<close>)
next
  assume "h2_stream_closed t = Some t'" "streams_inv t"
  then show "streams_inv t'"
    by (cases "h2_stream_tasks t") (auto simp: h2_stream_closed_def streams_inv_def Let_def)
next
  assume "h2_drive t = Some t'" "streams_inv t"
  then show "streams_inv t'"
    by (auto simp: h2_drive_def streams_inv_def split: driver.splits)
qed

lemma reachable_streams: "h2_reachable t \<Longrightarrow> streams_inv t"
  by (induction rule: h2_reachable.induct)
    (auto simp: streams_inv_def http2_in_tunnel_new_def h2_set_active_permit_def h2_await_closed_def
      dest: h2_step_streams [unfolded streams_inv_def])

section \<open>The end of the driver\<close>

lemma h2_step_driver_done:
  assumes "h2_step t t'" "h2_driver t = DriverDone"
  shows "h2_driver t' = DriverDone \<and> h2_waiting t' = h2_waiting t \<and> h2_woken t' = h2_woken t"
  using assms(1)
proof cases
  case (connect lib send wr d sniff r)
  from connect show ?thesis by (rule h2_connect_cases) (use assms(2) in simp_all)
next
  case stream_closed
  then show ?thesis using assms(2) by (auto simp: h2_stream_closed_def Let_def split: if_splits)
next
  case drive
  then show ?thesis using assms(2) by (simp add: h2_drive_def)
qed

lemma h2_steps_driver_done:
  assumes "h2_step\<^sup>*\<^sup>* t t'" "h2_driver t = DriverDone"
  shows "h2_driver t' = DriverDone \<and> h2_waiting t' = h2_waiting t \<and> h2_woken t' = h2_woken t"
  using assms by (induction rule: rtranclp_induct) (auto dest: h2_step_driver_done)

section \<open>Lifetimes\<close>

text \<open>Connects one after the other: what each is given.\<close>

record connect_call =
  call_send :: "unit result"
  call_write :: "u8 list \<Rightarrow> unit result"
  call_destination :: destination
  call_sniff :: "u8 list option"

fun h2_connect_all :: "header_lib \<Rightarrow> connect_call list \<Rightarrow> http2_in_tunnel \<Rightarrow> http2_in_tunnel option" where
  "h2_connect_all lib [] t = Some t"
| "h2_connect_all lib (c # cs) t =
     Option.bind (h2_connect lib (call_send c) (call_write c) (call_destination c) (call_sniff c) t)
       (\<lambda>(_, t'). h2_connect_all lib cs t')"

lemma h2_connect_counts:
  assumes "h2_connect lib send write d sniff t = Some (r, t')"
  shows "h2_lifetime_streams t' = h2_lifetime_streams t + 1 \<and>
    h2_active_permit t' = (h2_active_permit t \<and> h2_lifetime_streams t + 1 \<noteq> lifetime_streams_limit)"
  using assms by (rule h2_connect_cases) simp_all

lemma h2_connect_all_counts:
  assumes "h2_connect_all lib cs t = Some t'" "h2_lifetime_streams t = of_nat n" "n + length cs < 2 ^ 64"
  shows "h2_is_active t' \<longleftrightarrow> h2_is_active t \<and> \<not> (n < 4096 \<and> 4096 \<le> n + length cs)"
  using assms
proof (induction cs arbitrary: t n)
  case (Cons c cs)
  obtain r t1 where first: "h2_connect lib (call_send c) (call_write c) (call_destination c) (call_sniff c) t = Some (r, t1)"
    and rest: "h2_connect_all lib cs t1 = Some t'"
    using Cons.prems(1) by (auto split: bind_splits)
  have counts: "h2_lifetime_streams t1 = of_nat (Suc n)"
    "h2_is_active t1 \<longleftrightarrow> h2_is_active t \<and> of_nat (Suc n) \<noteq> lifetime_streams_limit"
    using h2_connect_counts [OF first] Cons.prems(2) by (simp_all add: h2_is_active_def add.commute)
  have "(of_nat (Suc n) :: usize) = lifetime_streams_limit \<longleftrightarrow> Suc n = 4096"
  proof -
    have "unat (of_nat (Suc n) :: usize) = Suc n"
      using Cons.prems(3) by (simp add: unat_of_nat del: of_nat_Suc)
    moreover have "unat lifetime_streams_limit = 4096" by (simp add: lifetime_streams_limit_def)
    ultimately show ?thesis by (metis word_unat_eq_iff)
  qed
  moreover have "h2_is_active t' \<longleftrightarrow> h2_is_active t1 \<and> \<not> (Suc n < 4096 \<and> 4096 \<le> Suc n + length cs)"
    by (rule Cons.IH [OF rest counts(1)]) (use Cons.prems(3) in simp)
  ultimately show ?case using counts(2) by auto
qed simp

section \<open>Headers\<close>

lemma digit_char_header: "d < 36 \<Longrightarrow> visible_header_char (digit_char d)"
  by (simp add: visible_header_char_def of_char_digit_char)

lemma show_digits_header: "2 \<le> radix \<Longrightarrow> radix \<le> 36 \<Longrightarrow> list_all visible_header_char (show_digits radix n)"
  using digits_of_less [of radix _ n] digit_char_header
  by (force simp: show_digits_map list_all_iff)

lemma separators_header [simp]:
  "visible_header_char CHR '':''" "visible_header_char CHR ''.''" "visible_header_char CHR ''[''"
  "visible_header_char CHR '']''" "visible_header_char CHR ''%''" "visible_header_char CHR ''f''"
  by (simp_all add: visible_header_char_def)

lemma show_segments_header: "list_all visible_header_char (show_segments gs)"
  by (induction gs rule: show_segments.induct) (simp_all add: show_digits_header)

lemma show_ipv4_header: "list_all visible_header_char (show_ipv4 ip)"
  by (simp add: show_ipv4_def show_digits_header)

lemma show_ipv6_header: "list_all visible_header_char (show_ipv6 ip)"
  by (simp add: show_ipv6_def show_ipv4_header show_segments_header Let_def split: prod.splits)

lemma show_socket_addr_header: "list_all visible_header_char (show_socket_addr a)"
  by (cases a) (simp_all add: show_ipv4_header show_ipv6_header show_digits_header)

lemma visible_legal: "list_all visible_header_char s \<Longrightarrow> list_all legal_header_char s"
  by (auto simp: list_all_iff visible_header_char_def legal_header_char_def)

text \<open>What a header value carries of a text.\<close>

definition visible_text :: "string option \<Rightarrow> string option" where
  "visible_text t = (case t of Some s \<Rightarrow> if list_all visible_header_char s then Some s else None | None \<Rightarrow> None)"

lemma h2_accept_request:
  assumes "header_law lib" and "connect_request lib (a, name, tag) = Some request"
  shows "h2_accept lib tunnel_type (AcceptRequest request (Inr ())) t =
    (Inr (sa_printed a, visible_text name, visible_text tag), t)"
proof -
  have rq: "rq_address request = show_socket_addr a" "rq_name request = name" "rq_tag request = tag"
    using assms(2) by (auto simp: connect_request_def split: if_splits)
  have "Option.bind t (header_str lib) = visible_text t" for t
    using assms(1) by (cases t) (auto simp: header_law_def visible_text_def)
  moreover have "Option.bind (header_str lib (rq_address request)) parse_socket_addr = Some (sa_printed a)"
    using assms(1) rq(1) by (simp add: header_law_def show_socket_addr_header parse_show_socket_addr)
  ultimately show ?thesis by (simp add: h2_accept_def h2_destination_def rq)
qed

definition example_h2_tunnel :: in_tunnel where
  "example_h2_tunnel =
    \<lparr> tun_type = ''http2'', tun_id = TunnelId 7, tun_out_id = MatchOutId 1, tun_labels = [], tun_priority = 0 \<rparr>"

definition example_headers :: header_lib where
  "example_headers = \<lparr> header_ok = list_all legal_header_char,
     header_str = (\<lambda>s. if list_all visible_header_char s then Some s else None) \<rparr>"

lemma example_headers [simp]: "header_law example_headers"
  by (simp add: header_law_def example_headers_def)

section \<open>Properties\<close>

text \<open>What the OUT end reads from a request that the IN end has built is its destination: the
  address with its scope id but without flow info, the name and the tag when they are visible
  ASCII; a name or tag with other characters is lost.\<close>

theorem http2_request_roundtrip:
  assumes "header_law lib" and "connect_request lib (a, name, tag) = Some request"
  shows "h2_accept lib tunnel_type (AcceptRequest request (Inr ())) t =
    (Inr (sa_printed a, visible_text name, visible_text tag), t)"
  using assms by (rule h2_accept_request)

theorem http2_request_roundtrip_witness:
  "h2_accept example_headers ''http2'' (AcceptRequest
      \<lparr> rq_address = show_socket_addr (SockV4 0x01020304 443), rq_name = Some ''a.com'', rq_tag = None \<rparr> (Inr ()))
      \<lparr> h2_out_id = TunnelId 1, h2_out_closed = False \<rparr> =
    (Inr (sa_printed (SockV4 0x01020304 443), visible_text (Some ''a.com''), visible_text None),
      \<lparr> h2_out_id = TunnelId 1, h2_out_closed = False \<rparr>)"
proof (rule http2_request_roundtrip [OF example_headers])
  show "connect_request example_headers (SockV4 0x01020304 443, Some ''a.com'', None) =
      Some \<lparr> rq_address = show_socket_addr (SockV4 0x01020304 443), rq_name = Some ''a.com'', rq_tag = None \<rparr>"
    using visible_legal [OF show_socket_addr_header, of "SockV4 0x01020304 443"]
    by (simp add: connect_request_def example_headers_def legal_header_char_def)
qed

text \<open>A connect panics, which ends the whole program, exactly when the name or the tag has a
  character that a header value cannot carry, such as a control character in a sniffed name.\<close>

theorem connect_panics_iff:
  assumes "header_law lib"
  shows "h2_connect lib send write (a, name, tag) sniff t = None \<longleftrightarrow>
    (\<exists>s \<in> set_option name \<union> set_option tag. \<exists>c \<in> set s. \<not> legal_header_char c)"
proof -
  have "h2_connect lib send write (a, name, tag) sniff t = None \<longleftrightarrow> connect_request lib (a, name, tag) = None"
    by (auto simp: h2_connect_eq split: option.splits sum.splits)
  also have "\<dots> \<longleftrightarrow> (\<exists>s \<in> set_option name \<union> set_option tag. \<exists>c \<in> set s. \<not> legal_header_char c)"
    using assms visible_legal [OF show_socket_addr_header, of a]
    by (cases name; cases tag) (auto simp: connect_request_def header_law_def list_all_iff)
  finally show ?thesis .
qed

theorem connect_panics_iff_witness:
  "h2_connect example_headers (Inr ()) (\<lambda>_. Inr ()) (SockV4 1 443, Some [CHR 0x01], None) None
      (http2_in_tunnel_new example_h2_tunnel) = None \<longleftrightarrow>
    (\<exists>s \<in> set_option (Some [CHR 0x01]) \<union> set_option None. \<exists>c \<in> set s. \<not> legal_header_char c)"
  by (rule connect_panics_iff) simp

text \<open>A tunnel that got its permit stays active for 4095 connects, failed ones included, and the
  4096th retires it for good.\<close>

theorem lifetime_limit:
  assumes "h2_lifetime_streams t = 0" and "h2_is_active t" and "length calls < 2 ^ 64"
    and "h2_connect_all lib calls t = Some t'"
  shows "h2_is_active t' \<longleftrightarrow> length calls < 4096"
  using h2_connect_all_counts [OF assms(4), of 0] assms(1-3) by auto

theorem lifetime_limit_witness:
  "h2_is_active (count_stream (h2_set_active_permit (http2_in_tunnel_new example_h2_tunnel))) \<longleftrightarrow>
     length [\<lparr> call_send = Inl Elapsed, call_write = \<lambda>_. Inr (), call_destination = (SockV4 1 443, None, None),
       call_sniff = None \<rparr>] < 4096"
proof (rule lifetime_limit)
  show "h2_connect_all example_headers [\<lparr> call_send = Inl Elapsed, call_write = \<lambda>_. Inr (),
      call_destination = (SockV4 1 443, None, None), call_sniff = None \<rparr>]
      (h2_set_active_permit (http2_in_tunnel_new example_h2_tunnel)) =
    Some (count_stream (h2_set_active_permit (http2_in_tunnel_new example_h2_tunnel)))"
    using visible_legal [OF show_socket_addr_header, of "SockV4 1 443"]
    by (simp add: h2_connect_eq connect_request_def example_headers_def h2_set_active_permit_def
        http2_in_tunnel_new_def)
qed (simp_all add: h2_set_active_permit_def http2_in_tunnel_new_def h2_is_active_def)

text \<open>A retired tunnel lets go of its connection as soon as its last stream closes, and not while
  one is open: the counter of active streams is exact in every reachable state.\<close>

theorem retired_tunnel_closes_with_last_stream:
  assumes "h2_reachable t" and "h2_stream_tasks t < 2 ^ 64" and "h2_stream_closed t = Some t'"
    and "\<not> h2_is_active t" and "h2_request_sender t"
  shows "h2_request_sender t' \<longleftrightarrow> h2_stream_tasks t' \<noteq> 0"
proof -
  obtain n where n: "h2_stream_tasks t = Suc n" using assms(3) by (cases "h2_stream_tasks t") (auto simp: h2_stream_closed_def)
  have "h2_active_streams t - 1 = of_nat n"
    using reachable_streams [OF assms(1)] n by (simp add: streams_inv_def)
  moreover have "(of_nat n :: usize) = 0 \<longleftrightarrow> n = 0"
    using assms(2) n by (auto simp: word_of_nat_eq_0_iff dest: dvd_imp_le)
  ultimately show ?thesis
    using assms(3-5) n by (auto simp: h2_stream_closed_def h2_is_active_def Let_def)
qed

definition example_one_stream :: http2_in_tunnel where
  "example_one_stream = (http2_in_tunnel_new example_h2_tunnel)
     \<lparr>h2_lifetime_streams := 1, h2_active_streams := 1, h2_stream_tasks := 1\<rparr>"

lemma example_one_stream_reachable: "h2_reachable example_one_stream"
proof -
  let ?new = "http2_in_tunnel_new example_h2_tunnel"
  have "h2_connect example_headers (Inr ()) (\<lambda>_. Inr ()) (SockV4 1 443, None, None) None ?new =
      Some (Inr \<lparr> rq_address = show_socket_addr (SockV4 1 443), rq_name = None, rq_tag = None \<rparr>, example_one_stream)"
    using visible_legal [OF show_socket_addr_header, of "SockV4 1 443"]
    by (simp add: h2_connect_eq connect_request_def example_headers_def connected_def count_stream_def
        http2_in_tunnel_new_def example_one_stream_def lifetime_streams_limit_def)
  then show ?thesis by (blast intro: h2_reachable.intros h2_step.connect)
qed

theorem retired_tunnel_closes_with_last_stream_witness:
  "h2_request_sender (example_one_stream\<lparr>h2_active_streams := 0, h2_stream_tasks := 0, h2_request_sender := False\<rparr>) \<longleftrightarrow>
     h2_stream_tasks (example_one_stream\<lparr>h2_active_streams := 0, h2_stream_tasks := 0, h2_request_sender := False\<rparr>) \<noteq> 0"
  by (rule retired_tunnel_closes_with_last_stream [OF example_one_stream_reachable])
    (simp_all add: example_one_stream_def http2_in_tunnel_new_def h2_stream_closed_def h2_is_active_def)

text \<open>A connection that ends before the manager starts to wait for it is never noticed: from such
  a state, which is reachable, the tunnel is closed, its permit makes it count as active, and no
  step of the tunnel ever wakes the waiting task, so the tunnel stays in the maps.\<close>

theorem early_close_is_lost:
  "\<exists>t. h2_reachable t \<and> h2_is_closed t \<and> h2_is_active t \<and> h2_waiting t = 1 \<and>
     (\<forall>t'. h2_step\<^sup>*\<^sup>* t t' \<longrightarrow> h2_is_closed t' \<and> h2_waiting t' = 1 \<and> h2_woken t' = 0)"
proof -
  fix tunnel :: in_tunnel
  let ?new = "http2_in_tunnel_new tunnel"
  let ?t1 = "?new\<lparr>h2_active_permit := False, h2_driver := PermitTaken\<rparr>"
  let ?t2 = "?t1\<lparr>h2_closed := True, h2_driver := ClosedStored\<rparr>"
  let ?t3 = "?t2\<lparr>h2_woken := 0, h2_waiting := 0, h2_driver := DriverDone\<rparr>"
  let ?t = "h2_await_closed (h2_set_active_permit ?t3)"
  have "h2_drive ?new = Some ?t1" "h2_drive ?t1 = Some ?t2" "h2_drive ?t2 = Some ?t3"
    by (simp_all add: h2_drive_def http2_in_tunnel_new_def)
  then have "h2_step ?new ?t1" "h2_step ?t1 ?t2" "h2_step ?t2 ?t3"
    by (auto intro: h2_step.drive)
  then have "h2_reachable ?t3" by (meson h2_reachable.new h2_reachable.step)
  then have reach: "h2_reachable ?t" by (intro h2_reachable.await h2_reachable.permit)
  have t: "h2_is_closed ?t" "h2_is_active ?t" "h2_waiting ?t = 1" "h2_woken ?t = 0" "h2_driver ?t = DriverDone"
    by (simp_all add: h2_is_closed_def h2_is_active_def h2_await_closed_def h2_set_active_permit_def
        http2_in_tunnel_new_def)
  have "h2_is_closed t' \<and> h2_waiting t' = 1 \<and> h2_woken t' = 0" if "h2_step\<^sup>*\<^sup>* ?t t'" for t'
    using h2_steps_driver_done [OF that t(5)] h2_in.closed_forever [OF that TrueI t(1)] t by simp
  then show ?thesis using reach t by blast
qed

theorem early_close_is_lost_witness:
  "\<exists>t. h2_reachable t \<and> h2_is_closed t \<and> h2_is_active t \<and> h2_waiting t = 1 \<and> h2_woken t = 0"
  using early_close_is_lost by blast

text \<open>A 4096th connect that fails on an idle tunnel retires it without a stream whose end would
  release the connection: the tunnel is inactive, keeps its connection, and has no task left.\<close>

theorem failing_last_connect_leaks:
  assumes "h2_lifetime_streams t = 4095" and "h2_stream_tasks t = 0" and "h2_request_sender t"
    and "connect_request lib d = Some request"
  shows "\<exists>t'. h2_connect lib (Inl e) write d sniff t = Some (Inl e, t') \<and>
    \<not> h2_is_active t' \<and> h2_request_sender t' \<and> h2_stream_closed t' = None"
  using assms
  by (simp add: h2_connect_eq h2_is_active_def h2_stream_closed_def lifetime_streams_limit_def)

theorem failing_last_connect_leaks_witness:
  "\<exists>t'. h2_connect example_headers (Inl Elapsed) (\<lambda>_. Inr ()) (SockV4 1 443, None, None) None
      ((http2_in_tunnel_new example_h2_tunnel)\<lparr>h2_lifetime_streams := 4095\<rparr>) = Some (Inl Elapsed, t') \<and>
    \<not> h2_is_active t' \<and> h2_request_sender t' \<and> h2_stream_closed t' = None"
  by (rule failing_last_connect_leaks)
    (use visible_legal [OF show_socket_addr_header, of "SockV4 1 443"] in
      \<open>simp_all add: http2_in_tunnel_new_def connect_request_def example_headers_def\<close>)

text \<open>For receive buffers below 512 MiB the connection window is four times the larger of the
  buffer and 4 MiB, never smaller than the stream window and within the protocol's limit; from
  1 GiB on the multiplication wraps, down to a window of zero.\<close>

theorem window_sizes_bounded:
  "(uint rcvbuf < 2 ^ 29 \<longrightarrow> recorded \<noteq> rcvbuf \<longrightarrow> (\<exists>stream connection.
       set_window_size recorded rcvbuf = (Some (stream, connection), rcvbuf) \<and> stream = rcvbuf \<and>
       uint connection = 4 * max (uint rcvbuf) (2 ^ 22) \<and> stream \<le> connection \<and> uint connection < 2 ^ 31)) \<and>
   set_window_size 0 0x40000000 = (Some (0x40000000, 0), 0x40000000)"
proof (rule conjI, intro impI)
  assume size: "uint rcvbuf < 2 ^ 29" and "recorded \<noteq> rcvbuf"
  let ?m = "max rcvbuf min_window_size"
  have m: "uint ?m = max (uint rcvbuf) (2 ^ 22)"
    by (simp add: max_def word_le_def min_window_size_def)
  have "uint (?m * 4) = uint ?m * 4 mod 2 ^ 32" by (simp add: uint_word_ariths)
  also have "\<dots> = 4 * max (uint rcvbuf) (2 ^ 22)" unfolding m using size by simp
  finally have c: "uint (?m * 4) = 4 * max (uint rcvbuf) (2 ^ 22)" .
  have "rcvbuf \<le> ?m * 4" unfolding word_le_def c by simp
  moreover have "uint (?m * 4) < 2 ^ 31" unfolding c using size by simp
  ultimately show "\<exists>stream connection.
       set_window_size recorded rcvbuf = (Some (stream, connection), rcvbuf) \<and> stream = rcvbuf \<and>
       uint connection = 4 * max (uint rcvbuf) (2 ^ 22) \<and> stream \<le> connection \<and> uint connection < 2 ^ 31"
    using \<open>recorded \<noteq> rcvbuf\<close> c by (simp add: set_window_size_def)
next
  show "set_window_size 0 0x40000000 = (Some (0x40000000, 0), 0x40000000)"
    by (simp add: set_window_size_def min_window_size_def max_def)
qed

end
