(* ===== verification/Fake_Ip.thy ===== *)
theory Fake_Ip
  imports Bytes "HOL-Library.More_List"
begin

text \<open>
  The fake-IP DNS (\<open>src/lib/in/fake_ip_dns/fake_authority.rs\<close>, \<open>fake_ip_resolver.rs\<close>): the table
  of records in SQLite, the assignment of a fake address to a name, the DNS answers built with it
  and the translation of a fake address back.

  The table is a list of rows and the AUTOINCREMENT sequence. SQLite does not fix the order of the
  rows of a query beyond its ORDER BY, so the operations take an order \<open>ord\<close>. Times are the
  milliseconds of \<open>ms_since_epoch\<close>; arithmetic on addresses wraps as in a release build.
\<close>

section \<open>The table\<close>

datatype record_type = TypeA | TypeAAAA

record fake_record =
  rec_id :: i64
  rec_type :: record_type
  rec_name :: string
  rec_real_ip :: "u8 list"
  rec_expires_at :: nat

record fake_db =
  db_rows :: "fake_record list"
  db_seq :: i64

definition fake_db_new :: fake_db where
  "fake_db_new = \<lparr> db_rows = [], db_seq = 0 \<rparr>"

definition fake_ip_expiration_time_in_ms :: nat where
  "fake_ip_expiration_time_in_ms = 86400000 * 7"

definition fake_ip_v4_start :: u32 where
  "fake_ip_v4_start = 0xC6120000"

definition fake_ip_v6_start :: u128 where
  "fake_ip_v6_start = 0x20010DB8000000000000000000000000"

section \<open>Assigning\<close>

text \<open>\<open>id as u32\<close> truncates, \<open>id as u128\<close> extends the sign.\<close>

definition convert_id_to_fake_ip :: "i64 \<Rightarrow> ip_addr \<Rightarrow> ip_addr" where
  "convert_id_to_fake_ip i real_ip =
     (case real_ip of
        IpV4 _ \<Rightarrow> IpV4 (fake_ip_v4_start + ucast i)
      | IpV6 _ \<Rightarrow> IpV6 (fake_ip_v6_start + scast i))"

fun ip_record_type :: "ip_addr \<Rightarrow> record_type" where
  "ip_record_type (IpV4 _) = TypeA"
| "ip_record_type (IpV6 _) = TypeAAAA"

definition select_matching ::
  "(fake_record list \<Rightarrow> fake_record list) \<Rightarrow> record_type \<Rightarrow> string \<Rightarrow> fake_db \<Rightarrow> i64 option" where
  "select_matching ord ty name db =
     map_option rec_id (find (\<lambda>r. rec_type r = ty \<and> rec_name r = name) (ord (db_rows db)))"

definition select_expired ::
  "(fake_record list \<Rightarrow> fake_record list) \<Rightarrow> nat \<Rightarrow> fake_db \<Rightarrow> i64 option" where
  "select_expired ord now db =
     (case sort_key rec_expires_at (filter (\<lambda>r. rec_expires_at r \<le> now) (ord (db_rows db))) of
        [] \<Rightarrow> None
      | r # _ \<Rightarrow> Some (rec_id r))"

definition update_row :: "i64 \<Rightarrow> (fake_record \<Rightarrow> fake_record) \<Rightarrow> fake_db \<Rightarrow> fake_db" where
  "update_row i f db = db\<lparr>db_rows := map (\<lambda>r. if rec_id r = i then f r else r) (db_rows db)\<rparr>"

text \<open>
  An INSERT takes the next id of the sequence and fails (a panic of \<open>unwrap\<close>) when there is none.
\<close>

definition insert_row ::
  "record_type \<Rightarrow> string \<Rightarrow> u8 list \<Rightarrow> nat \<Rightarrow> fake_db \<Rightarrow> (i64 \<times> fake_db) option" where
  "insert_row ty name octets expires_at db =
     (if db_seq db = i64_max then None
      else let i = db_seq db + 1 in
        Some (i, db\<lparr>db_rows := db_rows db @ [\<lparr> rec_id = i, rec_type = ty, rec_name = name,
                rec_real_ip = octets, rec_expires_at = expires_at \<rparr>],
              db_seq := i\<rparr>))"

definition assign_fake_ip ::
  "(fake_record list \<Rightarrow> fake_record list) \<Rightarrow> nat \<Rightarrow> string \<Rightarrow> ip_addr \<Rightarrow> fake_db \<Rightarrow>
   (ip_addr \<times> fake_db) option" where
  "assign_fake_ip ord now name real_ip db =
     (let ty = ip_record_type real_ip;
          octets = ip_octets real_ip;
          expires_at = now + fake_ip_expiration_time_in_ms
      in case select_matching ord ty name db of
           Some i \<Rightarrow>
             Some (convert_id_to_fake_ip i real_ip,
               update_row i (\<lambda>r. r\<lparr>rec_real_ip := octets, rec_expires_at := expires_at\<rparr>) db)
         | None \<Rightarrow>
             (case select_expired ord now db of
                Some i \<Rightarrow>
                  Some (convert_id_to_fake_ip i real_ip,
                    update_row i (\<lambda>r. r\<lparr>rec_type := ty, rec_name := name, rec_real_ip := octets,
                      rec_expires_at := expires_at\<rparr>) db)
              | None \<Rightarrow>
                  map_option (\<lambda>(i, db'). (convert_id_to_fake_ip i real_ip, db'))
                    (insert_row ty name octets expires_at db)))"

section \<open>Resolving\<close>

text \<open>
  The two prefixes of the resolver (\<open>ipnet::Ipv4Net\<close>, \<open>Ipv6Net\<close>), with the behaviour of the
  library for the defaults \<open>198.18.0.0/15\<close> and \<open>2001:db8::/32\<close> of \<open>src/constants.rs\<close>.
\<close>

record fake_nets =
  net4_network :: u32
  net4_contains :: "u32 \<Rightarrow> bool"
  net6_network :: u128
  net6_contains :: "u128 \<Rightarrow> bool"

definition default_nets_law :: "fake_nets \<Rightarrow> bool" where
  "default_nets_law nets \<longleftrightarrow>
     net4_network nets = 0xC6120000 \<and>
     (\<forall>ip. net4_contains nets ip \<longleftrightarrow> 0xC6120000 \<le> ip \<and> ip \<le> 0xC613FFFF) \<and>
     net6_network nets = 0x20010DB8000000000000000000000000 \<and>
     (\<forall>ip. net6_contains nets ip \<longleftrightarrow>
        0x20010DB8000000000000000000000000 \<le> ip \<and> ip \<le> 0x20010DB8FFFFFFFFFFFFFFFFFFFFFFFF)"

definition trim_end_dots :: "string \<Rightarrow> string" where
  "trim_end_dots s = strip_while (\<lambda>c. c = CHR ''.'') s"

text \<open>The octets of a row read back; \<open>try_into().unwrap()\<close> panics on another length.\<close>

definition real_ip_of_octets :: "record_type \<Rightarrow> u8 list \<Rightarrow> ip_addr option" where
  "real_ip_of_octets ty octets =
     (case ty of
        TypeA \<Rightarrow> if length octets = 4 then Some (IpV4 (from_be octets)) else None
      | TypeAAAA \<Rightarrow> if length octets = 16 then Some (IpV6 (from_be octets)) else None)"

fun fake_ip_type_and_id :: "fake_nets \<Rightarrow> ip_addr \<Rightarrow> (record_type \<times> i64) option" where
  "fake_ip_type_and_id nets (IpV4 ip) =
     (if net4_contains nets ip then Some (TypeA, ucast (ip - net4_network nets)) else None)"
| "fake_ip_type_and_id nets (IpV6 ip) =
     (if net6_contains nets ip then Some (TypeAAAA, ucast (ip - net6_network nets)) else None)"

text \<open>\<open>resolve\<close>: the outer option is the panic.\<close>

definition resolve ::
  "(fake_record list \<Rightarrow> fake_record list) \<Rightarrow> fake_nets \<Rightarrow> fake_db \<Rightarrow> ip_addr \<Rightarrow>
   (ip_addr \<times> string option) option option" where
  "resolve ord nets db ip =
     (case fake_ip_type_and_id nets ip of
        Some (ty, i) \<Rightarrow>
          (case find (\<lambda>r. rec_type r = ty \<and> rec_id r = i) (ord (db_rows db)) of
             Some r \<Rightarrow>
               map_option (\<lambda>real_ip. Some (real_ip, Some (trim_end_dots (rec_name r))))
                 (real_ip_of_octets ty (rec_real_ip r))
           | None \<Rightarrow> Some None)
      | None \<Rightarrow> Some (Some (ip, None)))"

section \<open>DNS answers\<close>

text \<open>What a lookup uses of the DNS library's records.\<close>

datatype dns_type = DnsA | DnsAAAA | DnsHTTPS | DnsOther nat

datatype svc_key = KeyIpv4Hint | KeyIpv6Hint | KeyOther nat

datatype svc_value = ValIpv4Hint "u32 list" | ValIpv6Hint "u128 list" | ValOther string

record svcb =
  svc_priority :: u16
  target_name :: string
  svc_params :: "(svc_key \<times> svc_value) list"

datatype rdata = RDataA u32 | RDataAAAA u128 | RDataHTTPS svcb | RDataOther string

record dns_record =
  dns_name :: string
  dns_rr_type :: dns_type
  dns_class :: nat
  dns_ttl :: nat
  dns_data :: "rdata option"

definition fake_rdata :: "ip_addr \<Rightarrow> rdata" where
  "fake_rdata fake_ip = (case fake_ip of IpV4 ip \<Rightarrow> RDataA ip | IpV6 ip \<Rightarrow> RDataAAAA ip)"

text \<open>The address of an A or AAAA record that gets a fake one; \<^const>\<open>None\<close> lets the answer through.\<close>

fun fakeable_rdata :: "rdata \<Rightarrow> ip_addr option" where
  "fakeable_rdata (RDataA ip) = (if ipv4_is_private ip \<or> ipv4_is_loopback ip then None else Some (IpV4 ip))"
| "fakeable_rdata (RDataAAAA ip) = (if ipv6_is_loopback ip then None else Some (IpV6 ip))"
| "fakeable_rdata _ = None"

fun fakeable_hint :: "svc_key \<times> svc_value \<Rightarrow> ip_addr option" where
  "fakeable_hint (KeyIpv4Hint, ValIpv4Hint (ip # _)) =
     (if ipv4_is_private ip \<or> ipv4_is_loopback ip then None else Some (IpV4 ip))"
| "fakeable_hint (KeyIpv6Hint, ValIpv6Hint (ip # _)) =
     (if ipv6_is_loopback ip then None else Some (IpV6 ip))"
| "fakeable_hint _ = None"

definition fake_hint :: "ip_addr \<Rightarrow> svc_value" where
  "fake_hint fake_ip = (case fake_ip of IpV4 ip \<Rightarrow> ValIpv4Hint [ip] | IpV6 ip \<Rightarrow> ValIpv6Hint [ip])"

text \<open>
  The loop over the parameters of an HTTPS record: \<open>Some (None, _)\<close> is the early return of the
  upstream answer, with the fake addresses that were assigned before it.
\<close>

fun fake_svc_params ::
  "(fake_record list \<Rightarrow> fake_record list) \<Rightarrow> nat \<Rightarrow> string \<Rightarrow> (svc_key \<times> svc_value) list \<Rightarrow>
   (svc_key \<times> svc_value) list \<Rightarrow> fake_db \<Rightarrow>
   ((svc_key \<times> svc_value) list option \<times> fake_db) option" where
  "fake_svc_params ord now name acc [] db = Some (Some acc, db)"
| "fake_svc_params ord now name acc (param # params) db =
     (case fst param of
        KeyOther _ \<Rightarrow> fake_svc_params ord now name (acc @ [param]) params db
      | key \<Rightarrow>
          (case fakeable_hint param of
             None \<Rightarrow> Some (None, db)
           | Some real_ip \<Rightarrow>
               (case assign_fake_ip ord now name real_ip db of
                  None \<Rightarrow> None
                | Some (fake_ip, db) \<Rightarrow>
                    fake_svc_params ord now name (acc @ [(key, fake_hint fake_ip)]) params db)))"

definition lookup_address ::
  "(fake_record list \<Rightarrow> fake_record list) \<Rightarrow> nat \<Rightarrow> string \<Rightarrow> dns_type \<Rightarrow> dns_record list \<Rightarrow> fake_db \<Rightarrow>
   (dns_record list \<times> fake_db) option" where
  "lookup_address ord now name ty upstream db =
     (case find (\<lambda>r. dns_rr_type r = ty) upstream of
        None \<Rightarrow> Some (upstream, db)
      | Some upstream_record \<Rightarrow>
          Option.bind (dns_data upstream_record) (\<lambda>data.
            case fakeable_rdata data of
              None \<Rightarrow> Some (upstream, db)
            | Some real_ip \<Rightarrow>
                map_option (\<lambda>(fake_ip, db').
                    ([\<lparr> dns_name = name, dns_rr_type = ty, dns_class = dns_class upstream_record,
                        dns_ttl = 60, dns_data = Some (fake_rdata fake_ip) \<rparr>], db'))
                  (assign_fake_ip ord now name real_ip db)))"

definition lookup_https ::
  "(fake_record list \<Rightarrow> fake_record list) \<Rightarrow> nat \<Rightarrow> string \<Rightarrow> dns_record list \<Rightarrow> fake_db \<Rightarrow>
   (dns_record list \<times> fake_db) option" where
  "lookup_https ord now name upstream db =
     (case find (\<lambda>r. dns_rr_type r = DnsHTTPS) upstream of
        None \<Rightarrow> Some (upstream, db)
      | Some upstream_record \<Rightarrow>
          Option.bind (dns_data upstream_record) (\<lambda>data.
            case data of
              RDataHTTPS svcb \<Rightarrow>
                map_option (\<lambda>(params, db').
                    (case params of
                       None \<Rightarrow> upstream
                     | Some params \<Rightarrow>
                         [upstream_record\<lparr>dns_ttl := 60,
                            dns_data := Some (RDataHTTPS (svcb\<lparr>svc_params := params\<rparr>))\<rparr>], db'))
                  (fake_svc_params ord now name [] (svc_params svcb) db)
            | _ \<Rightarrow> Some (upstream, db)))"

text \<open>\<open>lookup\<close> on the answer of the upstream resolver.\<close>

definition lookup ::
  "(fake_record list \<Rightarrow> fake_record list) \<Rightarrow> nat \<Rightarrow> string \<Rightarrow> dns_type \<Rightarrow> dns_record list result \<Rightarrow> fake_db \<Rightarrow>
   (dns_record list result \<times> fake_db) option" where
  "lookup ord now name ty upstream db =
     (case upstream of
        Inl e \<Rightarrow> Some (Inl e, db)
      | Inr records \<Rightarrow>
          map_option (apfst Inr)
            (case ty of
               DnsA \<Rightarrow> lookup_address ord now name ty records db
             | DnsAAAA \<Rightarrow> lookup_address ord now name ty records db
             | DnsHTTPS \<Rightarrow> lookup_https ord now name records db
             | DnsOther _ \<Rightarrow> Some (records, db)))"

section \<open>The invariant of the table\<close>

definition rec_key :: "fake_record \<Rightarrow> record_type \<times> string" where
  "rec_key r = (rec_type r, rec_name r)"

definition octets_length :: "record_type \<Rightarrow> nat" where
  "octets_length ty = (case ty of TypeA \<Rightarrow> 4 | TypeAAAA \<Rightarrow> 16)"

definition row_ok :: "i64 \<Rightarrow> fake_record \<Rightarrow> bool" where
  "row_ok sequence r \<longleftrightarrow>
     1 \<le> sint (rec_id r) \<and> sint (rec_id r) \<le> sint sequence \<and>
     length (rec_real_ip r) = octets_length (rec_type r)"

definition db_inv :: "fake_db \<Rightarrow> bool" where
  "db_inv db \<longleftrightarrow>
     0 \<le> sint (db_seq db) \<and> distinct (map rec_id (db_rows db)) \<and>
     distinct (map rec_key (db_rows db)) \<and> (\<forall>r \<in> set (db_rows db). row_ok (db_seq db) r)"

lemma db_inv_new: "db_inv fake_db_new"
  by (simp add: db_inv_def fake_db_new_def)

lemma length_ip_octets [simp]: "length (ip_octets ip) = octets_length (ip_record_type ip)"
  by (cases ip) (simp_all add: octets_length_def)

lemma real_ip_of_ip_octets [simp]:
  "ty = ip_record_type ip \<Longrightarrow> real_ip_of_octets ty (ip_octets ip) = Some ip"
  by (cases ip) (simp_all add: real_ip_of_octets_def)

lemma real_ip_of_octets_Some:
  "length octets = octets_length ty \<Longrightarrow> \<exists>ip. real_ip_of_octets ty octets = Some ip \<and> ip_record_type ip = ty"
  by (cases ty) (auto simp: real_ip_of_octets_def octets_length_def)

text \<open>What an assignment does to the rows: row \<open>i\<close> is set, all others stay.\<close>

definition row_set :: "fake_record \<Rightarrow> fake_db \<Rightarrow> fake_db \<Rightarrow> bool" where
  "row_set r db db' \<longleftrightarrow>
     set (db_rows db') = insert r {s \<in> set (db_rows db). rec_id s \<noteq> rec_id r} \<and>
     sint (db_seq db) \<le> sint (db_seq db')"

definition assigned_row :: "nat \<Rightarrow> string \<Rightarrow> ip_addr \<Rightarrow> i64 \<Rightarrow> fake_record" where
  "assigned_row now name ip i =
     \<lparr> rec_id = i, rec_type = ip_record_type ip, rec_name = name, rec_real_ip = ip_octets ip,
       rec_expires_at = now + fake_ip_expiration_time_in_ms \<rparr>"

lemma assigned_row_simps [simp]:
  "rec_id (assigned_row now name ip i) = i"
  "rec_type (assigned_row now name ip i) = ip_record_type ip"
  "rec_name (assigned_row now name ip i) = name"
  "rec_real_ip (assigned_row now name ip i) = ip_octets ip"
  "rec_expires_at (assigned_row now name ip i) = now + fake_ip_expiration_time_in_ms"
  by (simp_all add: assigned_row_def)

lemma unique_by: "distinct (map f xs) \<Longrightarrow> x \<in> set xs \<Longrightarrow> y \<in> set xs \<Longrightarrow> f x = f y \<Longrightarrow> x = y"
  by (metis distinct_map inj_on_eq_iff)

lemma set_map_row:
  assumes "distinct (map rec_id rows)" "r \<in> set rows" "rec_id r = i"
  shows "set (map (\<lambda>s. if rec_id s = i then f s else s) rows) = insert (f r) {s \<in> set rows. rec_id s \<noteq> i}"
  using assms unique_by [OF assms(1)] by force

lemma distinct_map_row:
  assumes "distinct (map g rows)" "distinct (map rec_id rows)"
    and "\<And>s. s \<in> set rows \<Longrightarrow> rec_id s = i \<Longrightarrow> g (f s) \<notin> g ` {t \<in> set rows. rec_id t \<noteq> i}"
  shows "distinct (map g (map (\<lambda>s. if rec_id s = i then f s else s) rows))"
  using assms
proof (induction rows)
  case (Cons a rows)
  have IH: "distinct (map g (map (\<lambda>s. if rec_id s = i then f s else s) rows))"
    by (rule Cons.IH) (use Cons.prems in auto)
  show ?case
  proof (cases "rec_id a = i")
    case True
    then have "i \<notin> rec_id ` set rows" using Cons.prems(2) by auto
    then have other: "\<forall>s \<in> set rows. rec_id s \<noteq> i" by blast
    then have id: "map (\<lambda>s. if rec_id s = i then f s else s) rows = rows"
      by (intro map_idI) simp
    have "{t \<in> set (a # rows). rec_id t \<noteq> i} = set rows" using True other by auto
    then have "g (f a) \<notin> g ` set rows" using Cons.prems(3) [of a] True by simp
    then show ?thesis using True id IH by simp
  next
    case False
    have "g a \<noteq> g (f s)" if "s \<in> set rows" "rec_id s = i" for s
    proof -
      have "g a \<in> g ` {t \<in> set (a # rows). rec_id t \<noteq> i}" using False by simp
      then show ?thesis using Cons.prems(3) [of s] that by (metis list.set_intros(2))
    qed
    then have "g a \<notin> g ` set (map (\<lambda>s. if rec_id s = i then f s else s) rows)"
      using Cons.prems(1) by (auto split: if_splits)
    then show ?thesis
      using IH by (simp only: list.map if_not_P [OF False] distinct.simps list.set_map simp_thms)
  qed
qed simp

lemma db_rows_update_row [simp]:
  "db_rows (update_row i f db) = map (\<lambda>r. if rec_id r = i then f r else r) (db_rows db)"
  by (simp add: update_row_def)

lemma db_seq_update_row [simp]: "db_seq (update_row i f db) = db_seq db"
  by (simp add: update_row_def)

lemma update_row_spec:
  assumes inv: "db_inv db" and r: "r \<in> set (db_rows db)" "rec_id r = i"
    and f: "f r = assigned_row now name ip i" "\<And>s. rec_id (f s) = rec_id s"
    and key: "\<And>s. s \<in> set (db_rows db) \<Longrightarrow> rec_id s \<noteq> i \<Longrightarrow> rec_key s \<noteq> (ip_record_type ip, name)"
  shows "db_inv (update_row i f db) \<and> row_set (assigned_row now name ip i) db (update_row i f db)"
proof -
  have dist: "distinct (map rec_id (db_rows db))" "distinct (map rec_key (db_rows db))"
    using inv by (simp_all add: db_inv_def)
  have only: "s = r" if "s \<in> set (db_rows db)" "rec_id s = i" for s
    using unique_by [OF dist(1)] that r by blast
  have set: "set (db_rows (update_row i f db)) =
      insert (assigned_row now name ip i) {s \<in> set (db_rows db). rec_id s \<noteq> i}"
    unfolding db_rows_update_row using set_map_row [OF dist(1) r] f(1) by simp
  have "map rec_id (map (\<lambda>s. if rec_id s = i then f s else s) (db_rows db)) = map rec_id (db_rows db)"
    using f(2) by simp
  then have "distinct (map rec_id (db_rows (update_row i f db)))"
    using dist(1) by (simp only: db_rows_update_row)
  moreover have "distinct (map rec_key (db_rows (update_row i f db)))"
    unfolding db_rows_update_row
    by (rule distinct_map_row [OF dist(2,1)])
      (use only f(1) key in \<open>force simp: rec_key_def\<close>)
  ultimately show ?thesis
    using inv r set unfolding db_inv_def row_ok_def row_set_def db_seq_update_row by auto
qed

lemma find_SomeD: "find P xs = Some x \<Longrightarrow> x \<in> set xs \<and> P x"
  by (metis find_Some_iff nth_mem)

lemma find_unique:
  assumes "hash_order ord" "x \<in> set xs" "P x" "\<And>y. y \<in> set xs \<Longrightarrow> P y \<Longrightarrow> y = x"
  shows "find P (ord xs) = Some x"
proof (cases "find P (ord xs)")
  case None
  then show ?thesis using assms(2,3) by (metis find_None_iff hash_order_set [OF assms(1)])
next
  case (Some y)
  then show ?thesis using find_SomeD [OF Some] assms(4) hash_order_set [OF assms(1)] by auto
qed

lemma select_matching_Some:
  assumes "hash_order ord" "select_matching ord ty name db = Some i"
  obtains r where "r \<in> set (db_rows db)" "rec_id r = i" "rec_key r = (ty, name)"
  using assms by (auto simp: select_matching_def rec_key_def hash_order_set dest!: find_SomeD)

lemma select_matching_None:
  assumes "hash_order ord"
  shows "select_matching ord ty name db = None \<longleftrightarrow> (\<forall>r \<in> set (db_rows db). rec_key r \<noteq> (ty, name))"
  using assms by (auto simp: select_matching_def rec_key_def find_None_iff hash_order_set)

lemma select_expired_Some:
  assumes "hash_order ord" "select_expired ord now db = Some i"
  obtains r where "r \<in> set (db_rows db)" "rec_id r = i" "rec_expires_at r \<le> now"
    "\<forall>s \<in> set (db_rows db). rec_expires_at r \<le> rec_expires_at s"
proof -
  let ?xs = "filter (\<lambda>r. rec_expires_at r \<le> now) (ord (db_rows db))"
  obtain r rs where r: "sort_key rec_expires_at ?xs = r # rs" "rec_id r = i"
    using assms(2) by (auto simp: select_expired_def split: list.splits)
  have set: "set (r # rs) = {s \<in> set (db_rows db). rec_expires_at s \<le> now}"
    using r(1) hash_order_set [OF assms(1), of "db_rows db"] by (metis set_filter set_sort)
  have "\<forall>s \<in> set (r # rs). rec_expires_at r \<le> rec_expires_at s"
    using sorted_sort_key [of rec_expires_at ?xs] r(1) by auto
  moreover have r': "r \<in> set (db_rows db)" "rec_expires_at r \<le> now" using set by auto
  ultimately have "rec_expires_at r \<le> rec_expires_at s" if "s \<in> set (db_rows db)" for s
    using that set by (cases "rec_expires_at s \<le> now") auto
  with r' show ?thesis using that r(2) by blast
qed

lemma sort_key_eq_Nil: "sort_key f xs = [] \<longleftrightarrow> xs = []"
  by (metis length_0_conv length_sort)

lemma select_expired_None:
  assumes "hash_order ord"
  shows "select_expired ord now db = None \<longleftrightarrow> (\<forall>r \<in> set (db_rows db). now < rec_expires_at r)"
proof -
  have "select_expired ord now db = None \<longleftrightarrow> filter (\<lambda>r. rec_expires_at r \<le> now) (ord (db_rows db)) = []"
    by (simp add: select_expired_def sort_key_eq_Nil split: list.splits)
      (metis list.distinct(1) list.exhaust sort_key_eq_Nil)
  then show ?thesis by (auto simp: filter_empty_conv hash_order_set [OF assms] not_le)
qed

text \<open>Every assignment sets one row, of the key's own, of an expired record, or a new one.\<close>

lemma assign_fake_ip_spec:
  assumes inv: "db_inv db" and ord: "hash_order ord"
    and assign: "assign_fake_ip ord now name ip db = Some (fake, db')"
  shows "\<exists>i. fake = convert_id_to_fake_ip i ip \<and> db_inv db' \<and> row_set (assigned_row now name ip i) db db' \<and>
    (\<forall>r \<in> set (db_rows db). rec_id r = i \<longrightarrow> rec_key r = (ip_record_type ip, name) \<or> rec_expires_at r \<le> now) \<and>
    (\<forall>r \<in> set (db_rows db). rec_key r = (ip_record_type ip, name) \<longrightarrow> rec_id r = i)"
proof -
  let ?ty = "ip_record_type ip"
  have dist: "distinct (map rec_id (db_rows db))" "distinct (map rec_key (db_rows db))"
    using inv by (simp_all add: db_inv_def)
  show ?thesis
  proof (cases "select_matching ord ?ty name db")
    case (Some i)
    then obtain r where r: "r \<in> set (db_rows db)" "rec_id r = i" "rec_key r = (?ty, name)"
      by (rule select_matching_Some [OF ord])
    let ?f = "\<lambda>r. r\<lparr>rec_real_ip := ip_octets ip, rec_expires_at := now + fake_ip_expiration_time_in_ms\<rparr>"
    have f: "?f r = assigned_row now name ip i" using r by (simp add: assigned_row_def rec_key_def)
    have key: "rec_key s \<noteq> (?ty, name)" if "s \<in> set (db_rows db)" "rec_id s \<noteq> i" for s
      using unique_by [OF dist(2) that(1) r(1)] r that(2) by auto
    have "fake = convert_id_to_fake_ip i ip" "db' = update_row i ?f db"
      using assign Some by (simp_all add: assign_fake_ip_def Let_def)
    moreover have "rec_key s = (?ty, name)" if "s \<in> set (db_rows db)" "rec_id s = i" for s
      using unique_by [OF dist(1) that(1) r(1)] r that(2) by simp
    ultimately show ?thesis using update_row_spec [where f = ?f, OF inv r(1,2) f _ key] key by simp blast
  next
    case None
    note nomatch = None [unfolded select_matching_None [OF ord]]
    show ?thesis
    proof (cases "select_expired ord now db")
      case (Some i)
      then obtain r where r: "r \<in> set (db_rows db)" "rec_id r = i" "rec_expires_at r \<le> now"
        using select_expired_Some [OF ord] by metis
      let ?f = "\<lambda>r. r\<lparr>rec_type := ?ty, rec_name := name, rec_real_ip := ip_octets ip,
        rec_expires_at := now + fake_ip_expiration_time_in_ms\<rparr>"
      have f: "?f r = assigned_row now name ip i" using r by (simp add: assigned_row_def)
      have "fake = convert_id_to_fake_ip i ip" "db' = update_row i ?f db"
        using assign Some None by (simp_all add: assign_fake_ip_def Let_def)
      moreover have "rec_expires_at s \<le> now" if "s \<in> set (db_rows db)" "rec_id s = i" for s
        using unique_by [OF dist(1) that(1) r(1)] r that(2) by simp
      ultimately show ?thesis using update_row_spec [where f = ?f, OF inv r(1,2) f] nomatch by simp blast
    next
      case None': None
      let ?i = "db_seq db + 1"
      have db': "fake = convert_id_to_fake_ip ?i ip" "db_seq db \<noteq> i64_max" "db_seq db' = ?i"
        "db_rows db' = db_rows db @ [assigned_row now name ip ?i]"
        using assign None None'
        by (auto simp: assign_fake_ip_def insert_row_def assigned_row_def Let_def split: if_splits)
      have seq: "sint ?i = sint (db_seq db) + 1" using db'(2) by (rule sint_Suc)
      have fresh: "rec_id r \<noteq> ?i" if "r \<in> set (db_rows db)" for r
        using inv that seq by (fastforce simp: db_inv_def row_ok_def)
      have "db_inv db'"
        using inv nomatch fresh seq db'(3,4)
        by (force simp: db_inv_def row_ok_def rec_key_def)
      moreover have "row_set (assigned_row now name ip ?i) db db'"
        using fresh seq db'(3,4) by (auto simp: row_set_def)
      ultimately show ?thesis using db'(1) fresh nomatch by blast
    qed
  qed
qed

section \<open>Ids and fake addresses\<close>

text \<open>The ids whose fake address lies in the default prefixes.\<close>

definition id_fits :: "record_type \<Rightarrow> i64 \<Rightarrow> bool" where
  "id_fits ty i \<longleftrightarrow> 0 \<le> sint i \<and> (ty = TypeA \<longrightarrow> sint i < 2 ^ 17)"

lemma uint_fake_v4:
  "0 \<le> sint i \<Longrightarrow> sint i < 2 ^ 17 \<Longrightarrow> uint (fake_ip_v4_start + ucast (i :: i64)) = 0xC6120000 + sint i"
  using uint_ucast_i64 [of i] by (simp add: fake_ip_v4_start_def uint_word_ariths)

lemma uint_fake_v6:
  "0 \<le> sint i \<Longrightarrow> uint (fake_ip_v6_start + scast (i :: i64)) = 0x20010DB8000000000000000000000000 + sint i"
  using sint_lt [of i] uint_scast_i64 [of i] by (simp add: fake_ip_v6_start_def uint_word_ariths)

lemma fake_ip_type_and_id_convert:
  assumes law: "default_nets_law nets" and fits: "id_fits (ip_record_type ip) i"
  shows "fake_ip_type_and_id nets (convert_id_to_fake_ip i ip) = Some (ip_record_type ip, i)"
proof (cases ip)
  case (IpV4 a)
  then have i: "0 \<le> sint i" "sint i < 2 ^ 17" using fits by (simp_all add: id_fits_def)
  have "net4_contains nets (fake_ip_v4_start + ucast i)"
    using law uint_fake_v4 [OF i] i by (simp add: default_nets_law_def word_le_def)
  moreover have "net4_network nets = fake_ip_v4_start"
    using law by (simp add: default_nets_law_def fake_ip_v4_start_def)
  ultimately show ?thesis using IpV4 i by (simp add: convert_id_to_fake_ip_def ucast_ucast_u32)
next
  case (IpV6 a)
  then have i: "0 \<le> sint i" using fits by (simp add: id_fits_def)
  have "net6_contains nets (fake_ip_v6_start + scast i)"
    using law uint_fake_v6 [OF i] i sint_lt [of i] by (simp add: default_nets_law_def word_le_def)
  moreover have "net6_network nets = fake_ip_v6_start"
    using law by (simp add: default_nets_law_def fake_ip_v6_start_def)
  ultimately show ?thesis using IpV6 i by (simp add: convert_id_to_fake_ip_def ucast_scast_u128)
qed

lemma resolve_row:
  assumes "default_nets_law nets" "hash_order ord" "db_inv db"
    and r: "r \<in> set (db_rows db)" and ty: "rec_type r = ip_record_type ip" "id_fits (rec_type r) (rec_id r)"
    and real: "rec_real_ip r = ip_octets ip'" "ip_record_type ip' = rec_type r"
  shows "resolve ord nets db (convert_id_to_fake_ip (rec_id r) ip) =
    Some (Some (ip', Some (trim_end_dots (rec_name r))))"
proof -
  have "find (\<lambda>s. rec_type s = rec_type r \<and> rec_id s = rec_id r) (ord (db_rows db)) = Some r"
    using assms(3) unique_by [of rec_id "db_rows db" _ r] r
    by (intro find_unique [OF assms(2)]) (auto simp: db_inv_def)
  then show ?thesis
    using fake_ip_type_and_id_convert [OF assms(1), of ip "rec_id r"] ty real
    by (simp add: resolve_def)
qed

section \<open>Histories of assignments\<close>





lemma assign_fake_ip_row:
  assumes "db_inv db" "hash_order ord" "assign_fake_ip ord now name ip db = Some (fake, db')"
  obtains i where "fake = convert_id_to_fake_ip i ip" "db_inv db'"
    "assigned_row now name ip i \<in> set (db_rows db')" "1 \<le> sint i" "sint i \<le> sint (db_seq db')"
proof -
  obtain i where i: "fake = convert_id_to_fake_ip i ip" "db_inv db'"
      "row_set (assigned_row now name ip i) db db'"
    using assign_fake_ip_spec [OF assms] by blast
  then have "assigned_row now name ip i \<in> set (db_rows db')" by (simp add: row_set_def)
  moreover from this have "1 \<le> sint i" "sint i \<le> sint (db_seq db')"
    using i(2) by (auto simp: db_inv_def row_ok_def)
  ultimately show ?thesis using that i by blast
qed


section \<open>Lookups keep the invariant\<close>

lemma fake_svc_params_inv:
  assumes "db_inv db" "hash_order ord" "fake_svc_params ord now name acc params db = Some (result, db')"
  shows "db_inv db'"
  using assms
proof (induction params arbitrary: acc db)
  case (Cons param params)
  obtain key v where param: "param = (key, v)" by (cases param)
  show ?case
  proof (cases "\<exists>n. key = KeyOther n")
    case True
    then show ?thesis using Cons param by auto
  next
    case hint: False
    show ?thesis
    proof (cases "fakeable_hint param")
      case None
      then show ?thesis using Cons.prems hint param by (cases key) auto
    next
      case (Some real_ip)
      obtain fake db1 where assign: "assign_fake_ip ord now name real_ip db = Some (fake, db1)"
        and rest: "fake_svc_params ord now name (acc @ [(key, fake_hint fake)]) params db1 = Some (result, db')"
        using Cons.prems(3) hint param Some by (cases key) (auto split: option.splits)
      have "db_inv db1" using assign_fake_ip_spec [OF Cons.prems(1,2) assign] by blast
      then show ?thesis using Cons.IH rest Cons.prems(2) by blast
    qed
  qed
qed simp

lemma lookup_inv:
  assumes "db_inv db" "hash_order ord" "lookup ord now name ty upstream db = Some (answer, db')"
  shows "db_inv db'"
proof -
  have address: "db_inv db'" if "lookup_address ord now name t records db = Some (a, db')" for t records a
    using that assms(1) assign_fake_ip_spec [OF assms(1,2)]
    by (auto simp: lookup_address_def split: option.splits bind_splits) blast
  have https: "db_inv db'" if "lookup_https ord now name records db = Some (a, db')" for records a
    using that assms(1) fake_svc_params_inv [OF assms(1,2)]
    by (auto simp: lookup_https_def split: option.splits bind_splits rdata.splits)
  show ?thesis
    using assms(3) address https assms(1)
    by (auto simp: lookup_def split: sum.splits dns_type.splits)
qed

section \<open>Properties\<close>

definition default_nets :: fake_nets where
  "default_nets = \<lparr> net4_network = 0xC6120000,
     net4_contains = (\<lambda>ip. 0xC6120000 \<le> ip \<and> ip \<le> 0xC613FFFF),
     net6_network = 0x20010DB8000000000000000000000000,
     net6_contains = (\<lambda>ip. 0x20010DB8000000000000000000000000 \<le> ip \<and>
       ip \<le> 0x20010DB8FFFFFFFFFFFFFFFFFFFFFFFF) \<rparr>"

lemma default_nets [simp]: "default_nets_law default_nets"
  by (simp add: default_nets_law_def default_nets_def)

definition example_db :: fake_db where
  "example_db = \<lparr> db_rows = [assigned_row 0 ''a.com.'' (IpV4 0x01010101) 1], db_seq = 1 \<rparr>"

lemma example_assign:
  "assign_fake_ip (\<lambda>xs. xs) 0 ''a.com.'' (IpV4 0x01010101) fake_db_new = Some (IpV4 0xC6120001, example_db)"
  by (simp add: assign_fake_ip_def select_matching_def select_expired_def insert_row_def fake_db_new_def
      i64_max_def convert_id_to_fake_ip_def fake_ip_v4_start_def example_db_def assigned_row_def)

text \<open>C37: Whatever an A, AAAA or HTTPS lookup answers, it keeps the table well formed: ids unique,
  between 1 and the sequence; at most one record per type and name, even without the unique index;
  as many octets as the type needs.\<close>

theorem lookup_keeps_table:
  assumes "db_inv db" and "hash_order ord" and "lookup ord now name ty upstream db = Some (answer, db')"
  shows "db_inv db'"
  using assms by (rule lookup_inv)

theorem lookup_keeps_table_witness: "db_inv example_db"
  by (rule lookup_keeps_table [OF db_inv_new hash_order_id, of 0 "''a.com.''" DnsA
        "Inr [\<lparr> dns_name = ''a.com.'', dns_rr_type = DnsA, dns_class = 1, dns_ttl = 300,
          dns_data = Some (RDataA 0x01010101) \<rparr>]"])
    (simp add: lookup_def lookup_address_def example_assign ipv4_is_private_def ipv4_is_loopback_def
      ipv4_octet_def be_bytes_4)



text \<open>A record that has not expired is never given to another name: an assignment for another
  type or name leaves every live record as it is.\<close>

theorem live_record_not_stolen:
  assumes "db_inv db" and "hash_order ord" and "assign_fake_ip ord now name ip db = Some (fake, db')"
    and "r \<in> set (db_rows db)" and "now < rec_expires_at r" and "rec_key r \<noteq> (ip_record_type ip, name)"
  shows "r \<in> set (db_rows db')"
  using assign_fake_ip_spec [OF assms(1-3)] assms(4-6) by (fastforce simp: row_set_def)

theorem live_record_not_stolen_witness:
  "assigned_row 0 ''a.com.'' (IpV4 0x01010101) 1 \<in> set (db_rows
     \<lparr> db_rows = [assigned_row 0 ''a.com.'' (IpV4 0x01010101) 1, assigned_row 5 ''b.com.'' (IpV4 0x02020202) 2],
       db_seq = 2 \<rparr>)"
proof (rule live_record_not_stolen [where db = example_db and ord = "\<lambda>xs. xs" and now = 5 and name = "''b.com.''"
      and ip = "IpV4 0x02020202" and fake = "IpV4 0xC6120002"])
  show "db_inv example_db"
    by (simp add: example_db_def db_inv_def row_ok_def octets_length_def)
qed (simp_all add: hash_order_id example_db_def fake_ip_expiration_time_in_ms_def assign_fake_ip_def
      select_matching_def select_expired_def insert_row_def i64_max_def assigned_row_def rec_key_def
      convert_id_to_fake_ip_def fake_ip_v4_start_def)

text \<open>The answer to an A or AAAA query is the upstream answer, with the table untouched, or a
  single record of the asked name and type, with a TTL of 60 seconds and a fake address that
  resolves to the name and to the first upstream address, which is not private and not loopback.\<close>

theorem address_answer_resolves:
  assumes "db_inv db" and "hash_order ord" and "default_nets_law nets"
    and "lookup ord now name ty (Inr upstream) db = Some (Inr answer, db')"
    and "ty = DnsA \<or> ty = DnsAAAA" and "sint (db_seq db') < 2 ^ 17"
  shows "(answer = upstream \<and> db' = db) \<or>
    (\<exists>r \<in> set upstream. \<exists>data real_ip fake. dns_rr_type r = ty \<and> dns_data r = Some data \<and>
       fakeable_rdata data = Some real_ip \<and>
       answer = [\<lparr> dns_name = name, dns_rr_type = ty, dns_class = dns_class r, dns_ttl = 60,
         dns_data = Some (fake_rdata fake) \<rparr>] \<and>
       resolve ord nets db' fake = Some (Some (real_ip, Some (trim_end_dots name))))"
proof -
  have lookup: "lookup_address ord now name ty upstream db = Some (answer, db')"
    using assms(4,5) by (auto simp: lookup_def)
  show ?thesis
  proof (cases "find (\<lambda>r. dns_rr_type r = ty) upstream")
    case None
    then show ?thesis using lookup by (simp add: lookup_address_def)
  next
    case (Some r)
    note r = find_SomeD [OF Some]
    obtain data where data: "dns_data r = Some data"
      using lookup Some by (auto simp: lookup_address_def split: bind_splits)
    show ?thesis
    proof (cases "fakeable_rdata data")
      case None
      then show ?thesis using lookup Some data by (simp add: lookup_address_def)
    next
      case ip: (Some real_ip)
      obtain fake where assign: "assign_fake_ip ord now name real_ip db = Some (fake, db')"
        and answer: "answer = [\<lparr> dns_name = name, dns_rr_type = ty, dns_class = dns_class r, dns_ttl = 60,
          dns_data = Some (fake_rdata fake) \<rparr>]"
        using lookup Some data ip by (auto simp: lookup_address_def)
      obtain i where i: "fake = convert_id_to_fake_ip i real_ip" "db_inv db'"
          "assigned_row now name real_ip i \<in> set (db_rows db')" "1 \<le> sint i" "sint i \<le> sint (db_seq db')"
        using assign_fake_ip_row [OF assms(1,2) assign] by blast
      have "id_fits (ip_record_type real_ip) i" using i(4,5) assms(6) by (simp add: id_fits_def)
      then have "resolve ord nets db' (convert_id_to_fake_ip (rec_id (assigned_row now name real_ip i)) real_ip) =
          Some (Some (real_ip, Some (trim_end_dots (rec_name (assigned_row now name real_ip i)))))"
        by (intro resolve_row [OF assms(3,2) i(2,3)]) simp_all
      then have "resolve ord nets db' fake = Some (Some (real_ip, Some (trim_end_dots name)))"
        unfolding i(1) assigned_row_simps .
      moreover have "dns_rr_type r = ty" "r \<in> set upstream" using r by simp_all
      ultimately show ?thesis
        using data ip answer by (intro disjI2 bexI [of _ r] exI [of _ data] exI [of _ real_ip] exI [of _ fake]) simp_all
    qed
  qed
qed

lemma example_lookup:
  "lookup (\<lambda>xs. xs) 0 ''a.com.'' DnsA
     (Inr [\<lparr> dns_name = ''a.com.'', dns_rr_type = DnsA, dns_class = 1, dns_ttl = 300,
       dns_data = Some (RDataA 0x01010101) \<rparr>]) fake_db_new =
   Some (Inr [\<lparr> dns_name = ''a.com.'', dns_rr_type = DnsA, dns_class = 1, dns_ttl = 60,
     dns_data = Some (RDataA 0xC6120001) \<rparr>], example_db)"
  by (simp add: lookup_def lookup_address_def example_assign ipv4_is_private_def ipv4_is_loopback_def
      ipv4_octet_def be_bytes_4 fake_rdata_def)

theorem address_answer_resolves_witness:
  "([\<lparr> dns_name = ''a.com.'', dns_rr_type = DnsA, dns_class = 1, dns_ttl = 60,
       dns_data = Some (RDataA 0xC6120001) \<rparr>] =
     [\<lparr> dns_name = ''a.com.'', dns_rr_type = DnsA, dns_class = 1, dns_ttl = 300,
       dns_data = Some (RDataA 0x01010101) \<rparr>] \<and> example_db = fake_db_new) \<or>
    (\<exists>r \<in> set [\<lparr> dns_name = ''a.com.'', dns_rr_type = DnsA, dns_class = 1, dns_ttl = 300,
       dns_data = Some (RDataA 0x01010101) \<rparr>].
     \<exists>data real_ip fake. dns_rr_type r = DnsA \<and> dns_data r = Some data \<and>
       fakeable_rdata data = Some real_ip \<and>
       [\<lparr> dns_name = ''a.com.'', dns_rr_type = DnsA, dns_class = 1, dns_ttl = 60,
       dns_data = Some (RDataA 0xC6120001) \<rparr>] = [\<lparr> dns_name = ''a.com.'', dns_rr_type = DnsA,
         dns_class = dns_class r, dns_ttl = 60, dns_data = Some (fake_rdata fake) \<rparr>] \<and>
       resolve (\<lambda>xs. xs) default_nets example_db fake = Some (Some (real_ip, Some (trim_end_dots ''a.com.''))))"
  by (rule address_answer_resolves [OF db_inv_new hash_order_id default_nets example_lookup])
    (simp_all add: example_db_def)

text \<open>Nothing bounds the ids by the size of the prefix: the insertion that follows id 131071
  hands out the address 198.20.0.0, which is outside \<open>198.18.0.0/15\<close>; it is then taken for a real
  address and the name is lost.\<close>

theorem fake_ipv4_leaves_prefix:
  assumes "hash_order ord" and "hash_order ord'" and "default_nets_law nets" and "db_seq db = 131071"
    and "\<forall>r \<in> set (db_rows db). rec_key r \<noteq> (TypeA, name) \<and> now < rec_expires_at r"
  shows "\<exists>db'. assign_fake_ip ord now name (IpV4 ip) db = Some (IpV4 0xC6140000, db') \<and>
    resolve ord' nets db' (IpV4 0xC6140000) = Some (Some (IpV4 0xC6140000, None))"
proof -
  have "select_matching ord TypeA name db = None" "select_expired ord now db = None"
    using assms(5) by (simp_all add: select_matching_None [OF assms(1)] select_expired_None [OF assms(1)])
  moreover have "\<exists>db'. insert_row TypeA name octets expires_at db = Some (131072, db')" for octets expires_at
    using assms(4) by (simp add: insert_row_def i64_max_def)
  ultimately obtain db' where "assign_fake_ip ord now name (IpV4 ip) db =
      Some (convert_id_to_fake_ip 131072 (IpV4 ip), db')"
    by (fastforce simp: assign_fake_ip_def)
  moreover have "convert_id_to_fake_ip 131072 (IpV4 ip) = IpV4 0xC6140000"
    by (simp add: convert_id_to_fake_ip_def fake_ip_v4_start_def)
  moreover have "\<not> net4_contains nets 0xC6140000" using assms(3) by (simp add: default_nets_law_def)
  then have "resolve ord' nets db' (IpV4 0xC6140000) = Some (Some (IpV4 0xC6140000, None))"
    by (simp add: resolve_def)
  ultimately show ?thesis by metis
qed

theorem fake_ipv4_leaves_prefix_witness:
  "\<exists>db'. assign_fake_ip rev 0 ''a.com.'' (IpV4 1) \<lparr> db_rows = [], db_seq = 131071 \<rparr> = Some (IpV4 0xC6140000, db') \<and>
    resolve rev default_nets db' (IpV4 0xC6140000) = Some (Some (IpV4 0xC6140000, None))"
  by (rule fake_ipv4_leaves_prefix [OF hash_order_rev hash_order_rev default_nets]) simp_all

end
