(* ===== verification/Match_Server.thy ===== *)
theory Match_Server
  imports Tunnel Bytes
begin

text \<open>
  Matching IN and OUT through Redis (\<open>src/lib/match_server/match_server.rs\<close>,
  \<open>redis_match_server.rs\<close>, the match pairs of the tunnel providers): key names, encryption of the
  payloads, the IN server that accepts each OUT once, and the OUT server that answers
  announcements. Redis, the cipher, JSON and the textual form of UUIDs are parameters: the replies
  of the commands, the messages of the subscriptions, and the functions of the libraries.
\<close>

section \<open>Match pairs\<close>

text \<open>\<open>uuid_show\<close>, \<open>uuid_parse\<close>: \<open>Display\<close> and \<open>parse_str\<close> of a UUID, which has no colon.\<close>

record uuid_lib =
  uuid_show :: "uuid \<Rightarrow> string"
  uuid_parse :: "string \<Rightarrow> uuid option"

definition uuid_law :: "uuid_lib \<Rightarrow> bool" where
  "uuid_law lib \<longleftrightarrow>
     (\<forall>u. uuid_parse lib (uuid_show lib u) = Some u \<and> CHR '':'' \<notin> set (uuid_show lib u) \<and>
        CHR ''*'' \<notin> set (uuid_show lib u))"

datatype match_pair = Http2Pair | PlugHttp2Pair | QuicPair

fun get_match_name :: "match_pair \<Rightarrow> string" where
  "get_match_name Http2Pair = ''http2''"
| "get_match_name PlugHttp2Pair = ''plug-http2''"
| "get_match_name QuicPair = ''quic''"

fun get_redis_out_pattern :: "match_pair \<Rightarrow> string" where
  "get_redis_out_pattern Http2Pair = ''http2:out:*''"
| "get_redis_out_pattern PlugHttp2Pair = ''plug-http2:out:*''"
| "get_redis_out_pattern QuicPair = ''quic:out:*''"

fun get_redis_out_key :: "uuid_lib \<Rightarrow> match_pair \<Rightarrow> match_out_id \<Rightarrow> string" where
  "get_redis_out_key lib Http2Pair out_id = ''http2:out:'' @ uuid_show lib (out_uuid out_id)"
| "get_redis_out_key lib PlugHttp2Pair out_id = ''plug-http2:out:'' @ uuid_show lib (out_uuid out_id)"
| "get_redis_out_key lib QuicPair out_id = ''quic:out:'' @ uuid_show lib (out_uuid out_id)"

fun get_redis_in_announcement_channel_name :: "uuid_lib \<Rightarrow> match_pair \<Rightarrow> match_out_id \<Rightarrow> string" where
  "get_redis_in_announcement_channel_name lib Http2Pair out_id =
     ''http2:in:out:'' @ uuid_show lib (out_uuid out_id)"
| "get_redis_in_announcement_channel_name lib PlugHttp2Pair out_id =
     ''plug-http2:in:out:'' @ uuid_show lib (out_uuid out_id)"
| "get_redis_in_announcement_channel_name lib QuicPair out_id =
     ''quic:in:out:'' @ uuid_show lib (out_uuid out_id)"

definition match_out_id_from_str :: "uuid_lib \<Rightarrow> string \<Rightarrow> match_out_id result" where
  "match_out_id_from_str lib s =
     (case uuid_parse lib s of Some u \<Rightarrow> Inr (MatchOutId u) | None \<Rightarrow> Inl (External ''uuid''))"

definition get_out_id_from_redis_out_key :: "uuid_lib \<Rightarrow> string \<Rightarrow> match_out_id result" where
  "get_out_id_from_redis_out_key lib out_key = match_out_id_from_str lib (last (split_on CHR '':'' out_key))"

section \<open>Encryption\<close>

text \<open>
  AES-256-GCM with the key derived from the configured one: \<open>seal nonce data\<close> and \<open>unseal\<close>, which
  fails on data that was not sealed with the key and nonce.
\<close>

record cipher =
  seal :: "u8 list \<Rightarrow> u8 list \<Rightarrow> u8 list"
  unseal :: "u8 list \<Rightarrow> u8 list \<Rightarrow> u8 list option"

definition cipher_law :: "cipher \<Rightarrow> bool" where
  "cipher_law c \<longleftrightarrow> (\<forall>nonce data. unseal c nonce (seal c nonce data) = Some data)"

definition encrypt :: "cipher option \<Rightarrow> u8 list \<Rightarrow> u8 list \<Rightarrow> u8 list" where
  "encrypt c nonce data = (case c of Some c \<Rightarrow> nonce @ seal c nonce data | None \<Rightarrow> data)"

text \<open>\<open>split_at(12)\<close> panics on shorter data.\<close>

definition decrypt :: "cipher option \<Rightarrow> u8 list \<Rightarrow> u8 list result option" where
  "decrypt c data =
     (case c of
        Some c \<Rightarrow>
          (if length data < 12 then None
           else case unseal c (take 12 data) (drop 12 data) of
                  Some plain \<Rightarrow> Some (Inr plain)
                | None \<Rightarrow> Some (Inl (Msg ''redis match decryption failed, wrong key?'')))
      | None \<Rightarrow> Some (Inr data))"

text \<open>A payload of the subscription stream: decrypted, then deserialised.\<close>

definition receive :: "cipher option \<Rightarrow> (u8 list \<Rightarrow> 'a result) \<Rightarrow> u8 list \<Rightarrow> 'a result option" where
  "receive c from_json payload =
     map_option (\<lambda>r. case r of Inl e \<Rightarrow> Inl e | Inr plain \<Rightarrow> from_json plain) (decrypt c payload)"

section \<open>The IN server\<close>

text \<open>\<open>match_name_to_active_out_id_set_map\<close>.\<close>

type_synonym active_outs = "(string, match_out_id set) hash_map"

definition active_out_ids :: "active_outs \<Rightarrow> string \<Rightarrow> match_out_id set" where
  "active_out_ids m name = (case map_of m name of Some ids \<Rightarrow> ids | None \<Rightarrow> {})"

definition insert_active :: "string \<Rightarrow> match_out_id \<Rightarrow> active_outs \<Rightarrow> active_outs" where
  "insert_active name out_id m = AList.update name (insert out_id (active_out_ids m name)) m"

text \<open>The first scanned key of an OUT that is not active; keys that do not parse are passed over.\<close>

fun first_inactive :: "uuid_lib \<Rightarrow> match_out_id set \<Rightarrow> string list \<Rightarrow> match_out_id option" where
  "first_inactive lib active [] = None"
| "first_inactive lib active (out_key # out_keys) =
     (case get_out_id_from_redis_out_key lib out_key of
        Inr out_id \<Rightarrow> if out_id \<in> active then first_inactive lib active out_keys else Some out_id
      | Inl _ \<Rightarrow> first_inactive lib active out_keys)"

text \<open>
  \<open>accept_out\<close> in its two parts, which run under the lock of the set: the scan of the existing
  keys, then one step per message of the subscription. \<^const>\<open>None\<close> goes on waiting.
\<close>

definition accept_out_scan ::
  "uuid_lib \<Rightarrow> match_pair \<Rightarrow> string list result \<Rightarrow> active_outs \<Rightarrow> match_out_id result option \<times> active_outs" where
  "accept_out_scan lib pair scanned m =
     (let name = get_match_name pair;
          m = (if map_of m name = None then AList.update name {} m else m)
      in case scanned of
           Inl e \<Rightarrow> (Some (Inl e), m)
         | Inr out_keys \<Rightarrow>
             (case first_inactive lib (active_out_ids m name) out_keys of
                Some out_id \<Rightarrow> (Some (Inr out_id), insert_active name out_id m)
              | None \<Rightarrow> (None, m)))"

definition accept_out_message ::
  "match_pair \<Rightarrow> match_out_id result option \<Rightarrow> active_outs \<Rightarrow> match_out_id result option \<times> active_outs" where
  "accept_out_message pair message m =
     (let name = get_match_name pair in
      case message of
        None \<Rightarrow> (Some (Inl (Msg ''subscription to OUT ended.'')), m)
      | Some (Inl e) \<Rightarrow> (Some (Inl e), m)
      | Some (Inr out_id) \<Rightarrow>
          (if out_id \<in> active_out_ids m name then (None, m)
           else (Some (Inr out_id), insert_active name out_id m)))"

record 'd match_out =
  mo_id :: match_out_id
  mo_tunnel_id :: tunnel_id
  mo_tunnel_labels :: "label list"
  mo_tunnel_priority :: "i64 option"
  mo_routing_priority :: i64
  mo_routing_rules :: "out_rule_config list"
  mo_data :: 'd

text \<open>
  Which of the two tasks of \<open>match_out\<close> ends first: the match task with the first message of the
  subscription or its end, or the announcing task, which only ends with an error.
\<close>

datatype 'd match_race = MatchMessage "'d match_out result" | MatchStreamEnded | AnnounceEnded

text \<open>\<open>match_out\<close>: a panic if the set of the pair is missing, which \<open>accept_out\<close> has created.\<close>

definition match_out_run ::
  "match_pair \<Rightarrow> unit result \<Rightarrow> bool result \<Rightarrow> 'd match_race \<Rightarrow> match_out_id \<Rightarrow> active_outs \<Rightarrow>
   ('d match_out option result \<times> active_outs) option" where
  "match_out_run pair subscribed exists_reply race out_id m =
     (case subscribed of
        Inl e \<Rightarrow> Some (Inl e, m)
      | Inr _ \<Rightarrow>
          (case exists_reply of
             Inl e \<Rightarrow> Some (Inl e, m)
           | Inr False \<Rightarrow>
               map_option (\<lambda>ids. (Inr None, AList.update (get_match_name pair) (ids - {out_id}) m))
                 (map_of m (get_match_name pair))
           | Inr True \<Rightarrow>
               Some (case race of
                   MatchMessage (Inr match_out) \<Rightarrow> Inr (Some match_out)
                 | MatchMessage (Inl e) \<Rightarrow> Inl e
                 | MatchStreamEnded \<Rightarrow> Inl (Msg ''subscription ended before match to OUT.'')
                 | AnnounceEnded \<Rightarrow> Inl (Msg ''failed to match IN.''), m)))"

section \<open>The OUT server\<close>

record in_announcement =
  ia_id :: match_in_id
  ia_match_key :: string

record 'd match_in =
  mi_id :: match_in_id
  mi_tunnel_id :: tunnel_id
  mi_data :: 'd

text \<open>
  What happens while an OUT waits for an IN: announcements, each with the replies of the lock, of
  reading the IN's data and of publishing; the end of the subscription; the end of the task that
  keeps the OUT's key alive, always with an error.
\<close>

record announcement_event =
  ev_announcement :: "in_announcement result"
  ev_locked :: "bool result"
  ev_in_data :: "u8 list result"
  ev_tunnel_id :: tunnel_id
  ev_published :: "unit result"

datatype match_in_event = Announced announcement_event | AnnouncementsEnded | KeepAliveFailed error

text \<open>One announcement: \<^const>\<open>None\<close> is the panic of decrypting, \<open>Some None\<close> a missed lock.\<close>

definition handle_announcement ::
  "cipher option \<Rightarrow> (u8 list \<Rightarrow> 'd result) \<Rightarrow> announcement_event \<Rightarrow> 'd match_in result option option" where
  "handle_announcement c from_json ev =
     (case ev_announcement ev of
        Inl e \<Rightarrow> Some (Some (Inl e))
      | Inr announcement \<Rightarrow>
          (case ev_locked ev of
             Inl e \<Rightarrow> Some (Some (Inl e))
           | Inr False \<Rightarrow> Some None
           | Inr True \<Rightarrow>
               (case ev_in_data ev of
                  Inl e \<Rightarrow> Some (Some (Inl e))
                | Inr payload \<Rightarrow>
                    map_option (\<lambda>r. Some
                       (case r of
                          Inl e \<Rightarrow> Inl e
                        | Inr data \<Rightarrow>
                            (case ev_published ev of
                               Inl e \<Rightarrow> Inl e
                             | Inr _ \<Rightarrow> Inr \<lparr> mi_id = ia_id announcement,
                                 mi_tunnel_id = ev_tunnel_id ev, mi_data = data \<rparr>)))
                      (receive c from_json payload))))"

text \<open>\<open>match_in\<close>; \<open>Some None\<close> is still waiting after all events.\<close>

fun match_in_run ::
  "cipher option \<Rightarrow> (u8 list \<Rightarrow> 'd result) \<Rightarrow> match_in_event list \<Rightarrow> 'd match_in result option option" where
  "match_in_run c from_json [] = Some None"
| "match_in_run c from_json (Announced ev # evs) =
     (case handle_announcement c from_json ev of
        None \<Rightarrow> None
      | Some (Some r) \<Rightarrow> Some (Some r)
      | Some None \<Rightarrow> match_in_run c from_json evs)"
| "match_in_run c from_json (AnnouncementsEnded # evs) =
     Some (Some (Inl (Msg ''IN announcement subscription ended.'')))"
| "match_in_run c from_json (KeepAliveFailed e # evs) = Some (Some (Inl e))"

section \<open>Keys\<close>

lemma last_split_on_no_sep: "c \<notin> set s \<Longrightarrow> split_on c s = [s]"
  by (induction s) auto

lemma last_split_on_append:
  "c \<notin> set s \<Longrightarrow> last (split_on c (p @ c # s)) = s"
  by (simp add: split_on_append last_split_on_no_sep)

text \<open>The part of a key in front of the id, which is the pattern without its star.\<close>

lemma out_key_prefix:
  "get_redis_out_key lib pair out_id = butlast (get_redis_out_pattern pair) @ uuid_show lib (out_uuid out_id)"
  by (cases pair) simp_all

lemma out_key_parse:
  assumes "uuid_law lib"
  shows "get_out_id_from_redis_out_key lib (get_redis_out_key lib pair out_id) = Inr out_id"
proof -
  have id: "CHR '':'' \<notin> set (uuid_show lib (out_uuid out_id))"
    "uuid_parse lib (uuid_show lib (out_uuid out_id)) = Some (out_uuid out_id)"
    using assms by (auto simp: uuid_law_def)
  have "last (split_on CHR '':'' (get_redis_out_key lib pair out_id)) = uuid_show lib (out_uuid out_id)"
    using last_split_on_append [OF id(1), of "''http2:out''"]
      last_split_on_append [OF id(1), of "''plug-http2:out''"]
      last_split_on_append [OF id(1), of "''quic:out''"]
    by (cases pair) simp_all
  then show ?thesis
    using id(2) by (simp add: get_out_id_from_redis_out_key_def match_out_id_from_str_def)
qed

lemma get_match_name_inj [simp]: "get_match_name p = get_match_name q \<longleftrightarrow> p = q"
  by (cases p; cases q) simp_all

section \<open>Accepting every OUT once\<close>

lemma first_inactive_Some:
  "first_inactive lib active keys = Some out_id \<Longrightarrow>
     out_id \<notin> active \<and> (\<exists>k \<in> set keys. get_out_id_from_redis_out_key lib k = Inr out_id)"
  by (induction keys) (auto split: sum.splits if_splits)

lemma active_insert_active:
  "active_out_ids (insert_active name out_id m) name' =
     (if name' = name then insert out_id (active_out_ids m name) else active_out_ids m name')"
  by (simp add: active_out_ids_def insert_active_def)

lemma active_default:
  "map_of m name = None \<Longrightarrow> active_out_ids (AList.update name {} m) = active_out_ids m"
  by (rule ext) (simp add: active_out_ids_def)

lemma accept_out_scan_Some:
  assumes "accept_out_scan lib pair scanned m = (Some (Inr out_id), m')"
  shows "out_id \<notin> active_out_ids m (get_match_name pair) \<and>
    (\<forall>name. active_out_ids m' name = (if name = get_match_name pair
       then insert out_id (active_out_ids m name) else active_out_ids m name))"
  using assms active_default [of m "get_match_name pair"]
  by (auto simp: accept_out_scan_def Let_def active_insert_active split: sum.splits option.splits if_splits
      dest!: first_inactive_Some)

lemma accept_out_scan_other:
  assumes "accept_out_scan lib pair scanned m = (r, m')" "\<And>out_id. r \<noteq> Some (Inr out_id)"
  shows "active_out_ids m' = active_out_ids m"
  using assms active_default [of m "get_match_name pair"]
  by (auto simp: accept_out_scan_def Let_def split: sum.splits option.splits if_splits)

lemma accept_out_message_Some:
  assumes "accept_out_message pair message m = (Some (Inr out_id), m')"
  shows "out_id \<notin> active_out_ids m (get_match_name pair) \<and>
    (\<forall>name. active_out_ids m' name = (if name = get_match_name pair
       then insert out_id (active_out_ids m name) else active_out_ids m name))"
  using assms
  by (auto simp: accept_out_message_def Let_def active_insert_active split: sum.splits option.splits if_splits)

lemma accept_out_message_other:
  assumes "accept_out_message pair message m = (r, m')" "\<And>out_id. r \<noteq> Some (Inr out_id)"
  shows "m' = m"
  using assms
  by (auto simp: accept_out_message_def Let_def split: sum.splits option.splits if_splits)

lemma match_out_run_None:
  assumes "match_out_run pair subscribed exists_reply race out_id m = Some (Inr None, m')"
  shows "\<forall>name. active_out_ids m' name = (if name = get_match_name pair
       then active_out_ids m name - {out_id} else active_out_ids m name)"
  using assms
  by (auto simp: match_out_run_def active_out_ids_def split: sum.splits bool.splits match_race.splits)

lemma match_out_run_other:
  assumes "match_out_run pair subscribed exists_reply race out_id m = Some (r, m')" "r \<noteq> Inr None"
  shows "m' = m"
  using assms by (auto simp: match_out_run_def split: sum.splits bool.splits)

text \<open>
  The IN server with the \<open>handle_out\<close> loops of the manager: a loop starts for every accepted OUT
  and calls \<open>match_out\<close> until that answers \<open>Ok(None)\<close>. (The pair's data is left as octets.)
\<close>

record in_match_system =
  ims_active :: active_outs
  ims_loops :: "(match_pair \<times> match_out_id) list"

inductive in_match_step :: "uuid_lib \<Rightarrow> in_match_system \<Rightarrow> in_match_system \<Rightarrow> bool" for lib where
  scan_accepted: "accept_out_scan lib pair scanned (ims_active s) = (Some (Inr out_id), m) \<Longrightarrow>
    in_match_step lib s \<lparr> ims_active = m, ims_loops = (pair, out_id) # ims_loops s \<rparr>"
| scan_other: "accept_out_scan lib pair scanned (ims_active s) = (r, m) \<Longrightarrow> (\<And>out_id. r \<noteq> Some (Inr out_id)) \<Longrightarrow>
    in_match_step lib s (s\<lparr>ims_active := m\<rparr>)"
| message_accepted: "accept_out_message pair message (ims_active s) = (Some (Inr out_id), m) \<Longrightarrow>
    in_match_step lib s \<lparr> ims_active = m, ims_loops = (pair, out_id) # ims_loops s \<rparr>"
| message_other: "accept_out_message pair message (ims_active s) = (r, m) \<Longrightarrow> (\<And>out_id. r \<noteq> Some (Inr out_id)) \<Longrightarrow>
    in_match_step lib s (s\<lparr>ims_active := m\<rparr>)"
| gone: "(pair, out_id) \<in> set (ims_loops s) \<Longrightarrow>
    match_out_run pair subscribed exists_reply (race :: u8 list match_race) out_id (ims_active s) = Some (Inr None, m) \<Longrightarrow>
    in_match_step lib s \<lparr> ims_active = m, ims_loops = remove1 (pair, out_id) (ims_loops s) \<rparr>"
| match_other: "(pair, out_id) \<in> set (ims_loops s) \<Longrightarrow>
    match_out_run pair subscribed exists_reply (race :: u8 list match_race) out_id (ims_active s) = Some (r, m) \<Longrightarrow> r \<noteq> Inr None \<Longrightarrow>
    in_match_step lib s (s\<lparr>ims_active := m\<rparr>)"

definition in_match_new :: in_match_system where
  "in_match_new = \<lparr> ims_active = [], ims_loops = [] \<rparr>"

definition loops_inv :: "in_match_system \<Rightarrow> bool" where
  "loops_inv s \<longleftrightarrow> distinct (ims_loops s) \<and>
     (\<forall>pair out_id. (pair, out_id) \<in> set (ims_loops s) \<longleftrightarrow>
        out_id \<in> active_out_ids (ims_active s) (get_match_name pair))"

lemma loops_inv_accept:
  assumes "loops_inv s" "out_id \<notin> active_out_ids (ims_active s) (get_match_name pair)"
    and "\<forall>name. active_out_ids m name = (if name = get_match_name pair
       then insert out_id (active_out_ids (ims_active s) name) else active_out_ids (ims_active s) name)"
  shows "loops_inv \<lparr> ims_active = m, ims_loops = (pair, out_id) # ims_loops s \<rparr>"
  using assms by (auto simp: loops_inv_def)

lemma in_match_step_inv: "in_match_step lib s s' \<Longrightarrow> loops_inv s \<Longrightarrow> loops_inv s'"
proof (induction rule: in_match_step.induct)
  case (scan_accepted pair scanned s out_id m)
  then show ?case using accept_out_scan_Some loops_inv_accept by blast
next
  case (scan_other pair scanned s r m)
  then show ?case using accept_out_scan_other [of lib pair scanned "ims_active s" r m] by (simp add: loops_inv_def)
next
  case (message_accepted pair message s out_id m)
  then show ?case using accept_out_message_Some loops_inv_accept by blast
next
  case (message_other pair message s r m)
  then show ?case using accept_out_message_other [of pair message "ims_active s" r m] by (simp add: loops_inv_def)
next
  case (gone pair out_id s subscribed exists_reply race m)
  then show ?case using match_out_run_None [OF gone(2)] by (auto simp: loops_inv_def)
next
  case (match_other pair out_id s subscribed exists_reply race r m)
  then show ?case using match_out_run_other [OF match_other(2,3)] by (simp add: loops_inv_def)
qed

lemma in_match_reachable_inv:
  assumes "(in_match_step lib)\<^sup>*\<^sup>* in_match_new s"
  shows "loops_inv s"
  using assms
  by (induction rule: rtranclp_induct)
    (auto simp: loops_inv_def in_match_new_def active_out_ids_def dest: in_match_step_inv [unfolded loops_inv_def])

section \<open>Properties\<close>

definition example_uuid_lib :: uuid_lib where
  "example_uuid_lib = \<lparr>
     uuid_show = (\<lambda>u. map (\<lambda>i. if bit u i then CHR ''1'' else CHR ''0'') [0..<128]),
     uuid_parse = (\<lambda>s. Some (horner_sum of_bool 2 (map (\<lambda>c. c = CHR ''1'') s))) \<rparr>"

lemma example_uuid_lib [simp]: "uuid_law example_uuid_lib"
proof -
  have "(\<lambda>c. c = CHR ''1'') \<circ> (\<lambda>i. if bit u i then CHR ''1'' else CHR ''0'') = bit u" for u :: uuid
    by (rule ext) simp
  then have "horner_sum of_bool 2 (map (\<lambda>c. c = CHR ''1'')
      (map (\<lambda>i. if bit u i then CHR ''1'' else CHR ''0'') [0..<128])) = u" for u :: uuid
    using horner_sum_bit_eq_take_bit [of u 128] by (simp add: take_bit_word_eq_self)
  then show ?thesis by (auto simp: uuid_law_def example_uuid_lib_def)
qed

text \<open>The key under which an OUT announces itself parses back to its id, and is seen by the
  subscription pattern of its own protocol and of no other.\<close>

theorem out_key_roundtrip:
  assumes "uuid_law lib"
  shows "get_out_id_from_redis_out_key lib (get_redis_out_key lib pair out_id) = Inr out_id \<and>
    (prefix (butlast (get_redis_out_pattern pair')) (get_redis_out_key lib pair out_id) \<longleftrightarrow> pair = pair')"
proof (rule conjI)
  show "get_out_id_from_redis_out_key lib (get_redis_out_key lib pair out_id) = Inr out_id"
    using assms by (rule out_key_parse)
qed (cases pair; cases pair'; simp)

theorem out_key_roundtrip_witness:
  "get_out_id_from_redis_out_key example_uuid_lib (get_redis_out_key example_uuid_lib Http2Pair (MatchOutId 5)) =
      Inr (MatchOutId 5) \<and>
    (prefix (butlast (get_redis_out_pattern PlugHttp2Pair))
       (get_redis_out_key example_uuid_lib Http2Pair (MatchOutId 5)) \<longleftrightarrow> Http2Pair = PlugHttp2Pair)"
  by (rule out_key_roundtrip) simp

text \<open>A payload encrypted with the shared key decrypts to itself, whatever the nonce drawn; without
  a key it passes unchanged.\<close>

theorem encrypt_decrypt:
  assumes "pred_option cipher_law c" and "length nonce = 12"
  shows "decrypt c (encrypt c nonce data) = Some (Inr data)"
  using assms by (cases c) (simp_all add: encrypt_def decrypt_def cipher_law_def)

definition example_cipher :: cipher where
  "example_cipher = \<lparr> seal = (\<lambda>nonce data. rev data @ [0]), unseal = (\<lambda>nonce data. Some (rev (butlast data))) \<rparr>"

theorem encrypt_decrypt_witness:
  "decrypt (Some example_cipher) (encrypt (Some example_cipher) (replicate 12 7) [1, 2]) = Some (Inr [1, 2])"
  by (rule encrypt_decrypt) (simp_all add: cipher_law_def example_cipher_def)

text \<open>With a key configured, any message shorter than a nonce panics its receiver, and a panic ends
  the program; this holds for every message of the channels and for the IN's data once its key has
  expired.\<close>

theorem short_message_panics:
  "receive (Some c) from_json payload = None \<longleftrightarrow> length payload < 12"
  by (simp add: receive_def decrypt_def split: option.splits)

text \<open>C35: In every reachable state of the IN server each OUT of a protocol has at most one handling
  loop, and the active set is exactly the set of OUTs with a loop: an OUT is accepted again only
  after its loop has seen it gone.\<close>

theorem out_accepted_once:
  assumes "(in_match_step lib)\<^sup>*\<^sup>* in_match_new s"
  shows "distinct (ims_loops s) \<and>
    {out_id. (pair, out_id) \<in> set (ims_loops s)} = active_out_ids (ims_active s) (get_match_name pair)"
  using in_match_reachable_inv [OF assms] by (auto simp: loops_inv_def)

theorem out_accepted_once_witness:
  "distinct (ims_loops \<lparr> ims_active = [(''quic'', {MatchOutId 5})], ims_loops = [(QuicPair, MatchOutId 5)] \<rparr>) \<and>
    {out_id. (QuicPair, out_id) \<in> set (ims_loops \<lparr> ims_active = [(''quic'', {MatchOutId 5})],
       ims_loops = [(QuicPair, MatchOutId 5)] \<rparr>)} =
    active_out_ids (ims_active \<lparr> ims_active = [(''quic'', {MatchOutId 5})],
       ims_loops = [(QuicPair, MatchOutId 5)] \<rparr>) (get_match_name QuicPair)"
proof (rule out_accepted_once [where lib = example_uuid_lib])
  have "in_match_step example_uuid_lib in_match_new
      \<lparr> ims_active = [(''quic'', {MatchOutId 5})], ims_loops = (QuicPair, MatchOutId 5) # ims_loops in_match_new \<rparr>"
    by (rule in_match_step.message_accepted [where message = "Some (Inr (MatchOutId 5))"])
      (simp add: accept_out_message_def in_match_new_def active_out_ids_def insert_active_def)
  then show "(in_match_step example_uuid_lib)\<^sup>*\<^sup>* in_match_new
      \<lparr> ims_active = [(''quic'', {MatchOutId 5})], ims_loops = [(QuicPair, MatchOutId 5)] \<rparr>"
    by (simp add: in_match_new_def r_into_rtranclp)
qed

end
