(* ===== verification/Sniffing.thy ===== *)
theory Sniffing
  imports Bytes
begin

text \<open>
  Sniffing the server name of a TLS connection (\<open>extract_sni_hostname\<close> and the reading loop of
  \<open>resolve_tcp_destination\<close>, \<open>src/lib/in/transparent_proxy.rs\<close>). The parser \<open>tls_parser\<close> is a
  parameter: what it answers for a record and for the extensions of a client hello. The loop runs
  over the answers of \<open>try_read\<close>; sleeping between two reads leaves no trace in the model.
\<close>

section \<open>The server name in a TLS record\<close>

datatype tls_message = ClientHello "u8 list option" | OtherMessage

datatype tls_plaintext = TlsIncomplete | TlsFailure | TlsPlaintext "tls_message list"

text \<open>\<open>TlsExtension::SNI(names)\<close>: each name with its type, \<open>SNIType::HostName\<close> being 0.\<close>

datatype tls_extension = SNI "(u8 \<times> u8 list) list" | OtherExtension

definition sni_host_name :: u8 where
  "sni_host_name = 0"

record tls_lib =
  parse_tls_plaintext :: "u8 list \<Rightarrow> tls_plaintext"
  parse_tls_extensions :: "u8 list \<Rightarrow> tls_extension list option"

text \<open>The two inner loops of the extraction: the first host name of the extensions.\<close>

fun first_host_name :: "(u8 \<times> u8 list) list \<Rightarrow> u8 list option" where
  "first_host_name [] = None"
| "first_host_name ((sni_type, name_bytes) # names) =
     (if sni_type = sni_host_name then Some name_bytes else first_host_name names)"

fun extensions_host_name :: "tls_extension list \<Rightarrow> u8 list option" where
  "extensions_host_name [] = None"
| "extensions_host_name (SNI names # extensions) =
     (case first_host_name names of
        Some name_bytes \<Rightarrow> Some name_bytes
      | None \<Rightarrow> extensions_host_name extensions)"
| "extensions_host_name (OtherExtension # extensions) = extensions_host_name extensions"

text \<open>The outer option: \<^const>\<open>None\<close> when the answer is not determined yet, which is also what the
  two uses of \<open>?\<close> answer.\<close>

fun messages_host_name :: "tls_lib \<Rightarrow> tls_message list \<Rightarrow> string option option" where
  "messages_host_name lib [] = Some None"
| "messages_host_name lib (ClientHello ext # messages) =
     (case ext of
        None \<Rightarrow> None
      | Some ext \<Rightarrow>
          (case parse_tls_extensions lib ext of
             None \<Rightarrow> None
           | Some extensions \<Rightarrow>
               (case extensions_host_name extensions of
                  Some name_bytes \<Rightarrow> Some (result_ok (from_utf8 name_bytes))
                | None \<Rightarrow> messages_host_name lib messages)))"
| "messages_host_name lib (OtherMessage # messages) = messages_host_name lib messages"

definition extract_sni_hostname :: "tls_lib \<Rightarrow> u8 list \<Rightarrow> string option option" where
  "extract_sni_hostname lib buffer =
     (case parse_tls_plaintext lib buffer of
        TlsIncomplete \<Rightarrow> None
      | TlsFailure \<Rightarrow> Some None
      | TlsPlaintext messages \<Rightarrow> messages_host_name lib messages)"

section \<open>The reading loop\<close>

datatype read_answer = ReadOk "u8 list" | WouldBlock | ReadError

definition read_attempts_limit :: nat where
  "read_attempts_limit = 5"

definition not_tls :: "u8 list \<Rightarrow> bool" where
  "not_tls buffer \<longleftrightarrow>
     1 \<le> length buffer \<and> buffer ! 0 \<noteq> 0x16 \<or> 2 \<le> length buffer \<and> buffer ! 1 \<noteq> 0x03"

text \<open>
  The loop with its variables \<open>sniff_buffer\<close>, \<open>read_attempts\<close> and \<open>determined\<close>, over the answers of
  the reads. The result is the name, the buffer, \<open>end\<close>, and the answers that are left for whoever
  reads on; \<^const>\<open>None\<close> when the answers run out while the loop still waits.
\<close>

record sniffed =
  sn_name :: "string option"
  sn_buffer :: "u8 list"
  sn_end :: bool
  sn_left :: "read_answer list"

fun sniff_loop ::
  "tls_lib \<Rightarrow> u8 list \<Rightarrow> nat \<Rightarrow> bool \<Rightarrow> read_answer list \<Rightarrow> sniffed option" where
  "sniff_loop lib buffer attempts determined [] = None"
| "sniff_loop lib buffer attempts determined (ReadOk bytes # left) =
     (if bytes = []
      then Some \<lparr> sn_name = None, sn_buffer = buffer, sn_end = True, sn_left = left \<rparr>
      else
        (let buffer = buffer @ bytes in
         if determined then sniff_loop lib buffer attempts determined left
         else if not_tls buffer
         then Some \<lparr> sn_name = None, sn_buffer = buffer, sn_end = False, sn_left = left \<rparr>
         else
           (case extract_sni_hostname lib buffer of
              Some hostname \<Rightarrow>
                Some \<lparr> sn_name = hostname, sn_buffer = buffer, sn_end = False, sn_left = left \<rparr>
            | None \<Rightarrow> sniff_loop lib buffer attempts determined left)))"
| "sniff_loop lib buffer attempts determined (WouldBlock # left) =
     (if \<not> determined \<and> attempts < read_attempts_limit
      then sniff_loop lib buffer (attempts + 1) determined left
      else Some \<lparr> sn_name = None, sn_buffer = buffer, sn_end = False, sn_left = left \<rparr>)"
| "sniff_loop lib buffer attempts determined (ReadError # left) =
     Some \<lparr> sn_name = None, sn_buffer = buffer, sn_end = False, sn_left = left \<rparr>"

definition sniff :: "tls_lib \<Rightarrow> read_answer list \<Rightarrow> sniffed option" where
  "sniff lib answers = sniff_loop lib [] 0 False answers"

section \<open>What the loop keeps\<close>

text \<open>The bytes that the answers hand out, up to the end of the stream.\<close>

fun read_bytes :: "read_answer \<Rightarrow> u8 list" where
  "read_bytes (ReadOk bytes) = bytes"
| "read_bytes WouldBlock = []"
| "read_bytes ReadError = []"

definition stream_bytes :: "read_answer list \<Rightarrow> u8 list" where
  "stream_bytes answers = concat (map read_bytes answers)"

lemma stream_bytes_simps [simp]:
  "stream_bytes [] = []"
  "stream_bytes (a # as) = read_bytes a @ stream_bytes as"
  by (simp_all add: stream_bytes_def)

text \<open>\<open>determined\<close> is false whenever the loop starts over: it is only set right before a \<open>break\<close>.\<close>

lemma sniff_loop_keeps_bytes:
  "sniff_loop lib buffer attempts determined answers = Some r \<Longrightarrow>
   sn_buffer r @ stream_bytes (sn_left r) = buffer @ stream_bytes answers"
  by (induction lib buffer attempts determined answers rule: sniff_loop.induct)
    (auto simp: Let_def split: if_splits option.splits)

lemma sniff_loop_end:
  "sniff_loop lib buffer attempts determined answers = Some r \<Longrightarrow>
   \<exists>consumed. answers = consumed @ sn_left r \<and> consumed \<noteq> [] \<and> (sn_end r \<longleftrightarrow> last consumed = ReadOk [])"
proof (induction lib buffer attempts determined answers rule: sniff_loop.induct)
  case (2 lib buffer attempts determined bytes left)
  have stops: ?case if "sn_left r = left" "sn_end r \<longleftrightarrow> bytes = []"
    using that by (intro exI [of _ "[ReadOk bytes]"]) simp
  have more: ?case if "\<exists>consumed. left = consumed @ sn_left r \<and> consumed \<noteq> [] \<and> (sn_end r \<longleftrightarrow> last consumed = ReadOk [])"
    using that by (metis append_Cons last_ConsR list.distinct(1))
  show ?case using 2 by (auto simp: Let_def split: if_splits option.splits intro!: stops more)
next
  case (3 lib buffer attempts determined left)
  have stops: ?case if "sn_left r = left" "\<not> sn_end r"
    using that by (intro exI [of _ "[WouldBlock]"]) simp
  have more: ?case if "\<exists>consumed. left = consumed @ sn_left r \<and> consumed \<noteq> [] \<and> (sn_end r \<longleftrightarrow> last consumed = ReadOk [])"
    using that by (metis append_Cons last_ConsR list.distinct(1))
  show ?case using 3 by (auto split: if_splits intro!: stops more)
qed (auto intro!: exI [of _ "[ReadError]"])

lemma sniff_loop_name:
  "sniff_loop lib buffer attempts False answers = Some r \<Longrightarrow> sn_name r = Some name \<Longrightarrow>
   extract_sni_hostname lib (sn_buffer r) = Some (Some name) \<and> \<not> not_tls (sn_buffer r) \<and> \<not> sn_end r"
  by (induction lib buffer attempts "False" answers rule: sniff_loop.induct)
    (auto simp: Let_def split: if_splits option.splits)

section \<open>When the loop ends\<close>

lemma sniff_loop_ends:
  assumes "ReadOk [] \<in> set answers \<or> ReadError \<in> set answers \<or>
    read_attempts_limit - attempts < count_list answers WouldBlock"
  shows "sniff_loop lib buffer attempts determined answers \<noteq> None"
  using assms
proof (induction lib buffer attempts determined answers rule: sniff_loop.induct)
  case (3 lib buffer attempts determined left)
  show ?case
  proof (cases "\<not> determined \<and> attempts < read_attempts_limit")
    case True
    then have "ReadOk [] \<in> set left \<or> ReadError \<in> set left \<or>
        read_attempts_limit - (attempts + 1) < count_list left WouldBlock"
      using 3(2) by auto
    with True show ?thesis using 3(1) by simp
  next
    case False
    then show ?thesis by auto
  qed
qed (auto simp: Let_def split: if_splits option.splits)

text \<open>A parser that determines every buffer of some length.\<close>

definition determines_within :: "tls_lib \<Rightarrow> nat \<Rightarrow> bool" where
  "determines_within lib n \<longleftrightarrow>
     (\<forall>buffer. extract_sni_hostname lib buffer = None \<longrightarrow> length buffer < n)"

lemma sniff_loop_bounded:
  assumes "determines_within lib n"
    and "(n - length buffer) + (read_attempts_limit - attempts) < length answers"
  shows "sniff_loop lib buffer attempts False answers \<noteq> None"
  using assms
proof (induction lib buffer attempts "False" answers rule: sniff_loop.induct)
  case (2 lib buffer attempts bytes left)
  show ?case
  proof (cases "bytes = [] \<or> not_tls (buffer @ bytes) \<or> extract_sni_hostname lib (buffer @ bytes) \<noteq> None")
    case True
    then show ?thesis by (auto simp: Let_def)
  next
    case False
    then have "length (buffer @ bytes) < n" using 2(3) unfolding determines_within_def by blast
    moreover have "0 < length bytes" using False by simp
    ultimately have "(n - length (buffer @ bytes)) + (read_attempts_limit - attempts) < length left"
      using 2(4) by (simp only: length_append list.size)
    then show ?thesis using 2 False by (simp add: Let_def)
  qed
qed auto

text \<open>As long as the client hello has no extensions the answer is never determined.\<close>

lemma sniff_loop_undetermined:
  assumes "\<And>more. extract_sni_hostname lib (buffer @ more) = None" and "\<And>more. \<not> not_tls (buffer @ more)"
    and "ReadOk [] \<notin> set answers" "ReadError \<notin> set answers"
    and "count_list answers WouldBlock + attempts \<le> read_attempts_limit"
  shows "sniff_loop lib buffer attempts False answers = None"
  using assms
proof (induction lib buffer attempts "False" answers rule: sniff_loop.induct)
  case (2 lib buffer attempts bytes left)
  have "sniff_loop lib (buffer @ bytes) attempts False left = None"
  proof (rule 2(2) [OF _ refl])
    show "bytes \<noteq> []" using 2(5) by auto
    show "\<not> False" by simp
    show "\<not> not_tls (buffer @ bytes)" by (rule 2(4))
    show "extract_sni_hostname lib (buffer @ bytes) = None" by (rule 2(3))
    show "extract_sni_hostname lib ((buffer @ bytes) @ more) = None" for more
      using 2(3) [of "bytes @ more"] by simp
    show "\<not> not_tls ((buffer @ bytes) @ more)" for more using 2(4) [of "bytes @ more"] by simp
  qed (use 2(5-7) in auto)
  then show ?case using 2(3-5) by (auto simp: Let_def)
qed auto

section \<open>Properties\<close>

text \<open>C21: Sniffing loses nothing: the sniffed bytes followed by what is left to read are the bytes the
  client sends, in order and once; the end is reported exactly when the last read found it, and a
  name is one that the parser finds in the sniffed bytes.\<close>

theorem sniffing_keeps_stream:
  assumes "sniff lib answers = Some r"
  shows "sn_buffer r @ stream_bytes (sn_left r) = stream_bytes answers \<and>
    (\<exists>consumed. answers = consumed @ sn_left r \<and> consumed \<noteq> [] \<and>
       (sn_end r \<longleftrightarrow> last consumed = ReadOk [])) \<and>
    (\<forall>name. sn_name r = Some name \<longrightarrow> extract_sni_hostname lib (sn_buffer r) = Some (Some name))"
  using assms sniff_loop_keeps_bytes [of lib "[]" 0 False answers r]
    sniff_loop_end [of lib "[]" 0 False answers r] sniff_loop_name [of lib "[]" 0 answers r]
  by (simp add: sniff_def)

text \<open>A stand-in for the parser: the fourth octet says how many octets the name has, which follow.\<close>

definition example_tls :: tls_lib where
  "example_tls =
     \<lparr> parse_tls_plaintext = (\<lambda>buffer.
         if length buffer < 4 \<or> length buffer < 4 + unat (buffer ! 3) then TlsIncomplete
         else TlsPlaintext [ClientHello
           (if buffer ! 3 = 0 then None else Some (take (unat (buffer ! 3)) (drop 4 buffer)))]),
       parse_tls_extensions = (\<lambda>ext. Some [OtherExtension, SNI [(1, [0]), (0, ext)]]) \<rparr>"

lemma from_utf8_a: "from_utf8 [97] = Inr ''a''"
  using from_utf8_bytes_of [of "''a''"] by (simp add: rust_string_def bytes_of_def utf8_width_def)

lemma example_sniff:
  "sniff example_tls [ReadOk [0x16, 3], WouldBlock, ReadOk [1, 1, 97, 98], ReadOk [99]] =
     Some \<lparr> sn_name = Some ''a'', sn_buffer = [0x16, 3, 1, 1, 97, 98], sn_end = False, sn_left = [ReadOk [99]] \<rparr>"
  by (simp add: sniff_def not_tls_def extract_sni_hostname_def example_tls_def read_attempts_limit_def
      sni_host_name_def from_utf8_a numeral_3_eq_3)

theorem sniffing_keeps_stream_witness:
  "[0x16, 3, 1, 1, 97, 98] @ stream_bytes [ReadOk [99]] =
     stream_bytes [ReadOk [0x16, 3], WouldBlock, ReadOk [1, 1, 97, 98], ReadOk [99]] \<and>
   extract_sni_hostname example_tls [0x16, 3, 1, 1, 97, 98] = Some (Some ''a'')"
  using sniffing_keeps_stream [OF example_sniff] by simp

text \<open>C22: Sniffing ends as soon as the stream ends or fails, and at the latest with the sixth read that
  finds nothing; where the parser determines every buffer of \<open>n\<close> octets, any \<open>n + 6\<close> reads are
  enough.\<close>

theorem sniffing_ends:
  assumes "ReadOk [] \<in> set answers \<or> ReadError \<in> set answers \<or> 6 \<le> count_list answers WouldBlock \<or>
    determines_within lib n \<and> n + 6 \<le> length answers"
  shows "\<exists>r. sniff lib answers = Some r"
  using assms sniff_loop_ends [of answers 0 lib "[]" False] sniff_loop_bounded [of lib n "[]" 0 answers]
  by (auto simp: sniff_def read_attempts_limit_def)

theorem sniffing_ends_witness:
  "\<exists>r. sniff example_tls (ReadOk [0x16] # replicate 6 WouldBlock) = Some r"
  by (rule sniffing_ends [where n = 0]) (simp add: eval_nat_numeral)

text \<open>A complete client hello without extensions is never determined: the loop takes it for
  incomplete, polls through all its attempts, and reads without bound while the client keeps
  sending.\<close>

theorem hello_without_extensions_undetermined:
  assumes "\<And>more. parse_tls_plaintext lib ([0x16, 0x03] @ record @ more) = TlsPlaintext [ClientHello None]"
    and "[] \<notin> set chunks"
  shows "sniff lib (ReadOk ([0x16, 0x03] @ record) # replicate k WouldBlock @ map ReadOk chunks) =
    (if k \<le> 5 then None
     else Some \<lparr> sn_name = None, sn_buffer = [0x16, 0x03] @ record, sn_end = False,
       sn_left = replicate (k - 6) WouldBlock @ map ReadOk chunks \<rparr>)"
proof -
  let ?b = "[0x16, 0x03] @ record"
  have undetermined: "extract_sni_hostname lib (?b @ more) = None" for more
    using assms(1) [of more] by (simp add: extract_sni_hostname_def)
  have tls: "\<not> not_tls (?b @ more)" for more by (simp add: not_tls_def)
  have blocks: "sniff_loop lib b i False (replicate k WouldBlock @ left) =
      (if k + i \<le> 5 then sniff_loop lib b (k + i) False left
       else Some \<lparr> sn_name = None, sn_buffer = b, sn_end = False, sn_left = replicate (k - (6 - i)) WouldBlock @ left \<rparr>)"
    if "i \<le> 5" for b i left
    using that
  proof (induction k arbitrary: i)
    case (Suc k)
    show ?case
    proof (cases "i = 5")
      case True
      then show ?thesis by (simp add: read_attempts_limit_def)
    next
      case False
      moreover have "k - (6 - (i + 1)) = Suc k - (6 - i)" using False Suc.prems by simp
      ultimately show ?thesis using Suc by (simp add: read_attempts_limit_def)
    qed
  qed simp
  have "count_list (map ReadOk chunks) WouldBlock = 0" by (induction chunks) auto
  then have "sniff_loop lib ?b k False (map ReadOk chunks) = None" if "k \<le> 5"
    using assms(2) that
    by (intro sniff_loop_undetermined undetermined tls) (auto simp: read_attempts_limit_def)
  then show ?thesis
    using undetermined [of "[]"] tls [of "[]"] blocks [of 0 ?b "map ReadOk chunks"]
    by (simp add: sniff_def Let_def)
qed

theorem hello_without_extensions_undetermined_witness:
  "sniff example_tls (ReadOk ([0x16, 0x03] @ [1, 0]) # replicate 0 WouldBlock @ map ReadOk [[7], [8]]) = None"
  using hello_without_extensions_undetermined [of example_tls "[1, 0]" "[[7], [8]]" 0]
  by (simp add: example_tls_def)

end
