(* ===== verification/Geolite.thy ===== *)
theory Geolite
  imports Rule
begin

text \<open>
  The GeoLite2 database (\<open>src/lib/route/geolite2.rs\<close>): the reader in memory, its cache file, the
  lookup of region codes and the update task. The format of the database (\<open>maxminddb\<close>), the file
  system and the download are parameters; times are milliseconds.
\<close>

section \<open>State\<close>

text \<open>\<open>geoip2::Country\<close>: country and continent may be absent, and so may their codes.\<close>

record geo_country =
  geo_country_code :: "string option option"
  geo_continent_code :: "string option option"

record 'db geo_lib =
  geo_parse :: "u8 list \<Rightarrow> 'db option"
  geo_find :: "'db \<Rightarrow> ip_addr \<Rightarrow> geo_country option"

record 'db geolite2 =
  geo_reader :: "'db option"
  geo_cache :: "u8 list option"

definition retry_interval :: nat where
  "retry_interval = 30000"

section \<open>Starting\<close>

text \<open>The cache file: its age is unknown when it was modified in the future.\<close>

datatype cache_file = CacheMissing | CacheUnreadable | CacheFile "nat option" "u8 list"

text \<open>\<open>GeoLite2::new\<close> with the delay of the first update; \<^const>\<open>None\<close> when it panics.\<close>

fun geolite2_new :: "'db geo_lib \<Rightarrow> cache_file \<Rightarrow> nat \<Rightarrow> ('db geolite2 \<times> nat) option" where
  "geolite2_new lib CacheMissing update_interval = Some (\<lparr> geo_reader = None, geo_cache = None \<rparr>, 0)"
| "geolite2_new lib CacheUnreadable update_interval = None"
| "geolite2_new lib (CacheFile age data) update_interval =
     (case geo_parse lib data of
        None \<Rightarrow> None
      | Some db \<Rightarrow>
          Some (\<lparr> geo_reader = Some db, geo_cache = Some data \<rparr>,
            update_interval - (case age of None \<Rightarrow> 0 | Some a \<Rightarrow> a)))"

section \<open>Lookup\<close>

definition geo_lookup :: "'db geo_lib \<Rightarrow> 'db geolite2 \<Rightarrow> ip_addr \<Rightarrow> string list option" where
  "geo_lookup lib g ip =
     (case geo_reader g of
        None \<Rightarrow> None
      | Some db \<Rightarrow>
          (case geo_find lib db ip of
             None \<Rightarrow> None
           | Some record \<Rightarrow>
               Some ((case geo_country_code record of Some (Some code) \<Rightarrow> [code] | _ \<Rightarrow> []) @
                     (case geo_continent_code record of Some (Some code) \<Rightarrow> [code] | _ \<Rightarrow> []))))"

section \<open>Updating\<close>

text \<open>A failed write may leave any part of the data in the file.\<close>

datatype download = DownloadFailed | WriteFailure "u8 list option" | Downloaded "u8 list"

text \<open>One round of \<open>schedule_reader_update\<close>, with the delay of the next one: the file is written
  before the data is parsed.\<close>

fun geo_update :: "'db geo_lib \<Rightarrow> nat \<Rightarrow> download \<Rightarrow> 'db geolite2 \<Rightarrow> 'db geolite2 \<times> nat" where
  "geo_update lib update_interval DownloadFailed g = (g, retry_interval)"
| "geo_update lib update_interval (WriteFailure left) g = (g\<lparr>geo_cache := left\<rparr>, retry_interval)"
| "geo_update lib update_interval (Downloaded data) g =
     (let g = g\<lparr>geo_cache := Some data\<rparr> in
      case geo_parse lib data of
        None \<Rightarrow> (g, retry_interval)
      | Some db \<Rightarrow> (g\<lparr>geo_reader := Some db\<rparr>, update_interval))"

definition geo_updates :: "'db geo_lib \<Rightarrow> nat \<Rightarrow> download list \<Rightarrow> 'db geolite2 \<Rightarrow> 'db geolite2" where
  "geo_updates lib update_interval downloads g =
     foldl (\<lambda>g d. fst (geo_update lib update_interval d g)) g downloads"

definition parsed_download :: "'db geo_lib \<Rightarrow> download \<Rightarrow> 'db option" where
  "parsed_download lib d = (case d of Downloaded data \<Rightarrow> geo_parse lib data | _ \<Rightarrow> None)"

lemma geo_reader_update:
  "geo_reader (fst (geo_update lib i d g)) =
     (case parsed_download lib d of Some db \<Rightarrow> Some db | None \<Rightarrow> geo_reader g)"
  by (cases d) (auto simp: parsed_download_def Let_def split: option.splits)

lemma geo_reader_updates:
  "geo_reader (geo_updates lib i ds g) =
     (case List.map_filter (parsed_download lib) ds of [] \<Rightarrow> geo_reader g | dbs \<Rightarrow> Some (last dbs))"
proof (induction ds rule: rev_induct)
  case (snoc d ds)
  then show ?case
    by (cases "parsed_download lib d")
      (auto simp: geo_updates_def geo_reader_update List.map_filter_def split: list.splits option.splits)
qed (simp add: geo_updates_def List.map_filter_def)

section \<open>Properties\<close>

text \<open>Whatever the downloads answer, lookups use the last one that was a database, and the one read
  at the start before that; without any, no geo-IP rule gives a label, not even a negated one.\<close>

theorem geo_lookup_latest:
  "geo_lookup lib (geo_updates lib i downloads g) ip =
     geo_lookup lib (g\<lparr>geo_reader := (case List.map_filter (parsed_download lib) downloads of
       [] \<Rightarrow> geo_reader g | dbs \<Rightarrow> Some (last dbs))\<rparr>) ip \<and>
   (geo_reader g = None \<longrightarrow> List.map_filter (parsed_download lib) downloads = [] \<longrightarrow>
      rule_match rlib (GeoIpRule r) address domain (geo_lookup lib (geo_updates lib i downloads g) ip) any = None)"
  by (simp add: geo_lookup_def geo_reader_updates geoip_match_def split: list.splits)

definition example_geo :: "string geo_lib" where
  "example_geo = \<lparr> geo_parse = (\<lambda>data. if data = [] then None else Some ''db''),
     geo_find = (\<lambda>db ip. Some \<lparr> geo_country_code = Some (Some db), geo_continent_code = None \<rparr>) \<rparr>"

theorem geo_lookup_latest_witness:
  "geo_lookup example_geo (geo_updates example_geo 0 [Downloaded [1], Downloaded []]
     \<lparr> geo_reader = None, geo_cache = None \<rparr>) (IpV4 1) = Some [''db'']"
  using geo_lookup_latest [of example_geo 0 "[Downloaded [1], Downloaded []]"
      "\<lparr> geo_reader = None, geo_cache = None \<rparr>" "IpV4 1"]
  by (simp add: geo_lookup_def example_geo_def parsed_download_def List.map_filter_def)

text \<open>A download that is no database, such as an error page, is written over the cache before it is
  found out: the running program goes on with its reader, but the next start panics.\<close>

theorem bad_download_breaks_restart:
  assumes "geo_parse lib data = None"
  shows "let (g', delay) = geo_update lib i (Downloaded data) g in
    geo_reader g' = geo_reader g \<and> geo_cache g' = Some data \<and> delay = retry_interval \<and>
    (\<forall>age. geolite2_new lib (CacheFile age data) i = None)"
  using assms by simp

theorem bad_download_breaks_restart_witness:
  "geolite2_new example_geo (CacheFile None []) 0 = None"
  using bad_download_breaks_restart [of example_geo "[]" 0 "\<lparr> geo_reader = None, geo_cache = None \<rparr>"] by (simp add: example_geo_def)

end
