(* ===== verification/Udp_Forwarder.thy ===== *)
theory Udp_Forwarder
  imports Net
begin

text \<open>
  The UDP forwarder (\<open>src/lib/in/udp_forwarder.rs\<close>): one association per source address with its
  own socket towards the destinations, the two maps between original (possibly fake) and real
  destinations, the sockets that answer in the name of an original destination, and the clean-up of
  an association that was idle. The system is a parameter: what opening, binding and sending answer.

  The task of an association ends with an error of its reading task, which lets go of its sockets
  before the clean-up is woken, or by the timeout, which wakes the clean-up before the reading task is
  dropped; the clean-up runs later, before or after that, and datagrams may come in between.
\<close>

section \<open>State\<close>

text \<open>
  \<open>as_running\<close>: the reading and the timeout task run, so the channel of the activity signal has a
  receiver. \<open>as_related\<close> are the response sockets the reading task holds; \<open>uf_dropping\<close> are those of
  reading tasks that timed out and are not dropped yet.
\<close>

record association =
  as_original_to_real :: "(socket_addr, socket_addr) hash_map"
  as_real_to_original :: "(socket_addr, socket_addr) hash_map"
  as_related :: "(socket_addr, nat) hash_map"
  as_running :: bool

record udp_forwarder =
  uf_associations :: "(socket_addr, association) hash_map"
  uf_response_sockets :: "(socket_addr, nat) hash_map"
  uf_next_socket :: nat
  uf_dropping :: "(socket_addr, nat) hash_map list"

definition udp_forwarder_new :: udp_forwarder where
  "udp_forwarder_new =
     \<lparr> uf_associations = [], uf_response_sockets = [], uf_next_socket = 0, uf_dropping = [] \<rparr>"

definition association_new :: association where
  "association_new =
     \<lparr> as_original_to_real = [], as_real_to_original = [], as_related = [], as_running = True \<rparr>"

text \<open>Opening a socket: creating it and setting its options is unwrapped, binding may be handed up.\<close>

datatype socket_answer = SocketPanics | BindFails error | SocketBound

section \<open>Operations\<close>

definition get_associated_destination ::
  "udp_forwarder \<Rightarrow> socket_addr \<Rightarrow> socket_addr \<Rightarrow> socket_addr option" where
  "get_associated_destination fw source original =
     Option.bind (map_of (uf_associations fw) source)
       (\<lambda>association. map_of (as_original_to_real association) original)"

text \<open>\<open>Association::send\<close>: signalling an ended association fails before anything is changed.\<close>

definition association_send ::
  "unit result \<Rightarrow> socket_addr \<Rightarrow> socket_addr \<Rightarrow> association \<Rightarrow> unit result \<times> association" where
  "association_send sent original real association =
     (if \<not> as_running association then (Inl (External ''channel closed''), association)
      else
        (sent,
         association\<lparr>
           as_real_to_original := AList.update real original (as_real_to_original association),
           as_original_to_real := AList.update original real (as_original_to_real association)\<rparr>))"

text \<open>
  \<open>UdpForwarder::send\<close>; \<^const>\<open>None\<close> when the delegate socket of a new association panics. \<open>sent\<close>
  is what sending from the delegate socket to \<open>real\<close> answers.
\<close>

definition udp_send ::
  "socket_answer \<Rightarrow> unit result \<Rightarrow> socket_addr \<Rightarrow> socket_addr \<Rightarrow> socket_addr \<Rightarrow> udp_forwarder \<Rightarrow>
   (unit result \<times> udp_forwarder) option" where
  "udp_send opened sent source original real fw =
     (let entry = (case map_of (uf_associations fw) source of
            Some association \<Rightarrow> Some association
          | None \<Rightarrow> if opened = SocketBound then Some association_new else None)
      in case entry of
           None \<Rightarrow> None
         | Some association \<Rightarrow>
             (let (r, association) = association_send sent original real association
              in Some (r, fw\<lparr>uf_associations :=
                   AList.update source association (uf_associations fw)\<rparr>)))"

definition assign_response_socket ::
  "socket_answer \<Rightarrow> socket_addr \<Rightarrow> udp_forwarder \<Rightarrow> (nat result \<times> udp_forwarder) option" where
  "assign_response_socket opened original fw =
     (case map_of (uf_response_sockets fw) original of
        Some socket \<Rightarrow> Some (Inr socket, fw)
      | None \<Rightarrow>
          (case opened of
             SocketPanics \<Rightarrow> None
           | BindFails e \<Rightarrow> Some (Inl e, fw)
           | SocketBound \<Rightarrow>
               Some (Inr (uf_next_socket fw),
                 fw\<lparr>uf_response_sockets :=
                      AList.update original (uf_next_socket fw) (uf_response_sockets fw),
                    uf_next_socket := uf_next_socket fw + 1\<rparr>)))"

text \<open>The end of an association's task by an error of its reading task.\<close>

definition end_association :: "socket_addr \<Rightarrow> udp_forwarder \<Rightarrow> udp_forwarder" where
  "end_association source fw =
     (case map_of (uf_associations fw) source of
        None \<Rightarrow> fw
      | Some association \<Rightarrow>
          fw\<lparr>uf_associations := AList.update source
            (association\<lparr>as_running := False, as_related := []\<rparr>) (uf_associations fw)\<rparr>)"

text \<open>
  The end by the timeout: \<open>timeout_sender.send\<close> wakes the clean-up, and only then does \<open>select!\<close> drop
  the reading task with its sockets (\<open>drop_reading_task\<close>).
\<close>

definition time_out_association :: "socket_addr \<Rightarrow> udp_forwarder \<Rightarrow> udp_forwarder" where
  "time_out_association source fw =
     (case map_of (uf_associations fw) source of
        None \<Rightarrow> fw
      | Some association \<Rightarrow>
          fw\<lparr>uf_associations := AList.update source
               (association\<lparr>as_running := False, as_related := []\<rparr>) (uf_associations fw),
             uf_dropping := as_related association # uf_dropping fw\<rparr>)"

definition drop_reading_task :: "(socket_addr, nat) hash_map \<Rightarrow> udp_forwarder \<Rightarrow> udp_forwarder" where
  "drop_reading_task related fw = fw\<lparr>uf_dropping := remove1 related (uf_dropping fw)\<rparr>"

text \<open>
  One round of the reading task: a datagram from \<open>real\<close> is answered to the source from the socket
  bound to the original destination, if there is one. The first component is that destination,
  \<^const>\<open>None\<close> if the task ends with an error.
\<close>

definition udp_reply ::
  "socket_answer \<Rightarrow> unit result \<Rightarrow> socket_addr \<Rightarrow> socket_addr \<Rightarrow> association \<Rightarrow> udp_forwarder \<Rightarrow>
   (socket_addr option \<times> udp_forwarder) option" where
  "udp_reply opened sent source real association fw =
     (let original = unwrap_or (map_of (as_real_to_original association) real) real in
      case assign_response_socket opened original fw of
        None \<Rightarrow> None
      | Some (Inl _, fw) \<Rightarrow> Some (None, end_association source fw)
      | Some (Inr socket, fw) \<Rightarrow>
          (let fw = fw\<lparr>uf_associations := AList.update source
                 (association\<lparr>as_related := AList.update original socket (as_related association)\<rparr>)
                 (uf_associations fw)\<rparr>
           in case sent of
                Inl _ \<Rightarrow> Some (None, end_association source fw)
              | Inr _ \<Rightarrow> Some (Some original, fw)))"

text \<open>
  The clean-up after the end: the association is removed and every response socket that only the map
  holds is closed. \<open>strong_count\<close> counts the map's own reference and those of the reading tasks.
\<close>

definition strong_count :: "udp_forwarder \<Rightarrow> nat \<Rightarrow> nat" where
  "strong_count fw socket =
     1 + length (filter (\<lambda>(_, s). s = socket) (concat (map (\<lambda>(_, a). as_related a) (uf_associations fw) @ uf_dropping fw)))"

definition remove_association :: "socket_addr \<Rightarrow> udp_forwarder \<Rightarrow> udp_forwarder" where
  "remove_association source fw =
     (let fw = fw\<lparr>uf_associations := AList.delete source (uf_associations fw)\<rparr>
      in fw\<lparr>uf_response_sockets :=
           filter (\<lambda>(_, socket). 1 < strong_count fw socket) (uf_response_sockets fw)\<rparr>)"

text \<open>
  A datagram as the proxy forwards it (\<open>listen_udp_task\<close> in \<open>src/lib/in/transparent_proxy.rs\<close>): to
  the associated destination, else to the one it resolves to; without either it is dropped.
\<close>

definition udp_forward ::
  "socket_answer \<Rightarrow> unit result \<Rightarrow> socket_addr \<Rightarrow> socket_addr \<Rightarrow> socket_addr option \<Rightarrow> udp_forwarder \<Rightarrow>
   (unit result \<times> udp_forwarder) option" where
  "udp_forward opened sent source original resolved fw =
     (case (case get_associated_destination fw source original of
              Some real \<Rightarrow> Some real | None \<Rightarrow> resolved) of
        None \<Rightarrow> Some (Inr (), fw)
      | Some real \<Rightarrow> udp_send opened sent source original real fw)"

section \<open>Steps\<close>

inductive udp_step :: "udp_forwarder \<Rightarrow> udp_forwarder \<Rightarrow> bool" where
  forward: "udp_forward opened sent source original resolved fw = Some (r, fw') \<Longrightarrow> udp_step fw fw'"
| reply: "map_of (uf_associations fw) source = Some association \<Longrightarrow> as_running association \<Longrightarrow>
    udp_reply opened sent source real association fw = Some (delivered, fw') \<Longrightarrow> udp_step fw fw'"
| ended: "map_of (uf_associations fw) source = Some association \<Longrightarrow> as_running association \<Longrightarrow>
    udp_step fw (end_association source fw)"
| timed_out: "map_of (uf_associations fw) source = Some association \<Longrightarrow> as_running association \<Longrightarrow>
    udp_step fw (time_out_association source fw)"
| task_dropped: "related \<in> set (uf_dropping fw) \<Longrightarrow> udp_step fw (drop_reading_task related fw)"
| removed: "map_of (uf_associations fw) source = Some association \<Longrightarrow> \<not> as_running association \<Longrightarrow>
    udp_step fw (remove_association source fw)"

definition udp_reachable :: "udp_forwarder \<Rightarrow> bool" where
  "udp_reachable fw \<longleftrightarrow> udp_step\<^sup>*\<^sup>* udp_forwarder_new fw"

inductive_cases udp_stepE: "udp_step fw fw'"

section \<open>Invariant\<close>

text \<open>
  Of one association: the destination by which a reply is named has the reply's sender as its real
  destination, every real destination in use is named, and an ended task holds no socket. Of the
  forwarder: the sockets that tasks hold are those of the map, whose sockets are all different.
\<close>

definition association_inv :: "association \<Rightarrow> bool" where
  "association_inv a \<longleftrightarrow>
     (\<forall>r o1. map_of (as_real_to_original a) r = Some o1 \<longrightarrow> map_of (as_original_to_real a) o1 = Some r) \<and>
     (\<forall>o1 r. map_of (as_original_to_real a) o1 = Some r \<longrightarrow> (\<exists>o2. map_of (as_real_to_original a) r = Some o2)) \<and>
     distinct (map fst (as_related a)) \<and> (\<not> as_running a \<longrightarrow> as_related a = [])"

definition sockets_inv :: "udp_forwarder \<Rightarrow> bool" where
  "sockets_inv fw \<longleftrightarrow>
     distinct (map fst (uf_associations fw)) \<and> distinct (map fst (uf_response_sockets fw)) \<and>
     (\<forall>o1 o2 s. map_of (uf_response_sockets fw) o1 = Some s \<longrightarrow> map_of (uf_response_sockets fw) o2 = Some s \<longrightarrow> o1 = o2) \<and>
     (\<forall>o1 s. map_of (uf_response_sockets fw) o1 = Some s \<longrightarrow> s < uf_next_socket fw)"

definition udp_inv :: "udp_forwarder \<Rightarrow> bool" where
  "udp_inv fw \<longleftrightarrow> sockets_inv fw \<and>
     (\<forall>related \<in> set (uf_dropping fw). distinct (map fst related) \<and>
        (\<forall>o1 s. map_of related o1 = Some s \<longrightarrow> map_of (uf_response_sockets fw) o1 = Some s)) \<and>
     (\<forall>source a. map_of (uf_associations fw) source = Some a \<longrightarrow> association_inv a \<and>
        (\<forall>o1 s. map_of (as_related a) o1 = Some s \<longrightarrow> map_of (uf_response_sockets fw) o1 = Some s))"

lemma udp_inv_new: "udp_inv udp_forwarder_new"
  by (simp add: udp_inv_def sockets_inv_def udp_forwarder_new_def)

lemma association_inv_new: "association_inv association_new"
  by (simp add: association_inv_def association_new_def)

lemma association_inv_send:
  assumes "association_inv a" "association_send sent original real a = (r, a')"
    and "map_of (as_original_to_real a) original \<in> {None, Some real}"
  shows "association_inv a'"
  using assms by (auto simp: association_inv_def association_send_def split: if_splits)

lemma association_send_keeps:
  "association_send sent original real a = (r, a') \<Longrightarrow>
   as_related a' = as_related a \<and> as_running a' = as_running a"
  by (auto simp: association_send_def split: if_splits)

text \<open>Updating one association, or ending one, keeps the invariant.\<close>

lemma udp_inv_update:
  assumes "udp_inv fw" "association_inv a"
    and "\<And>o1 s. map_of (as_related a) o1 = Some s \<Longrightarrow> map_of (uf_response_sockets fw) o1 = Some s"
  shows "udp_inv (fw\<lparr>uf_associations := AList.update source a (uf_associations fw)\<rparr>)"
  using assms by (auto simp: udp_inv_def sockets_inv_def)

lemma udp_inv_end:
  assumes "udp_inv fw"
  shows "udp_inv (end_association source fw)"
proof (cases "map_of (uf_associations fw) source")
  case (Some a)
  then have "association_inv a" using assms by (simp add: udp_inv_def)
  then have "udp_inv (fw\<lparr>uf_associations := AList.update source
      (a\<lparr>as_running := False, as_related := []\<rparr>) (uf_associations fw)\<rparr>)"
    by (intro udp_inv_update [OF assms]) (simp_all add: association_inv_def)
  then show ?thesis using Some by (simp add: end_association_def)
qed (use assms in \<open>simp add: end_association_def\<close>)

lemma udp_inv_dropping:
  assumes "udp_inv fw"
    and "\<And>related o1 s. related \<in> set tasks \<Longrightarrow> distinct (map fst related) \<and>
      (map_of related o1 = Some s \<longrightarrow> map_of (uf_response_sockets fw) o1 = Some s)"
  shows "udp_inv (fw\<lparr>uf_dropping := tasks\<rparr>)"
  using assms by (simp add: udp_inv_def sockets_inv_def)

lemma udp_inv_time_out:
  assumes "udp_inv fw"
  shows "udp_inv (time_out_association source fw)"
proof (cases "map_of (uf_associations fw) source")
  case (Some a)
  let ?ended = "end_association source fw"
  have same: "uf_response_sockets ?ended = uf_response_sockets fw" "uf_dropping ?ended = uf_dropping fw"
    using Some by (simp_all add: end_association_def)
  have "time_out_association source fw = ?ended\<lparr>uf_dropping := as_related a # uf_dropping fw\<rparr>"
    using Some by (simp add: time_out_association_def end_association_def)
  moreover have "udp_inv (?ended\<lparr>uf_dropping := as_related a # uf_dropping fw\<rparr>)"
  proof (rule udp_inv_dropping [OF udp_inv_end [OF assms]])
    fix related o1 s
    assume "related \<in> set (as_related a # uf_dropping fw)"
    then show "distinct (map fst related) \<and> (map_of related o1 = Some s \<longrightarrow> map_of (uf_response_sockets ?ended) o1 = Some s)"
      unfolding same using assms Some by (auto simp: udp_inv_def association_inv_def)
  qed
  ultimately show ?thesis by simp
qed (use assms in \<open>simp add: time_out_association_def\<close>)

lemma udp_inv_drop:
  assumes "udp_inv fw"
  shows "udp_inv (drop_reading_task related fw)"
  unfolding drop_reading_task_def
  by (rule udp_inv_dropping [OF assms]) (use assms set_remove1_subset [of related "uf_dropping fw"] in \<open>auto simp: udp_inv_def\<close>)

lemma udp_forward_cases:
  assumes "udp_forward opened sent source original resolved fw = Some (r, fw')"
  obtains (dropped) "fw' = fw" "r = Inr ()"
  | (sends) a a' real where
      "map_of (uf_associations fw) source = Some a \<or>
         map_of (uf_associations fw) source = None \<and> a = association_new"
      "association_send sent original real a = (r, a')"
      "map_of (as_original_to_real a) original \<in> {None, Some real}"
      "fw' = fw\<lparr>uf_associations := AList.update source a' (uf_associations fw)\<rparr>"
proof (cases "case get_associated_destination fw source original of Some real \<Rightarrow> Some real | None \<Rightarrow> resolved")
  case None
  then show thesis using assms dropped by (simp add: udp_forward_def)
next
  case (Some real)
  then have send: "udp_send opened sent source original real fw = Some (r, fw')"
    using assms by (simp add: udp_forward_def)
  show thesis
  proof (cases "map_of (uf_associations fw) source")
    case None
    obtain r' a' where "association_send sent original real association_new = (r', a')" by fastforce
    then show thesis
      using send None sends [of association_new real a']
      by (simp add: udp_send_def association_new_def split: if_splits)
  next
    case (Some a)
    obtain r' a' where "association_send sent original real a = (r', a')" by fastforce
    moreover have "map_of (as_original_to_real a) original \<in> {None, Some real}"
      using Some \<open>_ = Some real\<close> by (auto simp: get_associated_destination_def split: option.splits)
    ultimately show thesis
      using send Some sends [of a real a'] by (simp add: udp_send_def)
  qed
qed

lemma udp_inv_forward:
  assumes "udp_inv fw" "udp_forward opened sent source original resolved fw = Some (r, fw')"
  shows "udp_inv fw'"
  using assms(2)
proof (cases rule: udp_forward_cases)
  case (sends a a' real)
  have a: "association_inv a" "\<And>o1 s. map_of (as_related a) o1 = Some s \<Longrightarrow> map_of (uf_response_sockets fw) o1 = Some s"
    using sends(1) assms(1) association_inv_new by (auto simp: udp_inv_def association_new_def)
  show ?thesis unfolding sends(4)
    by (rule udp_inv_update [OF assms(1) association_inv_send [OF a(1) sends(2,3)]])
      (use a(2) association_send_keeps [OF sends(2)] in auto)
qed (use assms in simp)

lemma assign_response_socket_inv:
  assumes "udp_inv fw" "assign_response_socket opened original fw = Some (r, fw')"
  shows "udp_inv fw' \<and> uf_associations fw' = uf_associations fw \<and>
    (\<forall>o1 s. map_of (uf_response_sockets fw) o1 = Some s \<longrightarrow> map_of (uf_response_sockets fw') o1 = Some s) \<and>
    (\<forall>s. r = Inr s \<longrightarrow> map_of (uf_response_sockets fw') original = Some s)"
proof (cases "map_of (uf_response_sockets fw) original")
  case None
  show ?thesis
  proof (cases opened)
    case SocketBound
    let ?n = "uf_next_socket fw"
    have fw': "fw' = fw\<lparr>uf_response_sockets := AList.update original ?n (uf_response_sockets fw),
        uf_next_socket := ?n + 1\<rparr>" and r: "r = Inr ?n"
      using assms(2) None SocketBound by (auto simp: assign_response_socket_def)
    have sockets: "sockets_inv fw" using assms(1) by (simp add: udp_inv_def)
    have "map_of (uf_response_sockets fw) o1 \<noteq> Some ?n" for o1
      using sockets unfolding sockets_inv_def by blast
    then have "sockets_inv fw'"
      unfolding sockets_inv_def fw'
      using sockets by (auto simp: sockets_inv_def less_Suc_eq)
    moreover have "map_of (uf_response_sockets fw') o1 = Some s" if "map_of (uf_response_sockets fw) o1 = Some s" for o1 s
      using that None by (auto simp: fw')
    moreover have "uf_associations fw' = uf_associations fw" "uf_dropping fw' = uf_dropping fw" by (simp_all add: fw')
    ultimately have "udp_inv fw'" using assms(1) unfolding udp_inv_def by metis
    then show ?thesis using None r by (auto simp: fw')
  qed (use assms None in \<open>auto simp: assign_response_socket_def\<close>)
next
  case (Some s)
  then show ?thesis using assms by (auto simp: assign_response_socket_def)
qed

lemma association_inv_related:
  "association_inv a \<Longrightarrow> as_running a \<Longrightarrow>
   association_inv (a\<lparr>as_related := AList.update original socket (as_related a)\<rparr>)"
  by (simp add: association_inv_def)

lemma udp_inv_reply:
  assumes inv: "udp_inv fw" and a: "map_of (uf_associations fw) source = Some a" "as_running a"
    and reply: "udp_reply opened sent source real a fw = Some (delivered, fw')"
  shows "udp_inv fw'"
proof -
  let ?original = "unwrap_or (map_of (as_real_to_original a) real) real"
  obtain r fw1 where assign: "assign_response_socket opened ?original fw = Some (r, fw1)"
    using reply by (auto simp: udp_reply_def Let_def split: option.splits)
  note fw1 = assign_response_socket_inv [OF inv assign]
  show ?thesis
  proof (cases r)
    case (Inl e)
    then show ?thesis using reply assign fw1 by (auto simp: udp_reply_def udp_inv_end)
  next
    case (Inr s)
    let ?a = "a\<lparr>as_related := AList.update ?original s (as_related a)\<rparr>"
    let ?fw = "fw1\<lparr>uf_associations := AList.update source ?a (uf_associations fw1)\<rparr>"
    have "udp_inv ?fw"
    proof (rule udp_inv_update)
      show "udp_inv fw1" using fw1 by simp
      show "association_inv ?a" using inv a by (auto simp: udp_inv_def intro: association_inv_related)
      show "map_of (uf_response_sockets fw1) o1 = Some s'" if "map_of (as_related ?a) o1 = Some s'" for o1 s'
        using that fw1 Inr inv a(1) by (auto simp: udp_inv_def split: if_splits)
    qed
    then show ?thesis
      using reply assign Inr by (auto simp: udp_reply_def Let_def udp_inv_end split: sum.splits)
  qed
qed

text \<open>A response socket outlives a removal exactly if another task, or one that is not dropped yet, holds it.\<close>

lemma strong_count_held:
  "1 < strong_count fw s \<longleftrightarrow>
     (\<exists>source a o1. (source, a) \<in> set (uf_associations fw) \<and> (o1, s) \<in> set (as_related a)) \<or>
     (\<exists>related o1. related \<in> set (uf_dropping fw) \<and> (o1, s) \<in> set related)"
  by (auto simp: strong_count_def filter_empty_conv simp flip: length_greater_0_conv) force+

lemma map_of_filter_value:
  "distinct (map fst m) \<Longrightarrow> map_of (filter (\<lambda>(_, v). P v) m) k = Some v \<longleftrightarrow> map_of m k = Some v \<and> P v"
  by (induction m) (auto split: if_splits dest: map_of_SomeD weak_map_of_SomeI simp: image_iff)

definition socket_held :: "udp_forwarder \<Rightarrow> socket_addr \<Rightarrow> nat \<Rightarrow> bool" where
  "socket_held fw original s \<longleftrightarrow>
     (\<exists>source a. map_of (uf_associations fw) source = Some a \<and> map_of (as_related a) original = Some s) \<or>
     (\<exists>related \<in> set (uf_dropping fw). map_of related original = Some s)"

lemma udp_inv_held: "udp_inv fw \<Longrightarrow> socket_held fw original s \<Longrightarrow> map_of (uf_response_sockets fw) original = Some s"
  by (auto simp: udp_inv_def socket_held_def)

lemma strong_count_socket_held:
  assumes "udp_inv fw"
  shows "1 < strong_count fw s \<longleftrightarrow> (\<exists>original. socket_held fw original s)"
proof -
  have "(o1, s) \<in> set (as_related a) \<longleftrightarrow> map_of (as_related a) o1 = Some s"
    if "map_of (uf_associations fw) src = Some a" for src a o1
    using that assms by (auto simp: udp_inv_def association_inv_def)
  moreover have "(o1, s) \<in> set related \<longleftrightarrow> map_of related o1 = Some s" if "related \<in> set (uf_dropping fw)" for related o1
    using that assms by (auto simp: udp_inv_def)
  moreover have "distinct (map fst (uf_associations fw))" using assms by (simp add: udp_inv_def sockets_inv_def)
  ultimately show ?thesis
    unfolding strong_count_held socket_held_def set_map_of [OF \<open>distinct _\<close>] by blast
qed

lemma udp_inv_delete: "udp_inv fw \<Longrightarrow> udp_inv (fw\<lparr>uf_associations := AList.delete source (uf_associations fw)\<rparr>)"
  by (auto simp: udp_inv_def sockets_inv_def split: if_splits)

lemma remove_association_sockets:
  assumes "udp_inv fw"
  shows "map_of (uf_response_sockets (remove_association source fw)) o1 = Some s \<longleftrightarrow>
    socket_held (remove_association source fw) o1 s"
proof -
  let ?fw = "fw\<lparr>uf_associations := AList.delete source (uf_associations fw)\<rparr>"
  have inv: "udp_inv ?fw" using assms by (rule udp_inv_delete)
  have d: "distinct (map fst (uf_response_sockets fw))" using assms by (simp add: udp_inv_def sockets_inv_def)
  have same: "o2 = o1" if "socket_held ?fw o2 s" "map_of (uf_response_sockets fw) o1 = Some s" for o2
    using udp_inv_held [OF inv that(1)] that(2) assms by (auto simp: udp_inv_def sockets_inv_def)
  have "map_of (uf_response_sockets (remove_association source fw)) o1 = Some s \<longleftrightarrow>
      map_of (uf_response_sockets fw) o1 = Some s \<and> 1 < strong_count ?fw s"
    using map_of_filter_value [OF d] by (simp add: remove_association_def Let_def)
  moreover have "socket_held (remove_association source fw) o1 s \<longleftrightarrow> socket_held ?fw o1 s"
    by (simp add: socket_held_def remove_association_def Let_def)
  ultimately show ?thesis
    using strong_count_socket_held [OF inv, of s] same udp_inv_held [OF inv, of o1 s] by auto
qed

lemma udp_inv_remove:
  assumes "udp_inv fw"
  shows "udp_inv (remove_association source fw)"
proof -
  let ?fw = "remove_association source fw"
  have a: "uf_associations ?fw = AList.delete source (uf_associations fw)"
      and n: "uf_next_socket ?fw = uf_next_socket fw"
    by (simp_all add: remove_association_def Let_def)
  have d: "distinct (map fst (uf_response_sockets ?fw))"
    using assms
    by (auto simp: remove_association_def Let_def udp_inv_def sockets_inv_def distinct_map_filter)
  have p: "uf_dropping ?fw = uf_dropping fw" by (simp add: remove_association_def Let_def)
  note sockets = remove_association_sockets [OF assms, of source]
  have kept: "map_of (uf_response_sockets fw) o1 = Some s" if "map_of (uf_response_sockets ?fw) o1 = Some s" for o1 s
    using that udp_inv_held [OF udp_inv_delete [OF assms]]
    unfolding sockets socket_held_def a p by (simp add: socket_held_def)
  have old: "sockets_inv fw" using assms by (simp add: udp_inv_def)
  then have "distinct (map fst (AList.delete source (uf_associations fw)))" by (simp add: sockets_inv_def)
  then have "sockets_inv ?fw"
    using old d kept unfolding sockets_inv_def a n by blast
  moreover have "association_inv b \<and>
      (\<forall>o1 s. map_of (as_related b) o1 = Some s \<longrightarrow> map_of (uf_response_sockets ?fw) o1 = Some s)"
    if b: "map_of (uf_associations ?fw) src = Some b" for src b
  proof -
    have "map_of (uf_associations fw) src = Some b" using b unfolding a by (simp split: if_splits)
    then have "association_inv b" using assms by (auto simp: udp_inv_def)
    then show ?thesis using b unfolding sockets socket_held_def by blast
  qed
  moreover have "\<forall>related \<in> set (uf_dropping ?fw). distinct (map fst related) \<and>
      (\<forall>o1 s. map_of related o1 = Some s \<longrightarrow> map_of (uf_response_sockets ?fw) o1 = Some s)"
    using assms unfolding sockets socket_held_def by (auto simp: udp_inv_def p)
  ultimately show ?thesis by (simp add: udp_inv_def)
qed

lemma udp_inv_step: "udp_step fw fw' \<Longrightarrow> udp_inv fw \<Longrightarrow> udp_inv fw'"
  by (induction rule: udp_step.induct) (auto intro: udp_inv_forward udp_inv_reply udp_inv_end udp_inv_time_out udp_inv_drop udp_inv_remove)

lemma udp_reachable_inv: "udp_reachable fw \<Longrightarrow> udp_inv fw"
  unfolding udp_reachable_def
  by (induction rule: rtranclp_induct) (auto intro: udp_inv_new udp_inv_step)

section \<open>What an association remembers\<close>

lemma get_associated_Some:
  "get_associated_destination fw source original = Some r \<longleftrightarrow>
     (\<exists>a. map_of (uf_associations fw) source = Some a \<and> map_of (as_original_to_real a) original = Some r)"
  by (auto simp: get_associated_destination_def bind_eq_Some_conv)

text \<open>Steps that change no association's destinations.\<close>

definition destinations :: "udp_forwarder \<Rightarrow> socket_addr \<Rightarrow> (socket_addr, socket_addr) hash_map option" where
  "destinations fw source = map_option as_original_to_real (map_of (uf_associations fw) source)"

lemma destinations_end [simp]: "destinations (end_association src fw) = destinations fw"
  by (rule ext) (auto simp: destinations_def end_association_def split: option.splits)

lemma destinations_time_out [simp]:
  "destinations (time_out_association src fw) = destinations fw" "destinations (drop_reading_task related fw) = destinations fw"
  by (rule ext; auto simp: destinations_def time_out_association_def drop_reading_task_def split: option.splits)+

lemma destinations_assign:
  "assign_response_socket opened original fw = Some (r, fw') \<Longrightarrow> uf_associations fw' = uf_associations fw"
  by (auto simp: assign_response_socket_def split: option.splits socket_answer.splits)

lemma destinations_reply:
  assumes "map_of (uf_associations fw) src = Some a"
    and "udp_reply opened sent src real a fw = Some (delivered, fw')"
  shows "destinations fw' = destinations fw"
proof -
  obtain r fw1 where assign: "assign_response_socket opened
      (unwrap_or (map_of (as_real_to_original a) real) real) fw = Some (r, fw1)"
    using assms(2) by (auto simp: udp_reply_def Let_def split: option.splits)
  have "destinations fw1 = destinations fw"
    by (rule ext) (simp add: destinations_def destinations_assign [OF assign])
  moreover have "destinations (fw1\<lparr>uf_associations := AList.update src (a\<lparr>as_related := x\<rparr>) (uf_associations fw1)\<rparr>) =
      destinations fw" for x
    using assms(1) by (auto simp: destinations_def destinations_assign [OF assign] fun_eq_iff)
  ultimately show ?thesis
    using assms(2) assign by (auto simp: udp_reply_def Let_def split: sum.splits)
qed

lemma get_associated_destinations:
  "get_associated_destination fw source original = Option.bind (destinations fw source) (\<lambda>m. map_of m original)"
  by (cases "map_of (uf_associations fw) source") (simp_all add: get_associated_destination_def destinations_def)

section \<open>A source with one or two destinations\<close>

definition with_association :: "socket_addr \<Rightarrow> association \<Rightarrow> udp_forwarder" where
  "with_association source a = udp_forwarder_new\<lparr>uf_associations := [(source, a)]\<rparr>"

definition one_destination :: "socket_addr \<Rightarrow> socket_addr \<Rightarrow> association" where
  "one_destination o1 real = association_new
     \<lparr>as_real_to_original := [(real, o1)], as_original_to_real := [(o1, real)]\<rparr>"

definition shared_destination :: "socket_addr \<Rightarrow> socket_addr \<Rightarrow> socket_addr \<Rightarrow> association" where
  "shared_destination o1 o2 real = association_new
     \<lparr>as_real_to_original := AList.update real o2 [(real, o1)],
      as_original_to_real := AList.update o2 real [(o1, real)]\<rparr>"

lemmas example_associations = with_association_def one_destination_def shared_destination_def
  association_new_def udp_forwarder_new_def

lemma forward_first:
  "udp_forward SocketBound (Inr ()) source o1 (Some real) udp_forwarder_new =
     Some (Inr (), with_association source (one_destination o1 real))"
  by (simp add: udp_forward_def udp_send_def get_associated_destination_def association_send_def
      example_associations)

lemma forward_second:
  "udp_forward SocketBound (Inr ()) source o2 (Some real) (with_association source (one_destination o1 real)) =
     Some (Inr (), with_association source (shared_destination o1 o2 real))"
  by (simp add: udp_forward_def udp_send_def get_associated_destination_def association_send_def
      example_associations)

lemma reachable_step: "udp_reachable fw \<Longrightarrow> udp_step fw fw' \<Longrightarrow> udp_reachable fw'"
  unfolding udp_reachable_def by (rule rtranclp.rtrancl_into_rtrancl)

lemma reachable_new: "udp_reachable udp_forwarder_new"
  by (simp add: udp_reachable_def)

lemmas reachable_first = reachable_step [OF reachable_new udp_step.forward [OF forward_first]]
lemmas reachable_second = reachable_step [OF reachable_first udp_step.forward [OF forward_second]]

section \<open>Properties\<close>

text \<open>C23: The destination of an address is decided once: as long as the association lives, later
  datagrams, replies and the clean-up of others leave it as it is.\<close>

theorem associated_destination_stable:
  assumes "udp_step fw fw'" and "get_associated_destination fw source original = Some real"
    and "source \<in> fst ` set (uf_associations fw')"
  shows "get_associated_destination fw' source original = Some real"
  using assms(1)
proof cases
  case (forward opened sent src orig resolved r)
  from forward show ?thesis
  proof (cases rule: udp_forward_cases)
    case (sends a a' real')
    show ?thesis
    proof (cases "src = source")
      case True
      then have "map_of (as_original_to_real a) original = Some real"
        using assms(2) sends(1) by (auto simp: get_associated_Some)
      moreover have "map_of (as_original_to_real a') original =
          (if orig = original \<and> as_running a then Some real' else map_of (as_original_to_real a) original)"
        using sends(2) by (auto simp: association_send_def split: if_splits)
      ultimately show ?thesis using True sends(3,4) by (auto simp: get_associated_Some)
    next
      case False
      then show ?thesis using assms(2) sends(4) by (simp add: get_associated_destination_def)
    qed
  qed (use assms in simp)
next
  case (reply src a opened sent r delivered)
  then show ?thesis using assms(2) destinations_reply by (simp add: get_associated_destinations)
next
  case (ended src a)
  then show ?thesis using assms(2) by (simp add: get_associated_destinations)
next
  case (timed_out src a)
  then show ?thesis using assms(2) by (simp add: get_associated_destinations)
next
  case (task_dropped related)
  then show ?thesis using assms(2) by (simp add: get_associated_destinations)
next
  case (removed src a)
  then have "source \<noteq> src"
    using assms(3) by (auto simp: remove_association_def Let_def delete_keys simp flip: set_map)
  then show ?thesis
    using assms(2) removed by (simp add: get_associated_destination_def remove_association_def Let_def)
qed

theorem associated_destination_stable_witness:
  "get_associated_destination (with_association (SockV4 1 1) (shared_destination (SockV4 2 2) (SockV4 3 3) (SockV4 4 4)))
     (SockV4 1 1) (SockV4 2 2) = Some (SockV4 4 4)"
  by (rule associated_destination_stable [OF udp_step.forward [OF forward_second]])
    (simp_all add: get_associated_destination_def example_associations)

text \<open>C24: A reply is delivered in the name of a destination that the source had asked for and whose
  real address is the sender (with one such destination, of that one); a datagram from an address that
  the source never asked for is delivered in that address's own name (full cone).\<close>

theorem udp_reply_named:
  assumes "udp_reachable fw" and "map_of (uf_associations fw) source = Some a"
  shows "\<exists>original fw'. udp_reply SocketBound (Inr ()) source real a fw = Some (Some original, fw') \<and>
    (if \<exists>o1. get_associated_destination fw source o1 = Some real
     then get_associated_destination fw source original = Some real else original = real)"
proof -
  let ?original = "unwrap_or (map_of (as_real_to_original a) real) real"
  have a: "association_inv a" using udp_reachable_inv [OF assms(1)] assms(2) by (simp add: udp_inv_def)
  obtain s fw1 where "assign_response_socket SocketBound ?original fw = Some (Inr s, fw1)"
    by (cases "map_of (uf_response_sockets fw) ?original") (simp_all add: assign_response_socket_def)
  then have "\<exists>fw'. udp_reply SocketBound (Inr ()) source real a fw = Some (Some ?original, fw')"
    by (simp add: udp_reply_def Let_def)
  moreover have "if \<exists>o1. get_associated_destination fw source o1 = Some real
      then get_associated_destination fw source ?original = Some real else ?original = real"
  proof (cases "map_of (as_real_to_original a) real")
    case None
    then have "get_associated_destination fw source o1 \<noteq> Some real" for o1
      using a assms(2) by (fastforce simp: association_inv_def get_associated_Some)
    then show ?thesis using None by simp
  next
    case (Some o1)
    then have "get_associated_destination fw source o1 = Some real"
      using a assms(2) by (simp add: association_inv_def get_associated_Some)
    then show ?thesis using Some by auto
  qed
  ultimately show ?thesis by blast
qed

theorem udp_reply_named_witness:
  "\<exists>original fw'. udp_reply SocketBound (Inr ()) (SockV4 1 1) (SockV4 4 4) (one_destination (SockV4 2 2) (SockV4 4 4))
      (with_association (SockV4 1 1) (one_destination (SockV4 2 2) (SockV4 4 4))) = Some (Some original, fw') \<and>
    (if \<exists>o1. get_associated_destination (with_association (SockV4 1 1) (one_destination (SockV4 2 2) (SockV4 4 4)))
         (SockV4 1 1) o1 = Some (SockV4 4 4)
     then get_associated_destination (with_association (SockV4 1 1) (one_destination (SockV4 2 2) (SockV4 4 4)))
         (SockV4 1 1) original = Some (SockV4 4 4)
     else original = SockV4 4 4)"
  by (rule udp_reply_named [OF reachable_first])
    (simp_all add: get_associated_destination_def example_associations)

text \<open>Two destinations of one source with the same real address, such as two names on one server,
  are confused: a reply to the first is delivered in the name of the one used last.\<close>

theorem shared_real_destination_confused:
  "\<exists>fw a fw'. udp_reachable fw \<and> map_of (uf_associations fw) source = Some a \<and> as_running a \<and>
     get_associated_destination fw source o1 = Some real \<and>
     get_associated_destination fw source o2 = Some real \<and>
     udp_reply SocketBound (Inr ()) source real a fw = Some (Some o2, fw')"
proof -
  let ?a = "shared_destination o1 o2 real"
  let ?fw = "with_association source ?a"
  have "map_of (uf_associations ?fw) source = Some ?a" "as_running ?a"
      "get_associated_destination ?fw source o1 = Some real" "get_associated_destination ?fw source o2 = Some real"
    by (simp_all add: example_associations get_associated_destination_def)
  moreover have "\<exists>fw'. udp_reply SocketBound (Inr ()) source real ?a ?fw = Some (Some o2, fw')"
    by (simp add: udp_reply_def assign_response_socket_def example_associations)
  ultimately show ?thesis using reachable_second by blast
qed

text \<open>C25: The clean-up of an association leaves exactly the response sockets open that a task still
  holds: of another running association, or of one that timed out and is not dropped yet. None in use
  is closed, and when no timed-out task is left none is left behind.\<close>

theorem response_sockets_released:
  assumes "udp_reachable fw"
  shows "map_of (uf_response_sockets (remove_association source fw)) original = Some s \<longleftrightarrow>
    (\<exists>src a. src \<noteq> source \<and> map_of (uf_associations fw) src = Some a \<and> as_running a \<and>
       map_of (as_related a) original = Some s) \<or>
    (\<exists>related \<in> set (uf_dropping fw). map_of related original = Some s)"
proof -
  have inv: "udp_inv fw" using assms by (rule udp_reachable_inv)
  have "as_running a" if "map_of (uf_associations fw) src = Some a" "map_of (as_related a) original = Some s" for src a
  proof -
    have "association_inv a" using inv that(1) by (simp add: udp_inv_def)
    moreover have "as_related a \<noteq> []" using that(2) by auto
    ultimately show ?thesis by (simp add: association_inv_def)
  qed
  moreover have "map_of (uf_associations (remove_association source fw)) src = Some a \<longleftrightarrow>
      src \<noteq> source \<and> map_of (uf_associations fw) src = Some a" for src a
    by (simp add: remove_association_def Let_def)
  moreover have "uf_dropping (remove_association source fw) = uf_dropping fw" by (simp add: remove_association_def Let_def)
  ultimately show ?thesis
    unfolding remove_association_sockets [OF inv] socket_held_def by auto
qed

text \<open>An example: an association that has answered once, and then times out.\<close>

definition with_socket :: "association \<Rightarrow> udp_forwarder" where
  "with_socket a = \<lparr> uf_associations = [(SockV4 1 1, a)], uf_response_sockets = [(SockV4 2 2, 0)], uf_next_socket = 1, uf_dropping = [] \<rparr>"

definition answering :: association where
  "answering = (one_destination (SockV4 2 2) (SockV4 4 4))\<lparr>as_related := [(SockV4 2 2, 0)]\<rparr>"

lemma reachable_answering: "udp_reachable (with_socket answering)"
proof -
  have "udp_reply SocketBound (Inr ()) (SockV4 1 1) (SockV4 4 4) (one_destination (SockV4 2 2) (SockV4 4 4))
      (with_association (SockV4 1 1) (one_destination (SockV4 2 2) (SockV4 4 4))) =
      Some (Some (SockV4 2 2), with_socket answering)"
    by (simp add: udp_reply_def assign_response_socket_def example_associations with_socket_def answering_def Let_def)
  from udp_step.reply [OF _ _ this] show ?thesis
    by (intro reachable_step [OF reachable_first]) (simp add: example_associations)
qed

lemma reachable_timed_out: "udp_reachable (time_out_association (SockV4 1 1) (with_socket answering))"
  by (rule reachable_step [OF reachable_answering udp_step.timed_out [where association = answering]])
    (simp_all add: with_socket_def answering_def example_associations)

lemma reachable_dropped:
  "udp_reachable (drop_reading_task [(SockV4 2 2, 0)] (time_out_association (SockV4 1 1) (with_socket answering)))"
  by (rule reachable_step [OF reachable_timed_out udp_step.task_dropped])
    (simp add: with_socket_def answering_def time_out_association_def)

theorem response_sockets_released_witness:
  "map_of (uf_response_sockets (drop_reading_task [(SockV4 2 2, 0)] (time_out_association (SockV4 1 1) (with_socket answering))))
     (SockV4 2 2) = Some 0 \<and>
   map_of (uf_response_sockets (remove_association (SockV4 1 1)
     (drop_reading_task [(SockV4 2 2, 0)] (time_out_association (SockV4 1 1) (with_socket answering))))) (SockV4 2 2) \<noteq> Some 0"
  unfolding response_sockets_released [OF reachable_dropped]
  by (simp add: drop_reading_task_def time_out_association_def with_socket_def answering_def)

text \<open>The other order, clean-up first and then the drop, leaves the socket open although nothing holds
  it any more: until the next clean-up of any association.\<close>

theorem response_socket_left_behind:
  "\<exists>fw. udp_reachable fw \<and> uf_associations fw = [] \<and> uf_dropping fw = [] \<and> uf_response_sockets fw \<noteq> []"
proof -
  let ?fw = "time_out_association (SockV4 1 1) (with_socket answering)"
  let ?removed = "remove_association (SockV4 1 1) ?fw"
  have "udp_step ?fw ?removed"
    by (rule udp_step.removed [where association = "answering\<lparr>as_running := False, as_related := []\<rparr>"])
      (simp_all add: time_out_association_def with_socket_def)
  then have "udp_reachable ?removed" by (rule reachable_step [OF reachable_timed_out])
  moreover have "udp_step ?removed (drop_reading_task [(SockV4 2 2, 0)] ?removed)"
    by (rule udp_step.task_dropped) (simp add: remove_association_def time_out_association_def with_socket_def answering_def Let_def)
  ultimately have "udp_reachable (drop_reading_task [(SockV4 2 2, 0)] ?removed)" by (rule reachable_step)
  moreover have "drop_reading_task [(SockV4 2 2, 0)] ?removed =
      \<lparr> uf_associations = [], uf_response_sockets = [(SockV4 2 2, 0)], uf_next_socket = 1, uf_dropping = [] \<rparr>"
    by (simp add: drop_reading_task_def remove_association_def strong_count_def time_out_association_def with_socket_def answering_def Let_def)
  ultimately show ?thesis by (metis udp_forwarder.simps(1,2,4) list.distinct(1))
qed

end
