(* ===== verification/Sockets.thy ===== *)
theory Sockets
  imports Bytes
begin

text \<open>
  Opening TCP connections (\<open>src/lib/tunnel/direct_tunnel.rs\<close>, \<open>src/lib/out/local_output.rs\<close>, the
  connecting part of \<open>src/lib/tunnel/http2/http2_tunnel_provider.rs\<close>) with the socket helpers of
  \<open>src/lib/utils/net/socket/socket.rs\<close>. The operating system is a parameter: what each call
  answers. A connection is the list of calls that were made, in order, up to the first that fails.
\<close>

section \<open>Calls\<close>

datatype socket_call =
    NewSocketV4 | NewSocketV6 | NewDatagramV4 | NewDatagramV6
  | SetNodelay
  | SetMark u32
  | SetKeepalive | SetKeepIdle u32 | SetKeepInterval u32 | SetKeepCount u32
  | BindAddress socket_addr | BindDevice string
  | ConnectTo socket_addr
  | WriteAll "u8 list"
  | SetReuseAddress | SetReusePort | SetIpTransparent | SetIpFreebind | SetNonblocking | SetRecvOrigDstAddr
  | ListenOn u32 | RegisterSocket

type_synonym system = "socket_call \<Rightarrow> unit result"

text \<open>The keepalive options report the failing option; all other errors are handed up as they are.\<close>

fun call_error :: "socket_call \<Rightarrow> error \<Rightarrow> error" where
  "call_error SetKeepalive _ = Msg ''failed to set SO_KEEPALIVE''"
| "call_error (SetKeepIdle _) _ = Msg ''failed to set TCP_KEEPIDLE''"
| "call_error (SetKeepInterval _) _ = Msg ''failed to set TCP_KEEPINTVL''"
| "call_error (SetKeepCount _) _ = Msg ''failed to set TCP_KEEPCNT''"
| "call_error _ e = e"

text \<open>Each call is followed by \<open>?\<close>: the first failure ends the connection.\<close>

fun run_calls :: "system \<Rightarrow> socket_call list \<Rightarrow> socket_call list \<times> unit result" where
  "run_calls sys [] = ([], Inr ())"
| "run_calls sys (c # cs) =
     (case sys c of
        Inl e \<Rightarrow> ([c], Inl (call_error c e))
      | Inr _ \<Rightarrow> (let (made, r) = run_calls sys cs in (c # made, r)))"

definition set_keepalive_options :: "u32 \<Rightarrow> u32 \<Rightarrow> u32 \<Rightarrow> socket_call list" where
  "set_keepalive_options idle interval cnt =
     [SetKeepalive, SetKeepIdle idle, SetKeepInterval interval, SetKeepCount cnt]"

fun new_socket :: "socket_addr \<Rightarrow> socket_call" where
  "new_socket (SockV4 _ _) = NewSocketV4"
| "new_socket (SockV6 _ _ _ _) = NewSocketV6"

section \<open>Connections\<close>

text \<open>\<open>DirectInTunnel::connect\<close>: the sniffed bytes are written before the stream is handed out.\<close>

definition direct_connect ::
  "system \<Rightarrow> u32 \<Rightarrow> socket_addr \<Rightarrow> u8 list option \<Rightarrow> socket_call list \<times> unit result" where
  "direct_connect sys traffic_mark destination_address sniff_buffer =
     run_calls sys
       ([new_socket destination_address, SetNodelay] @ set_keepalive_options 60 10 5 @
        [SetMark traffic_mark, ConnectTo destination_address] @
        (case sniff_buffer of None \<Rightarrow> [] | Some buffer \<Rightarrow> [WriteAll buffer]))"

text \<open>The TCP connection below a tunnel, in \<open>Http2InTunnelProvider::accept\<close>.\<close>

definition http2_tunnel_connect :: "system \<Rightarrow> u32 \<Rightarrow> socket_addr \<Rightarrow> socket_call list \<times> unit result" where
  "http2_tunnel_connect sys traffic_mark address =
     run_calls sys
       ([new_socket address, SetMark traffic_mark, SetNodelay] @ set_keepalive_options 5 5 3 @
        [ConnectTo address])"

text \<open>\<open>LocalIpOrInterface\<close>: what parses as an address is one, anything else names an interface.\<close>

datatype local_ip_or_interface = LocalIp ip_addr | LocalInterface string

text \<open>\<open>LocalOutput::connect\<close>.\<close>

definition local_connect ::
  "system \<Rightarrow> local_ip_or_interface option \<Rightarrow> socket_addr \<Rightarrow> socket_call list \<times> unit result" where
  "local_connect sys ip_or_interface address =
     run_calls sys
       ([new_socket address, SetNodelay] @ set_keepalive_options 60 10 5 @
        (case ip_or_interface of
           Some (LocalIp ip) \<Rightarrow> [BindAddress (socket_addr_new ip 0)]
         | Some (LocalInterface interface) \<Rightarrow> [BindDevice interface]
         | None \<Rightarrow> []) @
        [ConnectTo address])"

section \<open>The original destination\<close>

text \<open>
  \<open>get_socket_original_destination\<close>: the kernel answers a socket address in network byte order, so
  on a little-endian machine a field read as an integer has its octets swapped; \<open>to_be\<close> swaps them
  back. \<open>le_load\<close> is the integer that such a machine reads.
\<close>

definition le_load :: "u8 list \<Rightarrow> 'a::len word" where
  "le_load bs = from_be (rev bs)"

definition to_be :: "nat \<Rightarrow> 'a::len word \<Rightarrow> 'a word" where
  "to_be n w = from_be (rev (be_bytes n w))"

definition original_destination_v4 :: "u32 \<Rightarrow> u16 \<Rightarrow> socket_addr" where
  "original_destination_v4 s_addr sin_port = socket_addr_new (IpV4 (to_be 4 s_addr)) (to_be 2 sin_port)"

definition original_destination_v6 :: "u8 list \<Rightarrow> u16 \<Rightarrow> socket_addr" where
  "original_destination_v6 s6_addr sin6_port =
     socket_addr_new (IpV6 (from_be s6_addr)) (to_be 2 sin6_port)"

section \<open>Lemmas\<close>

lemma run_calls_Cons_Inl [simp]: "sys c = Inl e \<Longrightarrow> run_calls sys (c # cs) = ([c], Inl (call_error c e))"
  by simp

lemma run_calls_Cons_Inr [simp]:
  "sys c = Inr u \<Longrightarrow> run_calls sys (c # cs) = (c # fst (run_calls sys cs), snd (run_calls sys cs))"
  by (simp add: split_beta Let_def)

declare run_calls.simps(2) [simp del]

lemma run_calls_ok: "snd (run_calls sys cs) = Inr () \<longleftrightarrow> (\<forall>c \<in> set cs. sys c = Inr ())"
  by (induction cs) (auto simp: run_calls.simps(2) Let_def split_beta split: sum.splits)

lemma run_calls_made: "set (fst (run_calls sys cs)) \<subseteq> set cs"
  by (induction cs) (auto simp: run_calls.simps(2) Let_def split_beta split: sum.splits)

text \<open>What precedes a call in the plan has been made, and has succeeded, when the call is made.\<close>

lemma run_calls_split:
  "(\<forall>b \<in> set before. sys b = Inr ()) \<and> fst (run_calls sys (before @ cs)) = before @ fst (run_calls sys cs) \<or>
   set (fst (run_calls sys (before @ cs))) \<subseteq> set before"
proof (induction before)
  case (Cons b before)
  then show ?case by (cases "sys b") auto
qed simp

lemma run_calls_before:
  assumes "c \<in> set (fst (run_calls sys (before @ c # after)))" "c \<notin> set before"
  shows "(\<forall>b \<in> set before. sys b = Inr ()) \<and>
    (\<exists>rest. fst (run_calls sys (before @ c # after)) = before @ c # rest)"
proof -
  have "fst (run_calls sys (c # after)) = c # (case sys c of Inl _ \<Rightarrow> [] | Inr _ \<Rightarrow> fst (run_calls sys after))"
    by (cases "sys c") simp_all
  then show ?thesis using run_calls_split [of before sys "c # after"] assms by auto
qed

lemma be_bytes_cong:
  "take_bit (8 * n) w = take_bit (8 * n) v \<Longrightarrow> be_bytes n w = be_bytes n (v :: 'a::len word)"
proof (induction n)
  case (Suc n)
  have bits: "bit w i = bit v i" if "i < 8 * Suc n" for i
    using arg_cong [OF Suc.prems, of "\<lambda>w. bit w i"] that by (simp add: bit_take_bit_iff)
  have "take_bit (8 * n) w = take_bit (8 * n) v"
    by (rule bit_word_eqI) (auto simp: bit_take_bit_iff bits)
  moreover have "(ucast (drop_bit (8 * n) w) :: u8) = ucast (drop_bit (8 * n) v)"
    by (rule bit_word_eqI) (auto simp: bit_unsigned_iff bit_drop_bit_eq bits)
  ultimately show ?case using Suc.IH by simp
qed simp

lemma be_bytes_snoc: "be_bytes (Suc n) w = be_bytes n (drop_bit 8 w) @ [ucast w]"
  by (induction n) (simp_all add: ac_simps)

lemma be_bytes_from_be:
  "8 * length bs \<le> LENGTH('a) \<Longrightarrow> be_bytes (length bs) (from_be bs :: 'a::len word) = bs"
proof (induction bs rule: rev_induct)
  case (snoc b bs)
  let ?w = "from_be bs :: 'a word"
  have "take_bit (8 * length bs) (drop_bit 8 (from_be_step ?w b)) = take_bit (8 * length bs) ?w"
    using snoc.prems
    by (intro bit_word_eqI)
      (auto simp: from_be_step_def bit_take_bit_iff bit_drop_bit_eq bit_or_iff bit_push_bit_iff bit_unsigned_iff
        dest: bit_imp_le_length)
  then have "be_bytes (length bs) (drop_bit 8 (from_be_step ?w b)) = bs"
    using snoc be_bytes_cong by fastforce
  moreover have "(ucast (from_be_step ?w b) :: u8) = b"
    using snoc.prems
    by (intro bit_word_eqI) (auto simp: from_be_step_def bit_unsigned_iff bit_or_iff bit_push_bit_iff)
  ultimately show ?case by (simp add: be_bytes_snoc from_be_def del: be_bytes.simps)
qed simp

lemma to_be_le_load: "LENGTH('a) = 8 * n \<Longrightarrow> to_be n (le_load (be_bytes n w)) = (w :: 'a::len word)"
  using be_bytes_from_be [of "rev (be_bytes n w)", where 'a = 'a]
  by (simp add: to_be_def le_load_def from_be_bytes)

section \<open>Properties\<close>

text \<open>Every connection that IN opens itself, direct or below a tunnel, carries the traffic mark
  before it connects, so that its packets are not redirected to the proxy again; the sniffed bytes
  are written only after connecting, and the connection is handed out only if all calls succeeded.\<close>

theorem connections_marked_first:
  assumes "(made, r) = direct_connect sys mark address sniff_buffer \<or>
    (made, r) = http2_tunnel_connect sys mark address"
    and "ConnectTo a \<in> set made"
  shows "a = address \<and> sys (SetMark mark) = Inr () \<and>
    (\<exists>before after. made = before @ ConnectTo a # after \<and> SetMark mark \<in> set before \<and>
       (\<forall>buffer. WriteAll buffer \<notin> set before))"
proof -
  let ?d = "[new_socket address, SetNodelay] @ set_keepalive_options 60 10 5 @ [SetMark mark]"
  let ?t = "[new_socket address, SetMark mark, SetNodelay] @ set_keepalive_options 5 5 3"
  let ?w = "case sniff_buffer of None \<Rightarrow> [] | Some buffer \<Rightarrow> [WriteAll buffer]"
  obtain before after where before: "before = ?d \<or> before = ?t" and after: "after = ?w \<or> after = []"
    and run: "(made, r) = run_calls sys (before @ ConnectTo address # after)"
    using assms(1)
  proof
    assume "(made, r) = direct_connect sys mark address sniff_buffer"
    then show thesis by (intro that [of ?d ?w]) (simp_all add: direct_connect_def)
  next
    assume "(made, r) = http2_tunnel_connect sys mark address"
    then show thesis by (intro that [of ?t "[]"]) (simp_all add: http2_tunnel_connect_def)
  qed
  have made: "made = fst (run_calls sys (before @ ConnectTo address # after))"
    using arg_cong [OF run, of fst] by simp
  have plan: "SetMark mark \<in> set before" "\<And>a. ConnectTo a \<notin> set before" "\<And>b. WriteAll b \<notin> set before"
      "\<And>a. ConnectTo a \<notin> set after"
    using before after by (cases address; cases sniff_buffer; auto simp: set_keepalive_options_def)+
  have "ConnectTo a \<in> set (before @ ConnectTo address # after)"
    using assms(2) run_calls_made unfolding made by (rule subsetD [rotated])
  then have a: "a = address" using plan by auto
  have "ConnectTo address \<in> set (fst (run_calls sys (before @ ConnectTo address # after)))"
    using assms(2) unfolding a made .
  from run_calls_before [OF this plan(2)] show ?thesis using plan a made by blast
qed

theorem connections_marked_first_witness:
  "\<exists>before after. fst (direct_connect (\<lambda>_. Inr ()) 255 (SockV4 1 443) (Some [7])) =
     before @ ConnectTo (SockV4 1 443) # after \<and> SetMark 255 \<in> set before \<and>
     (\<forall>buffer. WriteAll buffer \<notin> set before)"
  using connections_marked_first [of "fst (direct_connect (\<lambda>_. Inr ()) 255 (SockV4 1 443) (Some [7]))"
      "Inr ()" "\<lambda>_. Inr ()" 255 "SockV4 1 443" "Some [7]" "SockV4 1 443"]
  by (simp add: direct_connect_def set_keepalive_options_def)

text \<open>The original destination that the kernel answers, stored in network byte order and read by a
  little-endian machine, comes out as the address and the port that the client asked for.\<close>

theorem original_destination_roundtrip:
  "original_destination_v4 (le_load (be_bytes 4 ip)) (le_load (be_bytes 2 port)) = SockV4 ip port \<and>
   original_destination_v6 (be_bytes 16 ip6) (le_load (be_bytes 2 port)) = SockV6 ip6 port 0 0"
  by (simp add: original_destination_v4_def original_destination_v6_def to_be_le_load)

end
