(* ===== verification/Copying.thy ===== *)
theory Copying
  imports Bytes
begin

text \<open>
  Copying between two pairs of streams (\<open>copy_bidirectional\<close>, \<open>src/lib/utils/io.rs\<close>): two tasks,
  one per direction, joined by \<open>try_join!\<close>. The streams are the environment: each step of a task is
  what reading a chunk and writing it answer, and the tasks interleave freely.
\<close>

section \<open>One direction\<close>

text \<open>
  A step of \<open>tokio::io::copy\<close>: a chunk is read and written, the source ends, reading fails, or a
  chunk is read and writing fails after \<open>n\<close> of its octets.
\<close>

datatype transfer = Copied "u8 list" | SourceEnd | ReadFailed error | WriteFailed "u8 list" nat error

record direction =
  d_read :: "u8 list"
  d_written :: "u8 list"
  d_shutdown :: bool
  d_result :: "unit result option"

text \<open>With \<open>a_b_end\<close> set the source has already ended: the task only shuts the destination down.\<close>

definition direction_start :: "bool \<Rightarrow> direction" where
  "direction_start ended =
     \<lparr> d_read = [], d_written = [], d_shutdown = ended, d_result = (if ended then Some (Inr ()) else None) \<rparr>"

text \<open>Whatever \<open>copy\<close> answers, the destination is shut down before the task returns.\<close>

definition direction_step :: "direction \<Rightarrow> transfer \<Rightarrow> direction" where
  "direction_step d t =
     (if d_result d \<noteq> None then d
      else case t of
        Copied bytes \<Rightarrow> d\<lparr>d_read := d_read d @ bytes, d_written := d_written d @ bytes\<rparr>
      | SourceEnd \<Rightarrow> d\<lparr>d_shutdown := True, d_result := Some (Inr ())\<rparr>
      | ReadFailed e \<Rightarrow> d\<lparr>d_shutdown := True, d_result := Some (Inl e)\<rparr>
      | WriteFailed bytes n e \<Rightarrow>
          d\<lparr>d_read := d_read d @ bytes, d_written := d_written d @ take n bytes,
            d_shutdown := True, d_result := Some (Inl e)\<rparr>)"

section \<open>Both directions\<close>

record copying =
  cp_a_b :: direction
  cp_b_a :: direction
  cp_result :: "unit result option"

text \<open>\<open>try_join!\<close> returns with the first error, dropping the other task, or when both are done.\<close>

definition join_result :: "direction \<Rightarrow> direction \<Rightarrow> unit result option" where
  "join_result d d' =
     (case (d_result d, d_result d') of
        (Some (Inl e), _) \<Rightarrow> Some (Inl e)
      | (_, Some (Inl e)) \<Rightarrow> Some (Inl e)
      | (Some (Inr _), Some (Inr _)) \<Rightarrow> Some (Inr ())
      | _ \<Rightarrow> None)"

definition copy_start :: "bool \<Rightarrow> copying" where
  "copy_start a_b_end =
     \<lparr> cp_a_b = direction_start a_b_end, cp_b_a = direction_start False,
       cp_result = join_result (direction_start a_b_end) (direction_start False) \<rparr>"

definition copy_step :: "copying \<Rightarrow> transfer + transfer \<Rightarrow> copying" where
  "copy_step c t =
     (if cp_result c \<noteq> None then c
      else
        (let a_b = (case t of Inl t \<Rightarrow> direction_step (cp_a_b c) t | Inr _ \<Rightarrow> cp_a_b c);
             b_a = (case t of Inl _ \<Rightarrow> cp_b_a c | Inr t \<Rightarrow> direction_step (cp_b_a c) t)
         in \<lparr> cp_a_b = a_b, cp_b_a = b_a, cp_result = join_result a_b b_a \<rparr>))"

definition copy_bidirectional :: "bool \<Rightarrow> (transfer + transfer) list \<Rightarrow> copying" where
  "copy_bidirectional a_b_end steps = foldl copy_step (copy_start a_b_end) steps"

section \<open>Each direction copies\<close>

definition direction_ok :: "direction \<Rightarrow> bool" where
  "direction_ok d \<longleftrightarrow> prefix (d_written d) (d_read d) \<and> (d_shutdown d \<longleftrightarrow> d_result d \<noteq> None) \<and>
     ((\<exists>e. d_result d = Some (Inl e)) \<or> d_written d = d_read d)"

lemma direction_ok_start: "direction_ok (direction_start ended)"
  by (simp add: direction_ok_def direction_start_def)

lemma direction_ok_step: "direction_ok d \<Longrightarrow> direction_ok (direction_step d t)"
  by (auto simp: direction_ok_def direction_step_def take_is_prefix split: transfer.splits)

lemma copy_keeps_ok:
  "direction_ok (cp_a_b c) \<Longrightarrow> direction_ok (cp_b_a c) \<Longrightarrow>
   direction_ok (cp_a_b (foldl copy_step c ts)) \<and> direction_ok (cp_b_a (foldl copy_step c ts))"
  by (induction ts arbitrary: c) (auto simp: copy_step_def Let_def direction_ok_step split: sum.splits)

lemma copy_directions_ok:
  "direction_ok (cp_a_b (copy_bidirectional e ts))" "direction_ok (cp_b_a (copy_bidirectional e ts))"
  using copy_keeps_ok [of "copy_start e" ts]
  by (simp_all add: copy_bidirectional_def copy_start_def direction_ok_start)

lemma copy_result_join:
  "cp_result (copy_bidirectional e ts) =
     join_result (cp_a_b (copy_bidirectional e ts)) (cp_b_a (copy_bidirectional e ts))"
proof -
  have "cp_result (foldl copy_step c ts) = join_result (cp_a_b (foldl copy_step c ts)) (cp_b_a (foldl copy_step c ts))"
    if "cp_result c = join_result (cp_a_b c) (cp_b_a c)" for c
    using that by (induction ts arbitrary: c) (simp_all add: copy_step_def Let_def)
  then show ?thesis by (simp add: copy_bidirectional_def copy_start_def)
qed

section \<open>The directions do not disturb each other\<close>

definition a_b_steps :: "(transfer + transfer) list \<Rightarrow> transfer list" where
  "a_b_steps ts = concat (map (case_sum (\<lambda>t. [t]) (\<lambda>_. [])) ts)"

definition b_a_steps :: "(transfer + transfer) list \<Rightarrow> transfer list" where
  "b_a_steps ts = concat (map (case_sum (\<lambda>_. []) (\<lambda>t. [t])) ts)"

lemma steps_simps [simp]:
  "a_b_steps [] = []" "b_a_steps [] = []"
  "a_b_steps (Inl t # ts) = t # a_b_steps ts" "a_b_steps (Inr t # ts) = a_b_steps ts"
  "b_a_steps (Inl t # ts) = b_a_steps ts" "b_a_steps (Inr t # ts) = t # b_a_steps ts"
  by (simp_all add: a_b_steps_def b_a_steps_def)

fun fails :: "transfer \<Rightarrow> bool" where
  "fails (ReadFailed _) = True"
| "fails (WriteFailed _ _ _) = True"
| "fails _ = False"

definition direction_run :: "direction \<Rightarrow> transfer list \<Rightarrow> direction" where
  "direction_run d ts = foldl direction_step d ts"

lemma direction_run_done: "d_result d \<noteq> None \<Longrightarrow> direction_run d ts = d"
  by (induction ts) (simp_all add: direction_run_def direction_step_def)

lemma direction_run_Cons [simp]: "direction_run d (t # ts) = direction_run (direction_step d t) ts"
  by (simp add: direction_run_def)

lemma direction_run_Nil [simp]: "direction_run d [] = d"
  by (simp add: direction_run_def)

definition no_error :: "direction \<Rightarrow> bool" where
  "no_error d \<longleftrightarrow> (\<forall>e. d_result d \<noteq> Some (Inl e))"

lemma no_error_step: "no_error d \<Longrightarrow> \<not> fails t \<Longrightarrow> no_error (direction_step d t)"
  by (cases t) (auto simp: no_error_def direction_step_def)

lemma join_result_no_error:
  "no_error d \<Longrightarrow> no_error d' \<Longrightarrow>
   join_result d d' = (if d_result d \<noteq> None \<and> d_result d' \<noteq> None then Some (Inr ()) else None)"
  by (auto simp: join_result_def no_error_def split: option.splits sum.splits)

lemma copy_independent:
  assumes "\<forall>t \<in> set (a_b_steps ts) \<union> set (b_a_steps ts). \<not> fails t"
    and "no_error (cp_a_b c)" "no_error (cp_b_a c)" "cp_result c = join_result (cp_a_b c) (cp_b_a c)"
  shows "cp_a_b (foldl copy_step c ts) = direction_run (cp_a_b c) (a_b_steps ts) \<and>
    cp_b_a (foldl copy_step c ts) = direction_run (cp_b_a c) (b_a_steps ts)"
  using assms
proof (induction ts arbitrary: c)
  case (Cons t ts)
  show ?case
  proof (cases "cp_result c = None")
    case True
    then show ?thesis using Cons
      by (cases t) (simp_all add: copy_step_def Let_def no_error_step)
  next
    case False
    then have "d_result (cp_a_b c) \<noteq> None" "d_result (cp_b_a c) \<noteq> None"
      using Cons.prems join_result_no_error by (metis)+
    moreover have "copy_step c t' = c" for t' using False by (simp add: copy_step_def)
    moreover from this have "foldl copy_step c us = c" for us by (induction us) simp_all
    ultimately show ?thesis by (simp add: direction_run_done del: direction_run_Cons)
  qed
qed simp

lemma direction_run_spec:
  assumes "\<forall>t \<in> set ts. \<not> fails t" "d_result d = None"
  shows "d_written (direction_run d ts) = d_written d @
      concat (map (\<lambda>t. case t of Copied bytes \<Rightarrow> bytes | _ \<Rightarrow> []) (takeWhile (\<lambda>t. t \<noteq> SourceEnd) ts)) \<and>
    (d_result (direction_run d ts) \<noteq> None \<longleftrightarrow> SourceEnd \<in> set ts)"
  using assms
proof (induction ts arbitrary: d)
  case (Cons t ts)
  then show ?case
    by (cases t) (auto simp: direction_step_def direction_run_done)
qed simp

section \<open>Properties\<close>

text \<open>Whatever the two directions do, what is written to a side is the beginning of what was read
  from the other, and all of it if copying succeeds, which is when both sources have ended and both
  destinations were shut down; a failure is the failure of one of the directions.\<close>

theorem copy_transfers:
  "let c = copy_bidirectional a_b_end steps in
     prefix (d_written (cp_a_b c)) (d_read (cp_a_b c)) \<and> prefix (d_written (cp_b_a c)) (d_read (cp_b_a c)) \<and>
     (cp_result c = Some (Inr ()) \<longrightarrow>
        d_written (cp_a_b c) = d_read (cp_a_b c) \<and> d_written (cp_b_a c) = d_read (cp_b_a c) \<and>
        d_shutdown (cp_a_b c) \<and> d_shutdown (cp_b_a c)) \<and>
     (\<forall>e. cp_result c = Some (Inl e) \<longrightarrow>
        d_result (cp_a_b c) = Some (Inl e) \<or> d_result (cp_b_a c) = Some (Inl e))"
  using copy_directions_ok [of a_b_end steps] copy_result_join [of a_b_end steps]
  by (auto simp: Let_def direction_ok_def join_result_def split: option.splits sum.splits)

theorem copy_transfers_witness:
  "cp_result (copy_bidirectional False [Inl (Copied [1]), Inr SourceEnd, Inl SourceEnd]) = Some (Inr ()) \<and>
   d_written (cp_a_b (copy_bidirectional False [Inl (Copied [1]), Inr SourceEnd, Inl SourceEnd])) =
     d_read (cp_a_b (copy_bidirectional False [Inl (Copied [1]), Inr SourceEnd, Inl SourceEnd]))"
  using copy_transfers [of False "[Inl (Copied [1]), Inr SourceEnd, Inl SourceEnd]"]
  by (simp add: Let_def copy_bidirectional_def copy_step_def copy_start_def direction_start_def
      direction_step_def join_result_def)

text \<open>C28: Without failures the two directions do not disturb each other: however they interleave, each
  delivers the chunks read before its source ends, its destination is shut down exactly when its source
  has ended, and one that has ended does not stop the other; copying returns exactly when both have
  ended.\<close>

theorem copy_half_close:
  assumes "\<forall>t \<in> set (a_b_steps steps) \<union> set (b_a_steps steps). \<not> fails t"
  shows "let c = copy_bidirectional a_b_end steps;
      delivered = (\<lambda>ts. concat (map (\<lambda>t. case t of Copied bytes \<Rightarrow> bytes | _ \<Rightarrow> [])
        (takeWhile (\<lambda>t. t \<noteq> SourceEnd) ts))) in
    d_written (cp_a_b c) = (if a_b_end then [] else delivered (a_b_steps steps)) \<and>
    d_written (cp_b_a c) = delivered (b_a_steps steps) \<and>
    (d_shutdown (cp_a_b c) \<longleftrightarrow> a_b_end \<or> SourceEnd \<in> set (a_b_steps steps)) \<and>
    (d_shutdown (cp_b_a c) \<longleftrightarrow> SourceEnd \<in> set (b_a_steps steps)) \<and>
    cp_result c = (if (a_b_end \<or> SourceEnd \<in> set (a_b_steps steps)) \<and> SourceEnd \<in> set (b_a_steps steps)
      then Some (Inr ()) else None)"
proof -
  let ?c = "copy_bidirectional a_b_end steps"
  let ?ab = "direction_start a_b_end" and ?ba = "direction_start False"
  have ok: "no_error ?ab" "no_error ?ba" by (simp_all add: no_error_def direction_start_def)
  have run: "cp_a_b ?c = direction_run ?ab (a_b_steps steps)" "cp_b_a ?c = direction_run ?ba (b_a_steps steps)"
    using copy_independent [OF assms, of "copy_start a_b_end"] ok
    by (simp_all add: copy_bidirectional_def copy_start_def)
  have no_error: "no_error (direction_run d ts)" if "no_error d" "\<forall>t \<in> set ts. \<not> fails t" for d ts
    using that by (induction ts arbitrary: d) (simp_all add: no_error_step)
  have result: "cp_result ?c = (if d_result (cp_a_b ?c) \<noteq> None \<and> d_result (cp_b_a ?c) \<noteq> None
      then Some (Inr ()) else None)"
    unfolding copy_result_join run
    by (rule join_result_no_error) (use ok assms no_error in auto)
  have shutdown: "d_shutdown (cp_a_b ?c) \<longleftrightarrow> d_result (cp_a_b ?c) \<noteq> None" "d_shutdown (cp_b_a ?c) \<longleftrightarrow> d_result (cp_b_a ?c) \<noteq> None"
    using copy_directions_ok by (simp_all add: direction_ok_def)
  show ?thesis
    unfolding Let_def result shutdown unfolding run
    using direction_run_spec [of "a_b_steps steps" ?ab] direction_run_spec [of "b_a_steps steps" ?ba] assms
    by (cases a_b_end) (auto simp: direction_start_def direction_run_done)
qed

theorem copy_half_close_witness:
  "d_written (cp_b_a (copy_bidirectional False [Inl SourceEnd, Inr (Copied [7]), Inr SourceEnd])) = [7] \<and>
   d_shutdown (cp_a_b (copy_bidirectional False [Inl SourceEnd, Inr (Copied [7]), Inr SourceEnd]))"
  using copy_half_close [of "[Inl SourceEnd, Inr (Copied [7]), Inr SourceEnd]" False] by (simp add: Let_def)

end
