(* ===== verification/Outputs.thy ===== *)
theory Outputs
  imports Sockets Copying Byte_Stream
begin

text \<open>
  The OUT side behind its tunnels (\<open>src/lib/out/out.rs\<close>, \<open>output.rs\<close>, \<open>local_output.rs\<close>,
  \<open>socks5_output.rs\<close> and the output configurations of \<open>src/lib/route/config/out_config.rs\<close>): the
  map of outputs by tag, the loop that accepts the streams of a tunnel, and the connection made for
  each. The resolver, the SOCKS library and the system calls are parameters.
\<close>

section \<open>Outputs\<close>

datatype any_output = LocalOutput "local_ip_or_interface option" | Socks5Output socket_addr

definition local_ip_or_interface_of_string :: "string \<Rightarrow> local_ip_or_interface" where
  "local_ip_or_interface_of_string value =
     (case parse_ip_addr value of Some ip \<Rightarrow> LocalIp ip | None \<Rightarrow> LocalInterface value)"

text \<open>\<open>Output::connect\<close>; \<open>socks proxy address\<close> is what connecting through a SOCKS proxy answers.\<close>

fun output_connect ::
  "system \<Rightarrow> (socket_addr \<Rightarrow> socket_addr \<Rightarrow> unit result) \<Rightarrow> any_output \<Rightarrow> socket_addr \<Rightarrow> unit result" where
  "output_connect sys socks (LocalOutput ip_or_interface) address =
     snd (local_connect sys ip_or_interface address)"
| "output_connect sys socks (Socks5Output proxy_address) address =
     (case socks proxy_address address of
        Inl e \<Rightarrow> Inl e
      | Inr _ \<Rightarrow> (case sys SetNodelay of Inl e \<Rightarrow> Inl e | Inr _ \<Rightarrow> Inr ()))"

section \<open>Configuration\<close>

record out_local_output_config =
  olocal_tag :: string
  olocal_bind :: local_ip_or_interface

record out_socks5_output_config =
  osocks_tag :: string
  osocks_address :: socket_addr

definition out_socks5_output_address_default :: socket_addr where
  "out_socks5_output_address_default = SockV4 0x7F000001 1080"

datatype out_output_config = OutLocal out_local_output_config | OutSocks5 out_socks5_output_config

fun output_tag :: "out_output_config \<Rightarrow> string" where
  "output_tag (OutLocal config) = olocal_tag config"
| "output_tag (OutSocks5 config) = osocks_tag config"

fun into_output :: "out_output_config \<Rightarrow> any_output" where
  "into_output (OutLocal config) = LocalOutput (Some (olocal_bind config))"
| "into_output (OutSocks5 config) = Socks5Output (osocks_address config)"

text \<open>Collecting into a \<open>HashMap\<close> inserts in order, so a later output replaces an earlier one.\<close>

type_synonym output_map = "(string, any_output) hash_map"

definition output_map_of :: "out_output_config list \<Rightarrow> output_map" where
  "output_map_of output_configs =
     foldl (\<lambda>m config. AList.update (output_tag config) (into_output config) m) [] output_configs"

definition direct_output :: any_output where
  "direct_output = LocalOutput None"

section \<open>Handling a tunnel\<close>

definition choose_output :: "output_map \<Rightarrow> string option \<Rightarrow> any_output" where
  "choose_output m tag =
     (case Option.bind tag (map_of m) of Some output \<Rightarrow> output | None \<Rightarrow> direct_output)"

text \<open>
  \<open>handle_tunnel\<close> over what \<open>accept\<close> answers and, after an error, what \<open>is_closed\<close> says: the
  streams handed to tasks, and whether the loop has ended.
\<close>

datatype accept_answer = StreamAccepted destination | AcceptError error bool

fun handle_tunnel ::
  "output_map \<Rightarrow> accept_answer list \<Rightarrow> (socket_addr \<times> string option \<times> any_output) list \<times> bool" where
  "handle_tunnel m [] = ([], False)"
| "handle_tunnel m (StreamAccepted (destination_address, destination_name, tag) # answers) =
     (let (spawned, ended) = handle_tunnel m answers
      in ((destination_address, destination_name, choose_output m tag) # spawned, ended))"
| "handle_tunnel m (AcceptError _ closed # answers) =
     (if closed then ([], True) else handle_tunnel m answers)"

text \<open>
  \<open>handle_tcp_stream\<close>: \<open>lookup host\<close> is what \<open>lookup_host\<close> answers for \<open>name:port\<close>. The result is
  the address the output was asked for and the copying, which runs only after connecting.
\<close>

definition stream_address ::
  "(string \<Rightarrow> socket_addr list result) \<Rightarrow> socket_addr \<Rightarrow> string option \<Rightarrow> socket_addr result" where
  "stream_address lookup_host destination_address destination_name =
     (case destination_name of
        Some name \<Rightarrow>
          (case lookup_host (name @ '':'' @ show_digits 10 (unat (sa_port destination_address))) of
             Inl e \<Rightarrow> Inl e
           | Inr addresses \<Rightarrow>
               Inr (case addresses of [] \<Rightarrow> destination_address | address # _ \<Rightarrow> address))
      | None \<Rightarrow> Inr destination_address)"

definition handle_tcp_stream ::
  "system \<Rightarrow> (socket_addr \<Rightarrow> socket_addr \<Rightarrow> unit result) \<Rightarrow> (string \<Rightarrow> socket_addr list result) \<Rightarrow>
   socket_addr \<Rightarrow> string option \<Rightarrow> any_output \<Rightarrow> (transfer + transfer) list \<Rightarrow>
   (socket_addr \<times> copying) result" where
  "handle_tcp_stream sys socks lookup_host destination_address destination_name output steps =
     (case stream_address lookup_host destination_address destination_name of
        Inl e \<Rightarrow> Inl e
      | Inr address \<Rightarrow>
          (case output_connect sys socks output address of
             Inl e \<Rightarrow> Inl e
           | Inr _ \<Rightarrow> Inr (address, copy_bidirectional False steps)))"

section \<open>Lemmas\<close>

lemma map_of_output_map:
  "map_of (output_map_of configs) t =
     map_option into_output (find (\<lambda>c. output_tag c = t) (rev configs))"
proof -
  have "map_of (foldl (\<lambda>m config. AList.update (output_tag config) (into_output config) m) m0 configs) t =
      (case find (\<lambda>c. output_tag c = t) (rev configs) of Some c \<Rightarrow> Some (into_output c) | None \<Rightarrow> map_of m0 t)"
    for m0
  proof (induction configs arbitrary: m0 rule: rev_induct)
    case (snoc c configs)
    then show ?case by (simp split: option.splits)
  qed simp
  then show ?thesis by (simp add: output_map_of_def split: option.splits)
qed

fun closes :: "accept_answer \<Rightarrow> bool" where
  "closes (AcceptError _ closed) = closed"
| "closes (StreamAccepted _) = False"

definition accepted_streams :: "accept_answer list \<Rightarrow> destination list" where
  "accepted_streams answers =
     concat (map (\<lambda>a. case a of StreamAccepted d \<Rightarrow> [d] | _ \<Rightarrow> []) (takeWhile (\<lambda>a. \<not> closes a) answers))"

lemma handle_tunnel_eq:
  "handle_tunnel m answers =
     (map (\<lambda>(address, name, tag). (address, name, choose_output m tag)) (accepted_streams answers),
      \<exists>a \<in> set answers. closes a)"
  by (induction m answers rule: handle_tunnel.induct)
    (simp_all add: accepted_streams_def)

lemma output_connect_local:
  "output_connect sys socks (LocalOutput b) address = Inr () \<Longrightarrow> sys (ConnectTo address) = Inr ()"
  using run_calls_ok [of sys] by (simp add: local_connect_def)

section \<open>Properties\<close>

text \<open>C27: Each stream accepted before the tunnel closes is served once, in order, with the output that
  its tag names: the last configured output with that tag, and a direct connection for a stream
  without tag and for a tag that no output has.\<close>

theorem tunnel_streams_served:
  "handle_tunnel (output_map_of configs) answers =
     (map (\<lambda>(address, name, tag).
        (address, name,
         case Option.bind tag (\<lambda>t. find (\<lambda>c. output_tag c = t) (rev configs)) of
           Some c \<Rightarrow> into_output c
         | None \<Rightarrow> LocalOutput None)) (accepted_streams answers),
      \<exists>a \<in> set answers. closes a)"
proof -
  have "choose_output (output_map_of configs) tag =
      (case Option.bind tag (\<lambda>t. find (\<lambda>c. output_tag c = t) (rev configs)) of
         Some c \<Rightarrow> into_output c | None \<Rightarrow> LocalOutput None)" for tag
    by (cases tag) (auto simp: choose_output_def direct_output_def map_of_output_map split: option.splits)
  then show ?thesis by (simp add: handle_tunnel_eq)
qed

text \<open>A served stream is connected to its destination if it has no name and otherwise to the first
  address that OUT resolves the name to, falling back to the destination only if there is none; what
  is written to the output is a prefix of what the tunnel delivers, and all of it when copying
  succeeds.\<close>

theorem out_stream_connected:
  assumes "handle_tcp_stream sys socks lookup_host destination name output steps = Inr (address, c)"
  shows "address = (case name of
      None \<Rightarrow> destination
    | Some n \<Rightarrow>
        (case lookup_host (n @ '':'' @ show_digits 10 (unat (sa_port destination))) of
           Inr (a # _) \<Rightarrow> a | _ \<Rightarrow> destination)) \<and>
    output_connect sys socks output address = Inr () \<and>
    prefix (d_written (cp_a_b c)) (d_read (cp_a_b c)) \<and>
    (cp_result c = Some (Inr ()) \<longrightarrow> d_written (cp_a_b c) = d_read (cp_a_b c))"
proof -
  have a: "stream_address lookup_host destination name = Inr address"
      and "output_connect sys socks output address = Inr ()" and c: "c = copy_bidirectional False steps"
    using assms by (auto simp: handle_tcp_stream_def split: sum.splits)
  moreover have "address = (case name of
      None \<Rightarrow> destination
    | Some n \<Rightarrow>
        (case lookup_host (n @ '':'' @ show_digits 10 (unat (sa_port destination))) of
           Inr (a # _) \<Rightarrow> a | _ \<Rightarrow> destination))"
    using a by (auto simp: stream_address_def split: option.splits sum.splits list.splits)
  moreover have "prefix (d_written (cp_a_b c)) (d_read (cp_a_b c)) \<and>
      (cp_result c = Some (Inr ()) \<longrightarrow> d_written (cp_a_b c) = d_read (cp_a_b c))"
    using copy_directions_ok(1) [of False steps] copy_result_join [of False steps] unfolding c
    by (auto simp: direction_ok_def join_result_def split: option.splits sum.splits)
  ultimately show ?thesis by simp
qed

theorem out_stream_connected_witness:
  "output_connect (\<lambda>_. Inr ()) (\<lambda>_ _. Inr ()) (LocalOutput None) (SockV4 2 443) = Inr ()"
  using out_stream_connected [of "\<lambda>_. Inr ()" "\<lambda>_ _. Inr ()" "\<lambda>_. Inr [SockV4 2 443]" "SockV4 1 443" "Some ''a''"
      "LocalOutput None" "[]" "SockV4 2 443" "copy_bidirectional False []"]
    run_calls_ok [of "\<lambda>_. Inr ()"]
  by (simp add: handle_tcp_stream_def stream_address_def local_connect_def)

end
