(* ===== verification/Transparent_Proxy.thy ===== *)
theory Transparent_Proxy
  imports Sniffing Geolite Udp_Forwarder Fake_Ip Manager_System Outputs
begin

text \<open>
  The transparent proxy (\<open>src/lib/in/transparent_proxy.rs\<close>): from an accepted connection or a
  received datagram to a tunnel or a forwarded datagram. It composes the fake-IP resolver, sniffing,
  the GeoLite2 lookup, the router, the tunnel manager, the copying of streams and the UDP forwarder,
  each from its own theory.
\<close>

section \<open>Resolving a destination\<close>

text \<open>What both resolutions use; the resolver's query has an order of rows as a parameter.\<close>

record ('net, 're, 'db) proxy =
  px_tls :: tls_lib
  px_geo_lib :: "'db geo_lib"
  px_geolite2 :: "'db geolite2"
  px_route_lib :: "('net, 're) route_lib"
  px_router :: "('net, 're) router"
  px_nets :: fake_nets
  px_db :: fake_db
  px_row_order :: "fake_record list \<Rightarrow> fake_record list"

record resolution =
  rs_destination :: "socket_addr option"
  rs_name :: "string option"
  rs_labels_groups :: "tagged_label list list"
  rs_sniff_buffer :: "u8 list option"
  rs_end :: bool

definition unresolved :: resolution where
  "unresolved = \<lparr> rs_destination = None, rs_name = None, rs_labels_groups = [], rs_sniff_buffer = None,
     rs_end = False \<rparr>"

definition route ::
  "('net, 're, 'db) proxy \<Rightarrow> socket_addr \<Rightarrow> string option \<Rightarrow> tagged_label list list" where
  "route px real_destination name =
     router_match (px_route_lib px) (px_router px) real_destination name
       (geo_lookup (px_geo_lib px) (px_geolite2 px) (sa_ip real_destination))"

text \<open>
  \<open>resolve_tcp_destination\<close> over the answers of \<open>try_read\<close>, with the answers that are left. It does
  not return (\<^const>\<open>None\<close>) when the resolver panics or the reading loop still waits.
\<close>

definition resolve_tcp_destination ::
  "('net, 're, 'db) proxy \<Rightarrow> socket_addr \<Rightarrow> read_answer list \<Rightarrow> (resolution \<times> read_answer list) option" where
  "resolve_tcp_destination px destination answers =
     (case resolve (px_row_order px) (px_nets px) (px_db px) (sa_ip destination) of
        None \<Rightarrow> None
      | Some None \<Rightarrow> Some (unresolved, answers)
      | Some (Some (real_ip, name)) \<Rightarrow>
          (let real_destination = socket_addr_new real_ip (sa_port destination) in
           case (if name = None then sniff (px_tls px) answers
                 else Some \<lparr> sn_name = name, sn_buffer = [], sn_end = False, sn_left = answers \<rparr>) of
             None \<Rightarrow> None
           | Some sniffed \<Rightarrow>
               Some (\<lparr> rs_destination = Some real_destination, rs_name = sn_name sniffed,
                   rs_labels_groups = route px real_destination (sn_name sniffed),
                   rs_sniff_buffer = (if sn_buffer sniffed = [] then None else Some (sn_buffer sniffed)),
                   rs_end = sn_end sniffed \<rparr>, sn_left sniffed)))"

text \<open>\<open>resolve_udp_destination\<close>: as above, without sniffing.\<close>

definition resolve_udp_destination ::
  "('net, 're, 'db) proxy \<Rightarrow> socket_addr \<Rightarrow>
   (socket_addr option \<times> string option \<times> tagged_label list list) option" where
  "resolve_udp_destination px destination =
     (case resolve (px_row_order px) (px_nets px) (px_db px) (sa_ip destination) of
        None \<Rightarrow> None
      | Some None \<Rightarrow> Some (None, None, [])
      | Some (Some (real_ip, name)) \<Rightarrow>
          (let real_destination = socket_addr_new real_ip (sa_port destination)
           in Some (Some real_destination, name, route px real_destination name)))"

section \<open>A TCP connection\<close>

definition stringify_labels_groups :: "tagged_label list list \<Rightarrow> string" where
  "stringify_labels_groups labels_groups =
     join_with '';'' (map (\<lambda>labels. join_with '','' (map (\<lambda>(label, _). show_label label) labels)) labels_groups)"

text \<open>
  \<open>handle_in_tcp_stream\<close>: \<open>connect\<close> is what connecting through the selected tunnel answers, with
  what it has put on the tunnel's stream; \<open>steps\<close> is how the copying proceeds.
\<close>

datatype in_stream_outcome =
    Rejected
  | ConnectFailed any_in_tunnel error
  | Served any_in_tunnel "string option" "u8 list" copying

definition handle_in_tcp_stream ::
  "(in_tunnel \<Rightarrow> bool) \<Rightarrow> (any_in_tunnel \<Rightarrow> destination \<Rightarrow> u8 list option \<Rightarrow> u8 list result) \<Rightarrow>
   u8 list option \<Rightarrow> bool \<Rightarrow> socket_addr \<Rightarrow> string option \<Rightarrow> tagged_label list list \<Rightarrow>
   (transfer + transfer) list \<Rightarrow> tunnel_manager \<Rightarrow> in_stream_outcome \<times> tunnel_manager" where
  "handle_in_tcp_stream is_active connect sniff_buffer ended destination name labels_groups steps manager =
     (let (selected, manager) = select_tunnel is_active manager labels_groups in
      (case selected of
         None \<Rightarrow> Rejected
       | Some (tunnel, tag) \<Rightarrow>
           (case connect tunnel (destination, name, tag) sniff_buffer of
              Inl e \<Rightarrow> ConnectFailed tunnel e
            | Inr written \<Rightarrow> Served tunnel tag written (copy_bidirectional ended steps)),
       manager))"

text \<open>The task of an accepted connection (\<open>listen_tcp_task\<close>); an unresolved one is shut down.\<close>

definition handle_tcp_connection ::
  "('net, 're, 'db) proxy \<Rightarrow> (in_tunnel \<Rightarrow> bool) \<Rightarrow>
   (any_in_tunnel \<Rightarrow> destination \<Rightarrow> u8 list option \<Rightarrow> u8 list result) \<Rightarrow> socket_addr \<Rightarrow>
   read_answer list \<Rightarrow> (transfer + transfer) list \<Rightarrow> tunnel_manager \<Rightarrow>
   (in_stream_outcome option \<times> tunnel_manager) option" where
  "handle_tcp_connection px is_active connect destination answers steps manager =
     (case resolve_tcp_destination px destination answers of
        None \<Rightarrow> None
      | Some (r, _) \<Rightarrow>
          (case rs_destination r of
             None \<Rightarrow> Some (None, manager)
           | Some resolved_destination \<Rightarrow>
               (let (outcome, manager) = handle_in_tcp_stream is_active connect (rs_sniff_buffer r)
                      (rs_end r) resolved_destination (rs_name r) (rs_labels_groups r) steps manager
                in Some (Some outcome, manager))))"

text \<open>
  \<open>listen_tcp_task\<close>: the original destination of an accepted connection, or the address it arrived
  at when the kernel knows none, as the destination of a task of its own; an error of \<open>accept\<close> ends
  the listening, without an error.
\<close>

datatype accepted_connection = Connection "socket_addr result" socket_addr | AcceptFailure error

fun listen_tcp :: "accepted_connection list \<Rightarrow> socket_addr list \<times> unit result option" where
  "listen_tcp [] = ([], None)"
| "listen_tcp (Connection original local_addr # connections) =
     (let (destinations, r) = listen_tcp connections
      in ((case original of Inr destination \<Rightarrow> destination | Inl _ \<Rightarrow> local_addr) # destinations, r))"
| "listen_tcp (AcceptFailure _ # connections) = ([], Some (Inr ()))"

section \<open>Datagrams\<close>

text \<open>
  \<open>listen_udp_task\<close>: a round per received datagram, over what \<open>receive\<close> answers. A destination is
  resolved only when none is associated; an error of \<open>send\<close> ends the task with it, an error of
  \<open>receive\<close> without one. The steps of the associations' own tasks come in between.
\<close>

record datagram =
  dg_source :: socket_addr
  dg_destination :: socket_addr
  dg_opened :: socket_answer
  dg_sent :: "unit result"

definition forward_datagram ::
  "('net, 're, 'db) proxy \<Rightarrow> datagram \<Rightarrow> udp_forwarder \<Rightarrow> (unit result \<times> udp_forwarder) option" where
  "forward_datagram px d fw =
     (case (if get_associated_destination fw (dg_source d) (dg_destination d) = None
            then map_option fst (resolve_udp_destination px (dg_destination d)) else Some None) of
        None \<Rightarrow> None
      | Some resolved \<Rightarrow>
          udp_forward (dg_opened d) (dg_sent d) (dg_source d) (dg_destination d) resolved fw)"

datatype udp_event = Received datagram | ReceiveFailed | TasksStep udp_forwarder

text \<open>The result: how the task ended, \<^const>\<open>None\<close> while it runs; the outer option is a panic.\<close>

fun listen_udp ::
  "('net, 're, 'db) proxy \<Rightarrow> udp_event list \<Rightarrow> udp_forwarder \<Rightarrow>
   (unit result option \<times> udp_forwarder) option" where
  "listen_udp px [] fw = Some (None, fw)"
| "listen_udp px (Received d # events) fw =
     (case forward_datagram px d fw of
        None \<Rightarrow> None
      | Some (Inl e, fw) \<Rightarrow> Some (Some (Inl e), fw)
      | Some (Inr _, fw) \<Rightarrow> listen_udp px events fw)"
| "listen_udp px (ReceiveFailed # events) fw = Some (Some (Inr ()), fw)"
| "listen_udp px (TasksStep fw' # events) fw = listen_udp px events fw'"

text \<open>
  \<open>try_join!\<close> of the three tasks of \<open>up\<close>: the outcomes in the order in which tasks end. The proxy
  ends with the first error, or when all three have ended.
\<close>

fun up_result :: "nat \<Rightarrow> unit result list \<Rightarrow> unit result option" where
  "up_result running [] = (if running = 0 then Some (Inr ()) else None)"
| "up_result running (Inl e # ends) = Some (Inl e)"
| "up_result running (Inr _ # ends) = up_result (running - 1) ends"

section \<open>Lemmas\<close>

lemma resolve_tcp_destination_cases:
  assumes "resolve_tcp_destination px destination answers = Some (r, left)" and "rs_destination r = Some d"
  obtains real_ip where
      "d = socket_addr_new real_ip (sa_port destination)"
      "rs_labels_groups r = route px d (rs_name r)"
      "(case rs_sniff_buffer r of None \<Rightarrow> [] | Some buffer \<Rightarrow> buffer) @ stream_bytes left = stream_bytes answers"
      "(\<exists>name. resolve (px_row_order px) (px_nets px) (px_db px) (sa_ip destination) = Some (Some (real_ip, Some name)) \<and>
         rs_name r = Some name \<and> rs_sniff_buffer r = None \<and> left = answers) \<or>
       resolve (px_row_order px) (px_nets px) (px_db px) (sa_ip destination) = Some (Some (real_ip, None)) \<and>
         (\<exists>s. sniff (px_tls px) answers = Some s \<and> rs_name r = sn_name s \<and> left = sn_left s)"
proof -
  obtain real_ip name where res:
      "resolve (px_row_order px) (px_nets px) (px_db px) (sa_ip destination) = Some (Some (real_ip, name))"
    using assms by (auto simp: resolve_tcp_destination_def unresolved_def split: option.splits)
  show thesis
  proof (cases name)
    case (Some n)
    then show thesis
      using assms res by (intro that [of real_ip]) (auto simp: resolve_tcp_destination_def Let_def)
  next
    case None
    then obtain sn where sn: "sniff (px_tls px) answers = Some sn"
      using assms res by (auto simp: resolve_tcp_destination_def Let_def split: option.splits)
    have "sn_buffer sn @ stream_bytes (sn_left sn) = stream_bytes answers"
      using sn sniff_loop_keeps_bytes [of "px_tls px" "[]" 0 False answers sn] by (simp add: sniff_def)
    then show thesis
      using assms res None sn by (intro that [of real_ip]) (auto simp: resolve_tcp_destination_def Let_def)
  qed
qed

lemma bs_connect_written:
  assumes "bs_connect opened write_answer partial d sniff_buffer = (Some written, Inr ())"
  obtains head where "encode_head d = Inr head"
    "written = head @ (case sniff_buffer of None \<Rightarrow> [] | Some buffer \<Rightarrow> buffer)"
  using assms
  by (auto simp: bs_connect_def write_all_def split: sum.splits option.splits unit.splits)

text \<open>A connection through a tunnel: the tunnel and its tag come from the selection over the router's
  answer for the resolved destination.\<close>

definition attempted :: "in_stream_outcome \<Rightarrow> (any_in_tunnel \<times> string option) option \<Rightarrow> bool" where
  "attempted outcome selected \<longleftrightarrow>
     (case outcome of
        Rejected \<Rightarrow> selected = None
      | ConnectFailed tunnel _ \<Rightarrow> (\<exists>tag. selected = Some (tunnel, tag))
      | Served tunnel tag _ _ \<Rightarrow> selected = Some (tunnel, tag))"

lemma handle_tcp_connection_cases:
  assumes "handle_tcp_connection px is_active connect destination answers steps mg = Some (Some outcome, mg')"
  obtains r left d where
    "resolve_tcp_destination px destination answers = Some (r, left)" "rs_destination r = Some d"
    "attempted outcome (fst (select_tunnel is_active mg (route px d (rs_name r))))"
proof -
  obtain r left d where r: "resolve_tcp_destination px destination answers = Some (r, left)" "rs_destination r = Some d"
      "outcome = fst (handle_in_tcp_stream is_active connect (rs_sniff_buffer r) (rs_end r) d (rs_name r)
        (rs_labels_groups r) steps mg)"
    using assms by (auto simp: handle_tcp_connection_def Let_def split_beta split: option.splits)
  have "rs_labels_groups r = route px d (rs_name r)"
    using resolve_tcp_destination_cases [OF r(1,2)] by blast
  then show thesis
    using r by (intro that [OF r(1,2)])
      (auto simp: handle_in_tcp_stream_def attempted_def split_beta split: option.splits sum.splits)
qed

text \<open>A label asks for a tunnel: an active carrier of least priority value, or the direct connection.\<close>

definition asked_for ::
  "(match_out_id \<Rightarrow> string) \<Rightarrow> (in_tunnel \<Rightarrow> bool) \<Rightarrow> tunnel_manager \<Rightarrow> label \<Rightarrow> any_in_tunnel \<Rightarrow> bool" where
  "asked_for show_id is_active mg label tunnel \<longleftrightarrow>
     (case tunnel of
        DirectInTunnel \<Rightarrow> label = BuiltIn Direct \<or> label = BuiltIn Any
      | InTunnel t \<Rightarrow>
          (let carried = carriers show_id (tunnel_map mg)
                 (if label = BuiltIn Any then BuiltIn Proxy else label) in
           t \<in> carried \<and> is_active t \<and>
           (\<forall>u \<in> carried. is_active u \<longrightarrow> sint (tun_priority t) \<le> sint (tun_priority u))))"

lemma asked_for_open:
  assumes "asked_for show_id is_active (sys_manager s) label (InTunnel t)" "maps_inv show_id s"
  shows "t \<in> ran (map_of (tunnel_map (sys_manager s)))"
proof -
  obtain i where "(i, t) \<in> set (tunnel_map (sys_manager s))"
    using assms(1) by (auto simp: asked_for_def carriers_def Let_def)
  moreover have "distinct (map fst (tunnel_map (sys_manager s)))" using assms(2) by (simp add: maps_inv_def)
  ultimately show ?thesis by (auto intro: ranI)
qed

lemma route_label:
  assumes "unique_law (px_route_lib px)" and "(label, tag) \<in> set (concat (route px d name))"
  shows "\<exists>rule \<in> set (concat (rules_groups_cache (px_router px))).
    label \<in> set (rule_labels rule) \<and> tag = rule_tag rule \<and>
    (is_fallback rule \<or> rule_match (px_route_lib px) rule d name
       (geo_lookup (px_geo_lib px) (px_geolite2 px) (sa_ip d)) False = Some (rule_labels rule))"
  using assms router_match_rule [of "px_route_lib px" _ "px_router px" d name] by (auto simp: route_def)

section \<open>A concrete proxy\<close>

definition example_proxy :: "(ip_addr, string, string) proxy" where
  "example_proxy =
     \<lparr> px_tls = example_tls, px_geo_lib = example_geo, px_geolite2 = \<lparr> geo_reader = None, geo_cache = None \<rparr>,
       px_route_lib = host_lib, px_router = sys_router example_system, px_nets = default_nets,
       px_db = example_db, px_row_order = (\<lambda>xs. xs) \<rparr>"

definition example_answers :: "read_answer list" where
  "example_answers = [ReadOk [0x16, 3], WouldBlock, ReadOk [1, 1, 97, 98], ReadOk [99]]"

definition example_resolution :: resolution where
  "example_resolution =
     \<lparr> rs_destination = Some (SockV4 0x01010101 443), rs_name = Some ''a'',
       rs_labels_groups = [[(Custom ''o'', None)]], rs_sniff_buffer = Some [0x16, 3, 1, 1, 97, 98], rs_end = False \<rparr>"

lemma example_route: "route example_proxy d name = [[(Custom ''o'', None)]]"
  by (simp add: route_def router_match_def example_proxy_def example_system_def match_groups_def
      match_group_step_def match_rules_step_def fallback_match_def)

lemma example_resolve_direct:
  "resolve_tcp_destination example_proxy (SockV4 0x01010101 443) example_answers =
     Some (example_resolution, [ReadOk [99]])"
proof -
  have "resolve (px_row_order example_proxy) (px_nets example_proxy) (px_db example_proxy) (IpV4 0x01010101) =
      Some (Some (IpV4 0x01010101, None))"
    by (simp add: resolve_def example_proxy_def default_nets_def)
  moreover have "px_tls example_proxy = example_tls" by (simp add: example_proxy_def)
  ultimately show ?thesis
    by (simp add: resolve_tcp_destination_def example_answers_def example_sniff example_resolution_def
        example_route Let_def)
qed

section \<open>Properties\<close>

text \<open>A proxied connection arrives whole: through a byte-stream tunnel the OUT end reads the
  resolved destination, name and tag, and then a prefix of the bytes the client sends, sniffed and
  copied ones in their order and once; when everything left was read and copying succeeded, all of
  them.\<close>

theorem tcp_stream_end_to_end:
  assumes "resolve_tcp_destination px destination answers = Some (r, left)"
    and "rs_destination r = Some d" and "valid_destination (d, rs_name r, tag)"
    and "bs_connect opened write_answer partial (d, rs_name r, tag) (rs_sniff_buffer r) = (Some written, Inr ())"
    and "c = copy_bidirectional (rs_end r) steps" and "prefix (d_read (cp_a_b c)) (stream_bytes left)"
  shows "\<exists>delivered. bs_accept (written @ d_written (cp_a_b c)) =
      Inr (canon_destination (d, rs_name r, tag), delivered) \<and>
    prefix delivered (stream_bytes answers) \<and>
    (d_read (cp_a_b c) = stream_bytes left \<and> cp_result c = Some (Inr ()) \<longrightarrow> delivered = stream_bytes answers)"
proof -
  let ?sniffed = "case rs_sniff_buffer r of None \<Rightarrow> [] | Some buffer \<Rightarrow> buffer"
  obtain head where head: "encode_head (d, rs_name r, tag) = Inr head" "written = head @ ?sniffed"
    using assms(4) by (rule bs_connect_written)
  have bytes: "?sniffed @ stream_bytes left = stream_bytes answers"
    using resolve_tcp_destination_cases [OF assms(1,2)] by blast
  have ok: "direction_ok (cp_a_b c)" unfolding assms(5) by (rule copy_directions_ok)
  have "bs_accept (written @ d_written (cp_a_b c)) =
      Inr (canon_destination (d, rs_name r, tag), ?sniffed @ d_written (cp_a_b c))"
    using head.decode_encode [OF assms(3) head(1)] head(2) by simp
  moreover have "prefix (d_written (cp_a_b c)) (stream_bytes left)"
    using ok assms(6) prefix_order.trans unfolding direction_ok_def by blast
  then have "prefix (?sniffed @ d_written (cp_a_b c)) (stream_bytes answers)"
    unfolding bytes [symmetric] by simp
  moreover have "d_written (cp_a_b c) = d_read (cp_a_b c)" if "cp_result c = Some (Inr ())"
    using that ok copy_result_join [of "rs_end r" steps] unfolding assms(5)
    by (auto simp: direction_ok_def join_result_def split: option.splits sum.splits)
  then have "?sniffed @ d_written (cp_a_b c) = stream_bytes answers"
    if "d_read (cp_a_b c) = stream_bytes left" "cp_result c = Some (Inr ())"
    using that bytes by simp
  ultimately show ?thesis by blast
qed

theorem tcp_stream_end_to_end_witness:
  "\<exists>delivered. bs_accept ([0, 1, 1, 1, 1, 1, 0xBB, 1, 97, 0, 0x16, 3, 1, 1, 97, 98] @ [99]) =
      Inr (canon_destination (SockV4 0x01010101 443, Some ''a'', None), delivered) \<and>
    delivered = stream_bytes example_answers"
proof -
  let ?steps = "[Inl (Copied [99]), Inl SourceEnd, Inr SourceEnd]"
  have c: "d_read (cp_a_b (copy_bidirectional False ?steps)) = [99]"
      "d_written (cp_a_b (copy_bidirectional False ?steps)) = [99]"
      "cp_result (copy_bidirectional False ?steps) = Some (Inr ())"
    by (simp_all add: copy_bidirectional_def copy_step_def copy_start_def direction_start_def
        direction_step_def join_result_def)
  have v: "valid_destination (SockV4 0x01010101 443, Some ''a'', None)"
    by (simp add: valid_destination_def valid_text_def rust_string_def bytes_of_def utf8_width_def)
  show ?thesis
    using tcp_stream_end_to_end [OF example_resolve_direct, of "SockV4 0x01010101 443" None "Inr ()" "\<lambda>_. Inr ()" length
        "[0, 1, 1, 1, 1, 1, 0xBB, 1, 97, 0, 0x16, 3, 1, 1, 97, 98]" "copy_bidirectional False ?steps" ?steps] c v
    by (simp add: example_resolution_def bs_connect_def encode_head_def encode_text_def be_bytes_2 be_bytes_4
        bytes_of_def write_all_def)
qed

text \<open>The rule behind a connection.\<close>

lemma connection_rule:
  assumes "manager_reachable lib show_id s" and "unique_law lib"
    and "px_route_lib px = lib" and "px_router px = sys_router s"
    and "handle_tcp_connection px is_active connect destination answers steps (sys_manager s) =
      Some (Some (Served tunnel tag written c), mg')"
  shows "\<exists>r left d rule label.
    resolve_tcp_destination px destination answers = Some (r, left) \<and> rs_destination r = Some d \<and>
    rule \<in> set (concat (rules_groups_cache (sys_router s))) \<and> label \<in> set (rule_labels rule) \<and> tag = rule_tag rule \<and>
    (is_fallback rule \<or> rule_match lib rule d (rs_name r)
       (geo_lookup (px_geo_lib px) (px_geolite2 px) (sa_ip d)) False = Some (rule_labels rule)) \<and>
    asked_for show_id is_active (sys_manager s) label tunnel"
proof -
  obtain r left d where r: "resolve_tcp_destination px destination answers = Some (r, left)" "rs_destination r = Some d"
      and sel: "fst (select_tunnel is_active (sys_manager s) (route px d (rs_name r))) = Some (tunnel, tag)"
    using assms(5) by (rule handle_tcp_connection_cases) (auto simp: attempted_def)
  obtain ord where ord: "hash_order ord" "label_map_of show_id ord (sys_manager s)"
    using reachable_maps [OF assms(1)] by (auto simp: maps_inv_def)
  have "\<exists>label. (label, tag) \<in> set (concat (route px d (rs_name r))) \<and> asked_for show_id is_active (sys_manager s) label tunnel"
  proof (cases tunnel)
    case DirectInTunnel
    with sel have "fst (select_tunnel is_active (sys_manager s) (route px d (rs_name r))) = Some (DirectInTunnel, tag)"
      by simp
    from selected_direct [OF this] show ?thesis using DirectInTunnel by (auto simp: asked_for_def)
  next
    case (InTunnel t)
    with sel have "fst (select_tunnel is_active (sys_manager s) (route px d (rs_name r))) = Some (InTunnel t, tag)"
      by simp
    from selected_carrier [OF ord this] show ?thesis
      unfolding InTunnel asked_for_def any_in_tunnel.case Let_def by blast
  qed
  then obtain label where label: "(label, tag) \<in> set (concat (route px d (rs_name r)))"
      "asked_for show_id is_active (sys_manager s) label tunnel"
    by blast
  obtain rule where "rule \<in> set (concat (rules_groups_cache (sys_router s)))" "label \<in> set (rule_labels rule)"
      "tag = rule_tag rule" "is_fallback rule \<or> rule_match lib rule d (rs_name r)
        (geo_lookup (px_geo_lib px) (px_geolite2 px) (sa_ip d)) False = Some (rule_labels rule)"
    using route_label [of px label tag d "rs_name r"] assms(2) label(1) unfolding assms(3,4) by blast
  with r label(2) show ?thesis by blast
qed

text \<open>C7: A connection is only ever made for a reason: if it goes through a tunnel, some cached rule
  that matches its real address and name has a label with the tunnel's tag that the tunnel carries
  (\<open>ANY\<close> counting as \<open>PROXY\<close>), the tunnel is open and active, and no active carrier has a smaller
  priority value; if it goes direct, the rule says \<open>DIRECT\<close> or \<open>ANY\<close>.\<close>

theorem connection_justified:
  assumes "manager_reachable lib show_id s" and "unique_law lib"
    and "px_route_lib px = lib" and "px_router px = sys_router s"
    and "handle_tcp_connection px is_active connect destination answers steps (sys_manager s) =
      Some (Some (Served tunnel tag written c), mg')"
  shows "\<exists>r left d rule label.
    resolve_tcp_destination px destination answers = Some (r, left) \<and> rs_destination r = Some d \<and>
    rule \<in> set (concat (rules_groups_cache (sys_router s))) \<and> label \<in> set (rule_labels rule) \<and> tag = rule_tag rule \<and>
    (is_fallback rule \<or> rule_match lib rule d (rs_name r)
       (geo_lookup (px_geo_lib px) (px_geolite2 px) (sa_ip d)) False = Some (rule_labels rule)) \<and>
    asked_for show_id is_active (sys_manager s) label tunnel"
  using assms by (rule connection_rule)

theorem connection_justified_witness:
  "\<exists>rule label. rule \<in> set (concat (rules_groups_cache (sys_router example_system))) \<and>
    label \<in> set (rule_labels rule) \<and>
    asked_for (\<lambda>_. ''o'') (\<lambda>_. True) (sys_manager example_system) label (InTunnel example_tunnel)"
proof -
  have "px_route_lib example_proxy = host_lib" "px_router example_proxy = sys_router example_system"
    by (simp_all add: example_proxy_def)
  moreover have "fst (select_tunnel (\<lambda>_. True) (sys_manager example_system) [[(Custom ''o'', None)]]) =
      Some (InTunnel example_tunnel, None)"
    by (simp add: select_tunnel_def example_system_def example_manager_def select_from_tunnels_def)
  then have "\<exists>c mg'. handle_tcp_connection example_proxy (\<lambda>_. True) (\<lambda>_ _ _. Inr []) (SockV4 0x01010101 443)
      example_answers [] (sys_manager example_system) =
      Some (Some (Served (InTunnel example_tunnel) None [] c), mg')"
    by (simp add: handle_tcp_connection_def example_resolve_direct example_resolution_def
        handle_in_tcp_stream_def split_beta)
  ultimately show ?thesis
    using connection_justified [OF example_system_reachable host_lib_unique, of example_proxy "\<lambda>_. True"] by blast
qed

lemma resolved_fake_destination:
  assumes "resolve (px_row_order px) (px_nets px) (px_db px) fake = Some (Some (real_ip, Some name))"
  shows "resolve_tcp_destination px (socket_addr_new fake port) answers =
      Some (\<lparr> rs_destination = Some (socket_addr_new real_ip port), rs_name = Some name,
        rs_labels_groups = route px (socket_addr_new real_ip port) (Some name), rs_sniff_buffer = None, rs_end = False \<rparr>, answers) \<and>
    resolve_udp_destination px (socket_addr_new fake port) =
      Some (Some (socket_addr_new real_ip port), Some name, route px (socket_addr_new real_ip port) (Some name))"
  using assms by (simp add: resolve_tcp_destination_def resolve_udp_destination_def Let_def)

text \<open>A connection or datagram to a fake address that was assigned for a name goes to the real
  address of that name on the same port, and is routed by the name without reading from the client.\<close>

theorem fake_ip_connection_routed_by_name:
  assumes "db_inv db" and "hash_order ord" and "hash_order (px_row_order px)" and "default_nets_law (px_nets px)"
    and "assign_fake_ip ord now name real_ip db = Some (fake, px_db px)" and "sint (db_seq (px_db px)) < 2 ^ 17"
  shows "let real = socket_addr_new real_ip port; n = Some (trim_end_dots name) in
    resolve_tcp_destination px (socket_addr_new fake port) answers =
      Some (\<lparr> rs_destination = Some real, rs_name = n, rs_labels_groups = route px real n,
        rs_sniff_buffer = None, rs_end = False \<rparr>, answers) \<and>
    resolve_udp_destination px (socket_addr_new fake port) = Some (Some real, n, route px real n)"
proof -
  obtain i where i: "fake = convert_id_to_fake_ip i real_ip" "db_inv (px_db px)"
      "assigned_row now name real_ip i \<in> set (db_rows (px_db px))" "1 \<le> sint i" "sint i \<le> sint (db_seq (px_db px))"
    using assign_fake_ip_row [OF assms(1,2,5)] by blast
  have fits: "id_fits (ip_record_type real_ip) i" using i(4,5) assms(6) by (simp add: id_fits_def)
  have "resolve (px_row_order px) (px_nets px) (px_db px) fake = Some (Some (real_ip, Some (trim_end_dots name)))"
    using resolve_row [OF assms(4,3) i(2,3), of real_ip real_ip, unfolded assigned_row_simps, OF refl fits refl refl]
    unfolding i(1) .
  then show ?thesis unfolding Let_def by (rule resolved_fake_destination)
qed

theorem fake_ip_connection_routed_by_name_witness:
  "resolve_udp_destination example_proxy (SockV4 0xC6120001 443) =
     Some (Some (SockV4 0x01010101 443), Some ''a.com'', [[(Custom ''o'', None)]])"
proof -
  have order: "hash_order (px_row_order example_proxy)" and nets: "default_nets_law (px_nets example_proxy)"
    and db: "px_db example_proxy = example_db" and seq: "sint (db_seq (px_db example_proxy)) < 2 ^ 17"
    by (simp_all add: example_proxy_def hash_order_id example_db_def)
  have trim: "trim_end_dots ''a.com.'' = ''a.com''" by (simp add: trim_end_dots_def strip_while_def)
  from fake_ip_connection_routed_by_name [OF db_inv_new hash_order_id order nets _ seq, unfolded db, OF example_assign,
      of 443 "[]"]
  show ?thesis unfolding Let_def trim example_route by simp
qed

text \<open>One datagram can end the proxy: an association whose task has ended stays in the map until it
  is cleaned up, and a datagram of its source in between, like any datagram that the system refuses
  to send, is an error that ends the UDP task and with it the whole proxy.\<close>

theorem datagram_ends_proxy:
  "(\<exists>fw. udp_reachable fw \<and>
     (\<forall>events ends. listen_udp px (Received \<lparr> dg_source = src, dg_destination = dst, dg_opened = opened,
          dg_sent = sent \<rparr> # events) fw = Some (Some (Inl (External ''channel closed'')), fw) \<and>
        up_result 3 (Inl (External ''channel closed'') # ends) = Some (Inl (External ''channel closed'')))) \<and>
   (\<exists>fw fw'. udp_reachable fw \<and>
     (\<forall>events. listen_udp px (Received \<lparr> dg_source = src, dg_destination = dst, dg_opened = opened,
          dg_sent = Inl e \<rparr> # events) fw = Some (Some (Inl e), fw')))"
proof (rule conjI)
  let ?fw = "with_association src (one_destination dst dst)"
  let ?ended = "end_association src ?fw"
  let ?d = "\<lambda>r. \<lparr> dg_source = src, dg_destination = dst, dg_opened = opened, dg_sent = r \<rparr>"
  note defs = forward_datagram_def udp_forward_def udp_send_def get_associated_destination_def
    end_association_def association_send_def example_associations
  have "map_of (uf_associations ?fw) src = Some (one_destination dst dst)" "as_running (one_destination dst dst)"
    by (simp_all add: example_associations)
  then have "udp_reachable ?ended"
    by (rule reachable_step [OF reachable_first udp_step.ended])
  moreover have "forward_datagram px (?d sent) ?ended = Some (Inl (External ''channel closed''), ?ended)"
    by (simp add: defs)
  ultimately show "\<exists>fw. udp_reachable fw \<and>
     (\<forall>events ends. listen_udp px (Received (?d sent) # events) fw = Some (Some (Inl (External ''channel closed'')), fw) \<and>
        up_result 3 (Inl (External ''channel closed'') # ends) = Some (Inl (External ''channel closed'')))"
    by (intro exI [of _ ?ended]) simp
  have "\<exists>fw'. forward_datagram px (?d (Inl e)) ?fw = Some (Inl e, fw')"
    by (simp add: defs)
  then obtain fw' where "forward_datagram px (?d (Inl e)) ?fw = Some (Inl e, fw')" ..
  then show "\<exists>fw fw'. udp_reachable fw \<and>
     (\<forall>events. listen_udp px (Received (?d (Inl e)) # events) fw = Some (Some (Inl e), fw'))"
    using reachable_first by (intro exI [of _ ?fw] exI [of _ fw']) simp
qed

text \<open>The first error of \<open>accept\<close> ends the accepting of connections and the first error of
  \<open>receive\<close> the forwarding of datagrams, both without an error: what comes later is not looked at,
  and the program goes on with its other tasks.\<close>

theorem listening_ends_silently:
  "listen_tcp (map (\<lambda>(original, local_addr). Connection original local_addr) connections @
       AcceptFailure e # later) =
     (map (\<lambda>(original, local_addr). case original of Inr destination \<Rightarrow> destination | Inl _ \<Rightarrow> local_addr) connections,
      Some (Inr ())) \<and>
   listen_udp px (ReceiveFailed # events) fw = Some (Some (Inr ()), fw) \<and>
   up_result 3 [Inr ()] = None \<and> up_result 3 [Inr (), Inr ()] = None"
proof -
  have "listen_tcp (map (\<lambda>(original, local_addr). Connection original local_addr) connections @
       AcceptFailure e # later) =
     (map (\<lambda>(original, local_addr). case original of Inr destination \<Rightarrow> destination | Inl _ \<Rightarrow> local_addr) connections,
      Some (Inr ()))"
    by (induction connections) (auto simp: Let_def split: sum.splits)
  then show ?thesis by (simp add: numeral_3_eq_3)
qed

end
