(* ===== verification/Tunnel_Providers.thy ===== *)
theory Tunnel_Providers
  imports Match_Server Sockets
begin

text \<open>
  The tunnel providers (\<open>src/lib/tunnel/http2/http2_tunnel_provider.rs\<close>,
  \<open>plug_http2_tunnel_provider.rs\<close>, \<open>src/lib/tunnel/quic/quic_tunnel_provider.rs\<close>): what the IN and
  the OUT end announce to each other, the calls up to a tunnel, the tunnel that comes out, and the
  slot through which the streams that OUTs open towards a listening IN reach the waiting tunnels.
  Redis, STUN, TLS, QUIC and the HTTP/2 handshake are parameters: what each awaited call answers.
\<close>

section \<open>Announced data\<close>

text \<open>\<open>Http2OutData\<close>, \<open>PlugHttp2InData\<close> and \<open>QuicOutData\<close>; the other halves are empty.\<close>

record tls_data =
  td_address :: socket_addr
  td_cert :: string
  td_key :: string

type_synonym provided = "(in_tunnel \<times> out_rule_config list \<times> i64) option"

section \<open>The IN end\<close>

record http2_in_config =
  h2c_connections :: usize
  h2c_priority :: "i64 option"
  h2c_priority_default :: i64
  h2c_traffic_mark :: u32

record plug_http2_in_config =
  phc_listen_address :: socket_addr
  phc_external_port :: "u16 option"
  phc_connections :: usize
  phc_priority :: "i64 option"
  phc_priority_default :: i64
  phc_stun_server_addresses :: "socket_addr list"
  phc_traffic_mark :: u32

record quic_in_config =
  qc_priority :: "i64 option"
  qc_priority_default :: i64
  qc_stun_server_addresses :: "socket_addr list"
  qc_traffic_mark :: u32

definition accept_out :: "usize \<Rightarrow> match_out_id result \<Rightarrow> (match_out_id \<times> usize) result" where
  "accept_out connections r = map_sum id (\<lambda>out_id. (out_id, connections)) r"

definition resolve_priority :: "i64 option \<Rightarrow> i64 option \<Rightarrow> i64 \<Rightarrow> i64" where
  "resolve_priority configured tunnel_priority priority_default =
     unwrap_or configured (unwrap_or tunnel_priority priority_default)"

definition provide :: "string \<Rightarrow> i64 option \<Rightarrow> i64 \<Rightarrow> 'd match_out \<Rightarrow> provided" where
  "provide tunnel_name configured priority_default mo =
     Some (\<lparr> tun_type = tunnel_name, tun_id = mo_tunnel_id mo, tun_out_id = mo_id mo,
         tun_labels = mo_tunnel_labels mo,
         tun_priority = resolve_priority configured (mo_tunnel_priority mo) priority_default \<rparr>,
       mo_routing_rules mo, mo_routing_priority mo)"

text \<open>
  \<open>Http2InTunnelProvider::accept\<close>: \<open>secured\<close> is what the TLS configuration from certificate and
  key, the TLS connection and the HTTP/2 handshake answer together.
\<close>

definition http2_accept ::
  "http2_in_config \<Rightarrow> system \<Rightarrow> (string \<Rightarrow> string \<Rightarrow> unit result) \<Rightarrow> tls_data match_out option result \<Rightarrow>
   provided result" where
  "http2_accept config sys secured matched =
     (case matched of
        Inl e \<Rightarrow> Inl e
      | Inr None \<Rightarrow> Inr None
      | Inr (Some mo) \<Rightarrow>
          (case snd (http2_tunnel_connect sys (h2c_traffic_mark config) (td_address (mo_data mo))) of
             Inl e \<Rightarrow> Inl e
           | Inr _ \<Rightarrow>
               (case secured (td_cert (mo_data mo)) (td_key (mo_data mo)) of
                  Inl e \<Rightarrow> Inl e
                | Inr _ \<Rightarrow> Inr (provide ''http2'' (h2c_priority config) (h2c_priority_default config) mo))))"

definition plug_external_port :: "plug_http2_in_config \<Rightarrow> u16" where
  "plug_external_port config = unwrap_or (phc_external_port config) (sa_port (phc_listen_address config))"

text \<open>
  \<open>PlugHttp2InTunnelProvider::accept\<close>: \<open>matched\<close> is what matching answers for the data it
  announces, \<open>stream tunnel_id\<close> whether the stream of the tunnel came within three seconds.
\<close>

definition plug_http2_accept ::
  "plug_http2_in_config \<Rightarrow> string \<Rightarrow> string \<Rightarrow> ip_addr result \<Rightarrow> (tls_data \<Rightarrow> unit match_out option result) \<Rightarrow>
   (tunnel_id \<Rightarrow> unit result) \<Rightarrow> unit result \<Rightarrow> provided result" where
  "plug_http2_accept config cert key probed matched stream handshake =
     (case probed of
        Inl e \<Rightarrow> Inl e
      | Inr ip \<Rightarrow>
          (case matched \<lparr> td_address = socket_addr_new ip (plug_external_port config), td_cert = cert, td_key = key \<rparr> of
             Inl e \<Rightarrow> Inl e
           | Inr None \<Rightarrow> Inr None
           | Inr (Some mo) \<Rightarrow>
               (case stream (mo_tunnel_id mo) of
                  Inl e \<Rightarrow> Inl e
                | Inr _ \<Rightarrow>
                    (case handshake of
                       Inl e \<Rightarrow> Inl e
                     | Inr _ \<Rightarrow>
                         Inr (provide ''plug-http2'' (phc_priority config) (phc_priority_default config) mo)))))"

text \<open>\<open>QuicInTunnelProvider::accept\<close>: the socket is bound to any address of the OUT's family.\<close>

definition quic_accept ::
  "quic_in_config \<Rightarrow> (socket_addr \<Rightarrow> unit result) \<Rightarrow> (tls_data \<Rightarrow> unit result) \<Rightarrow>
   tls_data match_out option result \<Rightarrow> provided result" where
  "quic_accept config bound connected matched =
     (case matched of
        Inl e \<Rightarrow> Inl e
      | Inr None \<Rightarrow> Inr None
      | Inr (Some mo) \<Rightarrow>
          (case bound (get_any_address (td_address (mo_data mo))) of
             Inl e \<Rightarrow> Inl e
           | Inr _ \<Rightarrow>
               (case connected (mo_data mo) of
                  Inl e \<Rightarrow> Inl e
                | Inr _ \<Rightarrow> Inr (provide ''quic'' (qc_priority config) (qc_priority_default config) mo))))"

section \<open>The OUT end\<close>

text \<open>
  \<open>PlugHttp2OutTunnelProvider::accept\<close>: it connects to the IN, and the first bytes on the TLS stream
  are the tunnel's id. The result is the id and those bytes.
\<close>

definition plug_http2_out_accept ::
  "system \<Rightarrow> (string \<Rightarrow> string \<Rightarrow> unit result) \<Rightarrow> tls_data match_in result \<Rightarrow> unit result \<Rightarrow>
   (tunnel_id \<times> u8 list) result" where
  "plug_http2_out_accept sys secured matched handshake =
     (case matched of
        Inl e \<Rightarrow> Inl e
      | Inr mi \<Rightarrow>
          (let address = td_address (mi_data mi) in
           case snd (run_calls sys ([new_socket address, SetNodelay] @ set_keepalive_options 5 5 3 @ [ConnectTo address])) of
             Inl e \<Rightarrow> Inl e
           | Inr _ \<Rightarrow>
               (case secured (td_cert (mi_data mi)) (td_key (mi_data mi)) of
                  Inl e \<Rightarrow> Inl e
                | Inr _ \<Rightarrow>
                    (let bytes = tunnel_id_as_bytes (mi_tunnel_id mi) in
                     case sys (WriteAll bytes) of
                       Inl e \<Rightarrow> Inl e
                     | Inr _ \<Rightarrow>
                         (case handshake of Inl e \<Rightarrow> Inl e | Inr _ \<Rightarrow> Inr (mi_tunnel_id mi, bytes))))))"

section \<open>Pending streams\<close>

text \<open>
  One accepted connection of the listener in \<open>PlugHttp2InTunnelProvider::new\<close>: after TLS, the first
  16 octets are the tunnel's id; any failure drops the connection and the loop goes on. \<open>received\<close>
  are the octets that arrive within a second, before the stream ends or the time is over.
\<close>

definition read_tunnel_id :: "unit result \<Rightarrow> u8 list \<Rightarrow> (tunnel_id \<times> u8 list) option" where
  "read_tunnel_id secured received =
     (case secured of
        Inl _ \<Rightarrow> None
      | Inr _ \<Rightarrow>
          (case read_exact 16 received of
             Inl _ \<Rightarrow> None
           | Inr (tunnel_id_buffer, left) \<Rightarrow> Some (tunnel_id_from_bytes tunnel_id_buffer, left)))"

text \<open>
  The slot \<open>pending_stream\<close> holds one stream; the tunnels that wait poll it in turn. A stream that
  arrives replaces the one in the slot, and a poll takes whatever is there (\<open>wait_for_pending_stream\<close>).
\<close>

datatype 's pending_event = Arrives tunnel_id 's | Polls tunnel_id

type_synonym 's pending_slot = "(tunnel_id \<times> 's) option"

fun pending_step :: "'s pending_slot \<Rightarrow> 's pending_event \<Rightarrow> 's pending_slot \<times> (tunnel_id \<times> 's) option" where
  "pending_step pending_stream (Arrives tunnel_id stream) = (Some (tunnel_id, stream), None)"
| "pending_step pending_stream (Polls tunnel_id) =
     (case pending_stream of
        None \<Rightarrow> (None, None)
      | Some (pending_tunnel_id, stream) \<Rightarrow>
          (None, if pending_tunnel_id = tunnel_id then Some (tunnel_id, stream) else None))"

fun pending_run :: "'s pending_slot \<Rightarrow> 's pending_event list \<Rightarrow> 's pending_slot \<times> (tunnel_id \<times> 's) list" where
  "pending_run slot [] = (slot, [])"
| "pending_run slot (e # es) =
     (let (slot, delivered) = pending_step slot e;
          (slot, rest) = pending_run slot es
      in (slot, (case delivered of None \<Rightarrow> rest | Some d \<Rightarrow> d # rest)))"

section \<open>Lemmas\<close>

lemma pending_run_append:
  "pending_run slot (es @ es') =
     (let (slot1, ds) = pending_run slot es; (slot2, ds') = pending_run slot1 es' in (slot2, ds @ ds'))"
  by (induction slot es rule: pending_run.induct) (auto simp: Let_def split: prod.splits option.splits)

definition arrivals :: "'s pending_event list \<Rightarrow> (tunnel_id \<times> 's) list" where
  "arrivals es = concat (map (\<lambda>e. case e of Arrives i s \<Rightarrow> [(i, s)] | Polls _ \<Rightarrow> []) es)"

lemma arrivals_simps [simp]:
  "arrivals [] = []" "arrivals (Arrives i s # es) = (i, s) # arrivals es" "arrivals (Polls i # es) = arrivals es"
  "arrivals (es @ es') = arrivals es @ arrivals es'"
  by (simp_all add: arrivals_def)

definition slot_list :: "'s pending_slot \<Rightarrow> (tunnel_id \<times> 's) list" where
  "slot_list slot = (case slot of None \<Rightarrow> [] | Some x \<Rightarrow> [x])"

text \<open>Nothing is delivered or kept that was not there or did not arrive, and nothing twice.\<close>

lemma pending_run_mset:
  "pending_run slot es = (slot', ds) \<Longrightarrow>
     mset (slot_list slot') + mset ds \<subseteq># mset (slot_list slot) + mset (arrivals es)"
proof (induction es arbitrary: slot slot' ds)
  case Nil
  then show ?case by simp
next
  case (Cons e es)
  obtain slot1 d where step: "pending_step slot e = (slot1, d)" by fastforce
  obtain ds1 where run: "pending_run slot1 es = (slot', ds1)"
    and ds: "ds = (case d of None \<Rightarrow> ds1 | Some x \<Rightarrow> x # ds1)"
    using Cons.prems step by (auto split: prod.splits)
  note IH = Cons.IH [OF run]
  show ?case
  proof (cases e)
    case (Arrives i s)
    then have "slot1 = Some (i, s)" "ds = ds1" using step ds by auto
    then have "mset (slot_list slot') + mset ds \<subseteq># mset (arrivals (e # es))"
      using IH Arrives by (simp add: slot_list_def)
    then show ?thesis by (simp add: subset_mset.add_increasing)
  next
    case (Polls i)
    let ?d = "case d of None \<Rightarrow> {#} | Some x \<Rightarrow> {#x#}"
    have taken: "mset (slot_list slot1) + ?d \<subseteq># mset (slot_list slot)"
      using step Polls by (auto simp: slot_list_def split: option.splits if_splits)
    have "mset (slot_list slot') + mset ds = ?d + (mset (slot_list slot') + mset ds1)"
      using ds by (simp split: option.splits)
    also have "\<dots> \<subseteq># ?d + (mset (slot_list slot1) + mset (arrivals es))"
      using IH by (rule subset_mset.add_left_mono)
    also have "\<dots> = (mset (slot_list slot1) + ?d) + mset (arrivals es)" by (simp only: ac_simps)
    also have "\<dots> \<subseteq># mset (slot_list slot) + mset (arrivals es)"
      using taken by (rule subset_mset.add_right_mono)
    finally show ?thesis using Polls by simp
  qed
qed

text \<open>The slot after some events holds what arrived last, if nothing was polled since.\<close>

lemma pending_deliveries:
  assumes "(i, x) \<notin> set (slot_list slot)" "(i, x) \<notin> set (arrivals es)" "pending_run slot es = (slot', ds)"
  shows "(i, x) \<notin> set ds \<and> (i, x) \<notin> set (slot_list slot')"
proof -
  have "(i, x) \<in># mset (slot_list slot) + mset (arrivals es)"
    if "(i, x) \<in># mset (slot_list slot') + mset ds"
    using mset_subset_eqD [OF pending_run_mset [OF assms(3)] that] .
  then show ?thesis using assms(1,2) by auto
qed

definition provided_tunnel :: "'d match_out \<Rightarrow> i64 option \<Rightarrow> i64 \<Rightarrow> in_tunnel \<times> out_rule_config list \<times> i64 \<Rightarrow> bool" where
  "provided_tunnel mo configured priority_default p \<longleftrightarrow>
     (case p of (t, rules, routing_priority) \<Rightarrow>
        tun_id t = mo_tunnel_id mo \<and> tun_out_id t = mo_id mo \<and> tun_labels t = mo_tunnel_labels mo \<and>
        rules = mo_routing_rules mo \<and> routing_priority = mo_routing_priority mo \<and>
        tun_priority t = (case configured of Some q \<Rightarrow> q
          | None \<Rightarrow> (case mo_tunnel_priority mo of Some q \<Rightarrow> q | None \<Rightarrow> priority_default)))"

lemma provide_Some: "provide name configured priority_default mo = Some p \<Longrightarrow> provided_tunnel mo configured priority_default p"
  by (auto simp: provide_def provided_tunnel_def resolve_priority_def unwrap_or_def split: option.splits)

lemma http2_accept_Some:
  "http2_accept hc sys secured reply = Inr (Some p) \<Longrightarrow>
     \<exists>mo. reply = Inr (Some mo) \<and> provided_tunnel mo (h2c_priority hc) (h2c_priority_default hc) p"
  by (auto simp: http2_accept_def split: sum.splits option.splits dest!: provide_Some)

lemma plug_http2_accept_Some:
  "plug_http2_accept pc cert key probed matched stream handshake = Inr (Some p) \<Longrightarrow>
     \<exists>ip mo. probed = Inr ip \<and>
       matched \<lparr> td_address = socket_addr_new ip (plug_external_port pc), td_cert = cert, td_key = key \<rparr> = Inr (Some mo) \<and>
       stream (mo_tunnel_id mo) = Inr () \<and> provided_tunnel mo (phc_priority pc) (phc_priority_default pc) p"
  by (auto simp: plug_http2_accept_def split: sum.splits option.splits dest!: provide_Some)

lemma quic_accept_Some:
  "quic_accept qc bound connected reply = Inr (Some p) \<Longrightarrow>
     \<exists>mo. reply = Inr (Some mo) \<and> provided_tunnel mo (qc_priority qc) (qc_priority_default qc) p"
  by (auto simp: quic_accept_def split: sum.splits option.splits dest!: provide_Some)

section \<open>Properties\<close>

text \<open>C32: A stream reaches a waiting tunnel exactly if the very next thing that happens to the slot after
  its arrival is a poll of the tunnel it is meant for. It never reaches another tunnel, but if another
  tunnel polls first, or another stream arrives, it is lost for good.\<close>

theorem pending_stream_delivered_iff:
  assumes "(i, x) \<notin> set (arrivals before) \<union> set (arrivals after)"
  shows "(i, x) \<in> set (snd (pending_run None (before @ Arrives i x # after))) \<longleftrightarrow>
    (\<exists>later. after = Polls i # later)"
proof -
  obtain slot ds where b: "pending_run None before = (slot, ds)" by fastforce
  have ds: "(i, x) \<notin> set ds"
    using pending_deliveries [OF _ _ b] assms by (simp add: slot_list_def)
  have run: "snd (pending_run None (before @ Arrives i x # after)) = ds @ snd (pending_run (Some (i, x)) after)"
    by (simp add: pending_run_append b split_beta Let_def)
  show ?thesis
  proof (cases after)
    case Nil
    then show ?thesis using ds run by simp
  next
    case (Cons e later)
    have later: "(i, x) \<notin> set (snd (pending_run slot1 later))"
      if "(i, x) \<notin> set (slot_list slot1)" for slot1
      using pending_deliveries [OF that, of later] assms Cons
      by (cases e; cases "pending_run slot1 later") auto
    show ?thesis
    proof (cases e)
      case (Arrives j y)
      then have "(j, y) \<noteq> (i, x)" using assms Cons by auto
      then show ?thesis
        using later [of "Some (j, y)"] Arrives ds run Cons by (auto simp: slot_list_def split_beta Let_def)
    next
      case (Polls j)
      then show ?thesis
        using later [of None] ds run Cons by (auto simp: slot_list_def split_beta Let_def)
    qed
  qed
qed

theorem pending_stream_delivered_iff_witness:
  "(TunnelId 1, ''s'') \<notin> set (snd (pending_run None ([] @ Arrives (TunnelId 1) ''s'' # [Polls (TunnelId 2), Polls (TunnelId 1)])))"
  by (subst pending_stream_delivered_iff) simp_all

text \<open>What a provider accepts is the tunnel that the OUT announced: its id, labels and routing rules
  are the OUT's, and its priority is the one configured at the IN, else the one announced by the OUT,
  else the protocol's default. A failing step gives no tunnel.\<close>

theorem accepted_tunnel_is_announced:
  "(http2_accept hc sys secured reply = Inr (Some p) \<longrightarrow>
      (\<exists>mo. reply = Inr (Some mo) \<and> provided_tunnel mo (h2c_priority hc) (h2c_priority_default hc) p)) \<and>
   (plug_http2_accept pc cert key probed matched stream handshake = Inr (Some p) \<longrightarrow>
      (\<exists>ip mo. probed = Inr ip \<and>
         matched \<lparr> td_address = socket_addr_new ip (plug_external_port pc), td_cert = cert, td_key = key \<rparr> = Inr (Some mo) \<and>
         stream (mo_tunnel_id mo) = Inr () \<and> provided_tunnel mo (phc_priority pc) (phc_priority_default pc) p)) \<and>
   (quic_accept qc bound connected reply = Inr (Some p) \<longrightarrow>
      (\<exists>mo. reply = Inr (Some mo) \<and> provided_tunnel mo (qc_priority qc) (qc_priority_default qc) p))"
  by (intro conjI impI http2_accept_Some plug_http2_accept_Some quic_accept_Some)

theorem accepted_tunnel_is_announced_witness:
  "\<exists>mo :: unit match_out. provided_tunnel mo None 100
     (\<lparr> tun_type = ''quic'', tun_id = TunnelId 7, tun_out_id = MatchOutId 1, tun_labels = [], tun_priority = 5 \<rparr>, [], 0)"
proof -
  let ?mo = "\<lambda>d. \<lparr> mo_id = MatchOutId 1, mo_tunnel_id = TunnelId 7, mo_tunnel_labels = [], mo_tunnel_priority = Some 5,
    mo_routing_priority = 0, mo_routing_rules = [], mo_data = d \<rparr>"
  let ?p = "(\<lparr> tun_type = ''plug-http2'', tun_id = TunnelId 7, tun_out_id = MatchOutId 1, tun_labels = [], tun_priority = 5 \<rparr>, [], 0)"
  have "plug_http2_accept \<lparr> phc_listen_address = SockV4 0 8443, phc_external_port = None, phc_connections = 3,
      phc_priority = None, phc_priority_default = 100, phc_stun_server_addresses = [], phc_traffic_mark = 0xff \<rparr> [] [] (Inr (IpV4 1)) (\<lambda>_. Inr (Some (?mo ()))) (\<lambda>_. Inr ()) (Inr ()) =
      Inr (Some ?p)"
    by (simp add: plug_http2_accept_def provide_def resolve_priority_def)
  then have "\<exists>mo. provided_tunnel (mo :: unit match_out) None 100 ?p"
    using accepted_tunnel_is_announced [of undefined undefined undefined undefined ?p
        "\<lparr> phc_listen_address = SockV4 0 8443, phc_external_port = None, phc_connections = 3,
      phc_priority = None, phc_priority_default = 100, phc_stun_server_addresses = [], phc_traffic_mark = 0xff \<rparr>" "[]" "[]" "Inr (IpV4 1)" "\<lambda>_. Inr (Some (?mo ()))" "\<lambda>_. Inr ()" "Inr ()"]
    by auto
  then show ?thesis by (simp add: provided_tunnel_def)
qed

text \<open>The id that an OUT writes first on the connection it opens is the id under which the IN puts
  the stream into the slot, and what follows is left for the tunnel; a connection that ends inside
  the id is dropped.\<close>

theorem plug_tunnel_id_roundtrip:
  assumes "plug_http2_out_accept sys secured matched handshake = Inr (tunnel_id, bytes)"
  shows "read_tunnel_id (Inr ()) (bytes @ rest) = Some (tunnel_id, rest) \<and>
    sys (WriteAll bytes) = Inr () \<and>
    (\<forall>k. k < 16 \<longrightarrow> read_tunnel_id (Inr ()) (take k bytes) = None)"
proof -
  have "bytes = tunnel_id_as_bytes tunnel_id" "sys (WriteAll bytes) = Inr ()"
    using assms by (auto simp: plug_http2_out_accept_def Let_def split: sum.splits)
  then show ?thesis by (simp add: read_tunnel_id_def read_exact_def)
qed

theorem plug_tunnel_id_roundtrip_witness:
  "read_tunnel_id (Inr ()) (tunnel_id_as_bytes (TunnelId 7) @ [1]) = Some (TunnelId 7, [1])"
proof -
  have "plug_http2_out_accept (\<lambda>_. Inr ()) (\<lambda>_ _. Inr ()) (Inr \<lparr> mi_id = MatchInId 1, mi_tunnel_id = TunnelId 7,
      mi_data = \<lparr> td_address = SockV4 1 8443, td_cert = [], td_key = [] \<rparr> \<rparr>) (Inr ()) =
      Inr (TunnelId 7, tunnel_id_as_bytes (TunnelId 7))"
    by (simp add: plug_http2_out_accept_def run_calls_ok set_keepalive_options_def)
  from plug_tunnel_id_roundtrip [OF this, of "[1]"] show ?thesis by simp
qed

end
