(* ===== verification/Utilities.thy ===== *)
theory Utilities
  imports Net_Text_Roundtrip
begin

text \<open>
  Helpers around the proxies: DNS servers and host names with ports (\<open>src/lib/in/dns_resolver.rs\<close>),
  probing the external address through STUN (\<open>src/lib/utils/stun.rs\<close>) and the rate limiter of
  \<open>src/lib/utils/semaphore_rate_limiter.rs\<close>, which nothing uses yet. The resolver, the STUN client
  and the clock are parameters.
\<close>

section \<open>Host names and ports\<close>

text \<open>\<open>u16::from_str\<close>: an optional plus sign, then decimal digits, at least one.\<close>

definition parse_u16 :: "string \<Rightarrow> u16 option" where
  "parse_u16 s =
     (let digits = (case s of [] \<Rightarrow> [] | c # cs \<Rightarrow> if c = CHR ''+'' then cs else s);
          (ds, rest) = take_digits 10 digits
      in if ds = [] \<or> rest \<noteq> [] \<or> 65535 < digits_val 10 ds then None
         else Some (of_nat (digits_val 10 ds)))"

fun split_once :: "char \<Rightarrow> string \<Rightarrow> (string \<times> string) option" where
  "split_once sep [] = None"
| "split_once sep (c # cs) =
     (if c = sep then Some ([], cs) else map_option (\<lambda>(a, b). (c # a, b)) (split_once sep cs))"

text \<open>\<open>create_dns_resolver\<close>: the name servers; \<^const>\<open>None\<close> when an address does not parse.\<close>

definition create_dns_resolver :: "string list \<Rightarrow> socket_addr list option" where
  "create_dns_resolver servers =
     those (map (\<lambda>server. map_option (\<lambda>ip. socket_addr_new ip 53) (parse_ip_addr server)) servers)"

definition convert_to_socket_addresses ::
  "(string \<Rightarrow> ip_addr list result) \<Rightarrow> string \<Rightarrow> u16 option \<Rightarrow> socket_addr list result" where
  "convert_to_socket_addresses lookup_ip source port_default =
     (case parse_socket_addr source of
        Some address \<Rightarrow> Inr [address]
      | None \<Rightarrow>
          (case (case split_once CHR '':'' source of
                   Some (hostname, port) \<Rightarrow>
                     (case parse_u16 port of None \<Rightarrow> Inl ParseIntError | Some port \<Rightarrow> Inr (hostname, port))
                 | None \<Rightarrow>
                     (case port_default of
                        None \<Rightarrow> Inl (Msg ''missing port number.'')
                      | Some port \<Rightarrow> Inr (source, port))) of
             Inl e \<Rightarrow> Inl e
           | Inr (hostname, port) \<Rightarrow>
               (case lookup_ip hostname of
                  Inl e \<Rightarrow> Inl e
                | Inr ips \<Rightarrow> Inr (map (\<lambda>ip. socket_addr_new ip port) ips))))"

section \<open>STUN\<close>

fun first_ok :: "'a result list \<Rightarrow> 'a option" where
  "first_ok [] = None"
| "first_ok (Inr x # rs) = Some x"
| "first_ok (Inl _ # rs) = first_ok rs"

text \<open>
  \<open>create_and_probe\<close>: what binding the socket and building the client answer, then the answers of
  the servers in their order, then closing the client and, to keep the socket, disconnecting it.
\<close>

definition create_and_probe ::
  "unit result \<Rightarrow> unit result \<Rightarrow> socket_addr result list \<Rightarrow> unit result \<Rightarrow> unit result \<Rightarrow> bool \<Rightarrow>
   (bool \<times> socket_addr) result" where
  "create_and_probe bound built answers closed disconnected keep_socket =
     (case (bound, built, closed) of
        (Inl e, _, _) \<Rightarrow> Inl e
      | (_, Inl e, _) \<Rightarrow> Inl e
      | (_, _, Inl e) \<Rightarrow> Inl e
      | _ \<Rightarrow>
          (case first_ok answers of
             None \<Rightarrow> Inl (Msg ''failed to get public address from stun server.'')
           | Some address \<Rightarrow>
               (if keep_socket
                then (case disconnected of Inl e \<Rightarrow> Inl e | Inr _ \<Rightarrow> Inr (True, address))
                else Inr (False, address))))"

definition probe_external_ip ::
  "unit result \<Rightarrow> unit result \<Rightarrow> socket_addr result list \<Rightarrow> unit result \<Rightarrow> ip_addr result" where
  "probe_external_ip bound built answers closed =
     map_sum id (\<lambda>(_, address). sa_ip address) (create_and_probe bound built answers closed (Inr ()) False)"

section \<open>The rate limiter\<close>

record semaphore_rate_limiter =
  rl_initial_permits :: usize
  rl_boostable_permits :: usize
  rl_initial_delay :: nat

text \<open>\<open>max(0)\<close> does nothing on an unsigned integer; the subtractions wrap in a release build.\<close>

definition acquired_permits :: "semaphore_rate_limiter \<Rightarrow> usize \<Rightarrow> usize" where
  "acquired_permits limiter available =
     max (rl_initial_permits limiter - available - rl_boostable_permits limiter) 0"

definition expected_delay :: "semaphore_rate_limiter \<Rightarrow> usize \<Rightarrow> nat" where
  "expected_delay limiter acquired =
     rl_initial_delay limiter * unat ((2 :: u32) ^ unat (ucast acquired :: u32))"

text \<open>The loop of \<open>acquire\<close> over what it observes: the available permits and the time since the
  permit was acquired. It answers after how many rounds of sleep the permit is handed out.\<close>

fun acquire_loop :: "semaphore_rate_limiter \<Rightarrow> (usize \<times> nat) list \<Rightarrow> nat option" where
  "acquire_loop limiter [] = None"
| "acquire_loop limiter ((available, elapsed) # rounds) =
     (let acquired = acquired_permits limiter available in
      if acquired = 0 then Some 0
      else if expected_delay limiter acquired < elapsed then Some 0
      else map_option Suc (acquire_loop limiter rounds))"

section \<open>Lemmas\<close>

lemma power_two_u32: "32 \<le> k \<Longrightarrow> (2 :: u32) ^ k = 0"
proof -
  assume "32 \<le> k"
  then have "push_bit k (1 :: u32) = 0" by (simp add: push_bit_eq_0_iff)
  then show ?thesis by (simp only: push_bit_eq_mult mult_1)
qed

lemma unat_power_two_u32: "k < 32 \<Longrightarrow> unat ((2 :: u32) ^ k) = 2 ^ k"
proof -
  assume "k < 32"
  then have "(2 :: nat) ^ k < 2 ^ 32" by (rule power_strict_increasing) simp
  then have "unat (of_nat (2 ^ k) :: u32) = 2 ^ k" unfolding unat_of_nat by simp
  then show ?thesis by simp
qed

lemma expected_delay_eq:
  "expected_delay limiter acquired =
     (let k = unat (ucast acquired :: u32) in if k < 32 then rl_initial_delay limiter * 2 ^ k else 0)"
  by (cases "unat (ucast acquired :: u32) < 32")
    (simp_all add: expected_delay_def unat_power_two_u32 power_two_u32 Let_def)

section \<open>Properties\<close>

text \<open>A configured address in the form in which addresses are printed is taken as it is, without a
  lookup and whatever the default port is.\<close>

theorem convert_printed_address:
  "convert_to_socket_addresses lookup_ip (show_socket_addr a) port_default = Inr [sa_printed a]"
  by (simp add: convert_to_socket_addresses_def parse_show_socket_addr)

text \<open>The limiter's delay doubles with every permit taken beyond the boostable ones, but vanishes
  from the 32nd on; and while boostable permits are left the count wraps around, which a debug build
  reports as an overflow and a release build turns into no delay.\<close>

theorem rate_limiter_delay:
  assumes "unat available \<le> unat (rl_initial_permits limiter)"
    and "taken = unat (rl_initial_permits limiter) - unat available"
    and "boost = unat (rl_boostable_permits limiter)" and "taken < 2 ^ 31" and "boost < 2 ^ 31"
  shows "expected_delay limiter (acquired_permits limiter available) =
    (if boost \<le> taken \<and> taken < boost + 32 then rl_initial_delay limiter * 2 ^ (taken - boost) else 0)"
proof -
  let ?w = "rl_initial_permits limiter - available - rl_boostable_permits limiter"
  have acquired: "acquired_permits limiter available = ?w" by (auto simp: acquired_permits_def max_def)
  have "unat (rl_initial_permits limiter - available) = taken"
    using assms(1,2) by (simp add: unat_sub word_le_nat_alt)
  then have t: "uint (rl_initial_permits limiter - available) = int taken"
    by (simp only: uint_nat)
  have "uint ?w = take_bit 64 (uint (rl_initial_permits limiter - available) - uint (rl_boostable_permits limiter))"
    by (simp add: uint_word_ariths take_bit_eq_mod)
  then have w: "uint ?w = take_bit 64 (int taken - int boost)"
    unfolding t using assms(3) by (simp only: uint_nat)
  have "uint (ucast ?w :: u32) = take_bit 32 (uint ?w)"
    by (rule unsigned_ucast_eq [where 'c = 32, simplified])
  then have "uint (ucast ?w :: u32) = (int taken - int boost) mod 2 ^ 32"
    unfolding w take_bit_take_bit by (simp add: take_bit_eq_mod)
  then have k: "int (unat (ucast ?w :: u32)) = (int taken - int boost) mod 2 ^ 32"
    by (simp only: uint_nat)
  show ?thesis
  proof (cases "boost \<le> taken")
    case True
    then have "(int taken - int boost) mod 2 ^ 32 = int (taken - boost)"
      using assms(4) by (simp add: of_nat_diff)
    then have "unat (ucast ?w :: u32) = taken - boost" using k by (simp only: of_nat_eq_iff)
    then show ?thesis using True by (auto simp: acquired expected_delay_eq Let_def)
  next
    case False
    have "(int taken - int boost) mod 2 ^ 32 = (int taken - int boost + 2 ^ 32) mod 2 ^ 32" by simp
    also have "\<dots> = int taken - int boost + 2 ^ 32"
      by (rule mod_pos_pos_trivial) (use False assms(4,5) in auto)
    finally have "(int taken - int boost) mod 2 ^ 32 = int taken - int boost + 2 ^ 32" .
    with k have "int (unat (ucast ?w :: u32)) = int taken - int boost + 2 ^ 32" by (simp only:)
    moreover have "int boost < 2 ^ 31" using assms(5) by simp
    ultimately have "int 32 \<le> int (unat (ucast ?w :: u32))" by (simp only:) simp
    then have "32 \<le> unat (ucast ?w :: u32)" by (simp only: of_nat_le_iff)
    then show ?thesis using False by (auto simp: acquired expected_delay_eq Let_def)
  qed
qed

theorem rate_limiter_delay_witness:
  "expected_delay \<lparr> rl_initial_permits = 40, rl_boostable_permits = 2, rl_initial_delay = 10 \<rparr>
     (acquired_permits \<lparr> rl_initial_permits = 40, rl_boostable_permits = 2, rl_initial_delay = 10 \<rparr> 4) = 0"
  by (subst rate_limiter_delay [where taken = 36 and boost = 2]) simp_all

end
