(* ===== verification/Match_Protocol.thy ===== *)
theory Match_Protocol
  imports Match_Server Tunnel_Providers
begin

text \<open>
  The two match servers of \<open>src/lib/match_server/redis_match_server.rs\<close> together, over one Redis:
  the calls of \<open>match_out\<close> on the INs and of \<open>match_in\<close> on the OUTs as a step relation, in which
  every command of either side is a step of its own and steps interleave freely. Redis gives no
  more than it documents: a message that is delivered was published on a channel of the
  subscription, but messages may be lost, late or repeated; a key reads as what was last set under
  it, or as nothing, since any key may expire at any time.
\<close>

section \<open>Subscriptions\<close>

text \<open>Redis patterns, of which only the star occurs here.\<close>

fun glob :: "string \<Rightarrow> string \<Rightarrow> bool" where
  "glob [] s \<longleftrightarrow> s = []"
| "glob (c # p) [] \<longleftrightarrow> c = CHR ''*'' \<and> glob p []"
| "glob (c # p) (x # s) \<longleftrightarrow>
     (if c = CHR ''*'' then glob p (x # s) \<or> glob (c # p) s else x = c \<and> glob p s)"

datatype subscription = Subscribe string | PSubscribe string

fun delivers :: "subscription \<Rightarrow> string \<Rightarrow> bool" where
  "delivers (Subscribe channel) ch \<longleftrightarrow> ch = channel"
| "delivers (PSubscribe pattern) ch \<longleftrightarrow> glob pattern ch"

definition subscription_of :: "string \<Rightarrow> subscription" where
  "subscription_of channel_name =
     (if CHR ''*'' \<in> set channel_name then PSubscribe channel_name else Subscribe channel_name)"

text \<open>
  The next item of the stream of \<open>get_connection_and_subscribe\<close> and the pushes left: pushes that
  are not messages (\<^const>\<open>None\<close>) are passed over, and a message that cannot be decrypted or parsed
  is the last item. The outer \<^const>\<open>None\<close> is the panic of decrypting.
\<close>

fun stream_next ::
  "cipher option \<Rightarrow> (u8 list \<Rightarrow> 'a result) \<Rightarrow> u8 list option list \<Rightarrow> ('a result option \<times> u8 list option list) option" where
  "stream_next c from_json [] = Some (None, [])"
| "stream_next c from_json (None # pushes) = stream_next c from_json pushes"
| "stream_next c from_json (Some payload # pushes) =
     map_option (\<lambda>value. (Some value, case value of Inl _ \<Rightarrow> [] | Inr _ \<Rightarrow> pushes)) (receive c from_json payload)"

lemma glob_star [simp]: "glob [CHR ''*''] s"
  by (induction s) simp_all

lemma glob_prefix: "CHR ''*'' \<notin> set p \<Longrightarrow> glob (p @ [CHR ''*'']) s \<longleftrightarrow> prefix p s"
proof (induction p arbitrary: s)
  case (Cons c p)
  then show ?case by (cases s) auto
qed simp

lemma stream_next_error: "stream_next c from_json pushes = Some (Some (Inl e), rest) \<Longrightarrow> rest = []"
  by (induction c from_json pushes rule: stream_next.induct) auto

section \<open>Payloads\<close>

text \<open>
  The libraries on both ends: UUIDs, AES-GCM under a key derived from the configured one, and
  \<open>serde_json\<close> for the four kinds of payload.
\<close>

record ('i, 'o) match_lib =
  ml_uuid :: uuid_lib
  ml_aes :: "string \<Rightarrow> cipher"
  ml_key :: "string option"
  in_data_to_json :: "'i \<Rightarrow> u8 list result"
  in_data_from_json :: "u8 list \<Rightarrow> 'i result"
  announcement_to_json :: "in_announcement \<Rightarrow> u8 list result"
  announcement_from_json :: "u8 list \<Rightarrow> in_announcement result"
  match_out_to_json :: "'o match_out \<Rightarrow> u8 list result"
  match_out_from_json :: "u8 list \<Rightarrow> 'o match_out result"
  out_id_to_json :: "match_out_id \<Rightarrow> u8 list result"
  out_id_from_json :: "u8 list \<Rightarrow> match_out_id result"

definition create_cipher :: "(string \<Rightarrow> cipher) \<Rightarrow> string option \<Rightarrow> cipher option" where
  "create_cipher aes key = map_option aes key"

definition ml_cipher :: "('i, 'o) match_lib \<Rightarrow> cipher option" where
  "ml_cipher lib = create_cipher (ml_aes lib) (ml_key lib)"

definition reads_back :: "('a \<Rightarrow> u8 list result) \<Rightarrow> (u8 list \<Rightarrow> 'a result) \<Rightarrow> 'a \<Rightarrow> bool" where
  "reads_back to_json from_json x \<longleftrightarrow> (\<forall>json. to_json x = Inr json \<longrightarrow> from_json json = Inr x)"

definition json_law :: "('a \<Rightarrow> u8 list result) \<Rightarrow> (u8 list \<Rightarrow> 'a result) \<Rightarrow> bool" where
  "json_law to_json from_json \<longleftrightarrow> (\<forall>x. reads_back to_json from_json x)"

text \<open>
  Labels that were read from a configuration: a custom label spelled like a built-in one is none of
  them, and it would not survive the codec, since labels are untagged.
\<close>

definition parsed_labels :: "label list \<Rightarrow> bool" where
  "parsed_labels labels \<longleftrightarrow> (\<forall>l \<in> set labels. l = label_of_string (show_label l))"

text \<open>
  The laws: each codec reads back what it has written (a match, if its labels can be read from a
  configuration), and no JSON text is empty.
\<close>

definition match_lib_law :: "('i, 'o) match_lib \<Rightarrow> bool" where
  "match_lib_law lib \<longleftrightarrow> uuid_law (ml_uuid lib) \<and> (\<forall>key. cipher_law (ml_aes lib key)) \<and>
     json_law (in_data_to_json lib) (in_data_from_json lib) \<and> (\<forall>x. in_data_from_json lib [] \<noteq> Inr x) \<and>
     json_law (announcement_to_json lib) (announcement_from_json lib) \<and>
     (\<forall>mo. parsed_labels (mo_tunnel_labels mo) \<longrightarrow> reads_back (match_out_to_json lib) (match_out_from_json lib) mo) \<and>
     json_law (out_id_to_json lib) (out_id_from_json lib)"

text \<open>What both sides send: JSON, encrypted under a random nonce; the nonce has twelve octets.\<close>

definition sends :: "cipher option \<Rightarrow> ('a \<Rightarrow> u8 list result) \<Rightarrow> 'a \<Rightarrow> u8 list \<Rightarrow> bool" where
  "sends c to_json x payload \<longleftrightarrow>
     (\<exists>json nonce. to_json x = Inr json \<and> length nonce = 12 \<and> payload = encrypt c nonce json)"

lemma receive_sends:
  assumes "sends c to_json x payload" "reads_back to_json from_json x" "pred_option cipher_law c"
  shows "receive c from_json payload = Some (Inr x)"
proof -
  obtain json nonce where "to_json x = Inr json" "length nonce = 12" "payload = encrypt c nonce json"
    using assms(1) by (auto simp: sends_def)
  then show ?thesis
    using assms(2,3) by (cases c) (simp_all add: receive_def encrypt_def decrypt_def cipher_law_def reads_back_def)
qed

section \<open>The calls\<close>

record redis_in_match_server =
  rims_id :: match_in_id

record redis_out_match_server =
  roms_id :: match_out_id
  roms_labels :: "label list"

text \<open>
  A running or finished call of \<open>match_out\<close>; its match key is the index in the state. \<open>ic_found\<close>: it has
  found the key of the OUT in Redis; \<open>ic_announcing\<close>: it has stored its data.
\<close>

record ('i, 'o) in_call =
  ic_server :: redis_in_match_server
  ic_out_id :: match_out_id
  ic_data :: 'i
  ic_found :: bool
  ic_announcing :: bool
  ic_result :: "'o match_out option result option"

text \<open>
  A call of \<open>match_in\<close> announces itself once: it sets its key and publishes the same payload while it
  holds the connection, and from then on only puts off the expiration of the key. Beside that it is
  waiting for an announcement, holding the lock for one, done with publishing
  but not returned, returned. \<open>oc_matched\<close> is the match key and the match it has published.
\<close>

datatype announce_phase = NotAnnounced | KeySet "u8 list" | Announced

datatype 'i out_phase =
    OutWaiting
  | OutLocked in_announcement
  | OutPublished "'i match_in"
  | OutReturned "'i match_in result"

record ('i, 'o) out_call =
  oc_server :: redis_out_match_server
  oc_data :: 'o
  oc_priority :: "i64 option"
  oc_routing_rules :: "out_rule_config list"
  oc_routing_priority :: i64
  oc_announce :: announce_phase
  oc_phase :: "'i out_phase"
  oc_matched :: "(string \<times> 'i match_in) option"

abbreviation oc_id :: "('i, 'o) out_call \<Rightarrow> match_out_id" where
  "oc_id oc \<equiv> roms_id (oc_server oc)"

definition in_call_start :: "redis_in_match_server \<Rightarrow> match_out_id \<Rightarrow> 'i \<Rightarrow> ('i, 'o) in_call" where
  "in_call_start server out_id in_data =
     \<lparr> ic_server = server, ic_out_id = out_id, ic_data = in_data, ic_found = False, ic_announcing = False, ic_result = None \<rparr>"

definition out_call_start ::
  "redis_out_match_server \<Rightarrow> 'o \<Rightarrow> i64 option \<Rightarrow> out_rule_config list \<Rightarrow> i64 \<Rightarrow> ('i, 'o) out_call" where
  "out_call_start server out_data out_priority out_routing_rules out_routing_priority =
     \<lparr> oc_server = server, oc_data = out_data, oc_priority = out_priority, oc_routing_rules = out_routing_rules,
       oc_routing_priority = out_routing_priority, oc_announce = NotAnnounced, oc_phase = OutWaiting, oc_matched = None \<rparr>"

definition in_announcement_of :: "string \<Rightarrow> ('i, 'o) in_call \<Rightarrow> in_announcement" where
  "in_announcement_of match_key ic = \<lparr> ia_id = rims_id (ic_server ic), ia_match_key = match_key \<rparr>"

definition match_lock_key :: "string \<Rightarrow> string" where
  "match_lock_key match_key = match_key @ '':lock''"

definition match_out_of :: "('i, 'o) out_call \<Rightarrow> tunnel_id \<Rightarrow> 'o match_out" where
  "match_out_of oc tunnel_id =
     \<lparr> mo_id = oc_id oc, mo_tunnel_id = tunnel_id, mo_tunnel_labels = roms_labels (oc_server oc),
       mo_tunnel_priority = oc_priority oc, mo_routing_priority = oc_routing_priority oc,
       mo_routing_rules = oc_routing_rules oc, mo_data = oc_data oc \<rparr>"

section \<open>Redis\<close>

type_synonym redis_store = "string \<Rightarrow> u8 list option"

definition set_nx :: "string \<Rightarrow> u8 list \<Rightarrow> redis_store \<Rightarrow> bool \<times> redis_store" where
  "set_nx key v store = (if store key = None then (True, store(key \<mapsto> v)) else (False, store))"

text \<open>\<open>GET\<close> into a \<open>Vec<u8>\<close>: a missing key reads as no octets.\<close>

definition get_bytes :: "redis_store \<Rightarrow> string \<Rightarrow> u8 list" where
  "get_bytes store key = unwrap_or (store key) []"

record ('i, 'o) match_state =
  ms_store :: redis_store
  ms_published :: "(string \<times> u8 list) set"
  ms_accepted :: "match_out_id set"
  ms_in_calls :: "string \<Rightarrow> ('i, 'o) in_call option"
  ms_out_calls :: "nat \<Rightarrow> ('i, 'o) out_call option"

definition match_start :: "('i, 'o) match_state" where
  "match_start = \<lparr> ms_store = Map.empty, ms_published = {}, ms_accepted = {},
     ms_in_calls = Map.empty, ms_out_calls = Map.empty \<rparr>"

definition fresh_tunnel_id :: "tunnel_id \<Rightarrow> ('i, 'o) match_state \<Rightarrow> bool" where
  "fresh_tunnel_id tunnel_id s \<longleftrightarrow>
     (\<forall>n oc match_key mi. ms_out_calls s n = Some oc \<longrightarrow> oc_matched oc = Some (match_key, mi) \<longrightarrow>
        mi_tunnel_id mi \<noteq> tunnel_id)"

abbreviation set_in_call :: "string \<Rightarrow> ('i, 'o) in_call \<Rightarrow> ('i, 'o) match_state \<Rightarrow> ('i, 'o) match_state" where
  "set_in_call match_key ic s \<equiv> s\<lparr>ms_in_calls := (ms_in_calls s)(match_key \<mapsto> ic)\<rparr>"

abbreviation set_out_call :: "nat \<Rightarrow> ('i, 'o) out_call \<Rightarrow> ('i, 'o) match_state \<Rightarrow> ('i, 'o) match_state" where
  "set_out_call n oc s \<equiv> s\<lparr>ms_out_calls := (ms_out_calls s)(n \<mapsto> oc)\<rparr>"

abbreviation publish :: "string \<Rightarrow> u8 list \<Rightarrow> ('i, 'o) match_state \<Rightarrow> ('i, 'o) match_state" where
  "publish ch payload s \<equiv> s\<lparr>ms_published := insert (ch, payload) (ms_published s)\<rparr>"

abbreviation set_store :: "redis_store \<Rightarrow> ('i, 'o) match_state \<Rightarrow> ('i, 'o) match_state" where
  "set_store store s \<equiv> s\<lparr>ms_store := store\<rparr>"

section \<open>Steps\<close>

text \<open>
  The IN: \<open>in_accept_scan\<close> and \<open>in_accept_message\<close> are the two ways \<open>accept_out\<close> comes by an id
  (it hands out some of these, \<open>Match_Server\<close>); a call then draws a fresh match key and subscribes
  (\<open>in_subscribe\<close>), finds the key of the OUT gone or not (\<open>in_gone\<close>, \<open>in_found\<close>), stores its data under
  the match key (\<open>in_set_data\<close>), announces any number of times and takes a message. The OUT: the
  announcing half of a call sets the key of the OUT (\<open>out_set\<close>) and publishes it (\<open>out_announce\<close>), once,
  and then ends the call when it finds the key gone as it puts off its expiration (\<open>out_expired\<close>). The
  matching half locks the match key of an announcement (\<open>out_lock\<close>), reads the data and publishes the
  match under a fresh tunnel id (\<open>out_publish\<close>), and returns. Each half holds the connection through its
  commands, so \<open>out_lock\<close> does not come between the two commands of announcing, and nothing is
  announced or refreshed while a match key is locked. Every call may fail at any point before its end
  (\<open>in_failed\<close>, \<open>out_failed\<close>). Strangers without the key may publish what does not decrypt, on any channel.
\<close>

inductive match_step ::
  "('i, 'o) match_lib \<Rightarrow> match_pair \<Rightarrow> ('i, 'o) match_state \<Rightarrow> ('i, 'o) match_state \<Rightarrow> bool" for lib pair where
  in_accept_scan:
    "ms_store s out_key \<noteq> None \<Longrightarrow> glob (get_redis_out_pattern pair) out_key \<Longrightarrow>
     get_out_id_from_redis_out_key (ml_uuid lib) out_key = Inr out_id \<Longrightarrow>
     match_step lib pair s (s\<lparr>ms_accepted := insert out_id (ms_accepted s)\<rparr>)"
| in_accept_message:
    "(ch, payload) \<in> ms_published s \<Longrightarrow> delivers (subscription_of (get_redis_out_pattern pair)) ch \<Longrightarrow>
     receive (ml_cipher lib) (out_id_from_json lib) payload = Some (Inr out_id) \<Longrightarrow>
     match_step lib pair s (s\<lparr>ms_accepted := insert out_id (ms_accepted s)\<rparr>)"
| in_subscribe:
    "out_id \<in> ms_accepted s \<Longrightarrow> match_key = uuid_show (ml_uuid lib) u \<Longrightarrow> ms_in_calls s match_key = None \<Longrightarrow>
     match_step lib pair s (set_in_call match_key (in_call_start server out_id in_data) s)"
| in_gone:
    "ms_in_calls s match_key = Some ic \<Longrightarrow> ic_result ic = None \<Longrightarrow> \<not> ic_found ic \<Longrightarrow>
     ms_store s (get_redis_out_key (ml_uuid lib) pair (ic_out_id ic)) = None \<Longrightarrow>
     match_step lib pair s (set_in_call match_key (ic\<lparr>ic_result := Some (Inr None)\<rparr>) s)"
| in_found:
    "ms_in_calls s match_key = Some ic \<Longrightarrow> ic_result ic = None \<Longrightarrow> \<not> ic_found ic \<Longrightarrow>
     ms_store s (get_redis_out_key (ml_uuid lib) pair (ic_out_id ic)) \<noteq> None \<Longrightarrow>
     match_step lib pair s (set_in_call match_key (ic\<lparr>ic_found := True\<rparr>) s)"
| in_set_data:
    "ms_in_calls s match_key = Some ic \<Longrightarrow> ic_result ic = None \<Longrightarrow> ic_found ic \<Longrightarrow> \<not> ic_announcing ic \<Longrightarrow>
     sends (ml_cipher lib) (in_data_to_json lib) (ic_data ic) payload \<Longrightarrow>
     match_step lib pair s
       (set_store (snd (set_nx match_key payload (ms_store s))) (set_in_call match_key (ic\<lparr>ic_announcing := True\<rparr>) s))"
| in_announce:
    "ms_in_calls s match_key = Some ic \<Longrightarrow> ic_result ic = None \<Longrightarrow> ic_announcing ic \<Longrightarrow>
     sends (ml_cipher lib) (announcement_to_json lib) (in_announcement_of match_key ic) payload \<Longrightarrow>
     match_step lib pair s
       (publish (get_redis_in_announcement_channel_name (ml_uuid lib) pair (ic_out_id ic)) payload s)"
| in_receive:
    "ms_in_calls s match_key = Some ic \<Longrightarrow> ic_result ic = None \<Longrightarrow> ic_found ic \<Longrightarrow>
     (ch, payload) \<in> ms_published s \<Longrightarrow> delivers (subscription_of match_key) ch \<Longrightarrow>
     receive (ml_cipher lib) (match_out_from_json lib) payload = Some message \<Longrightarrow>
     match_out_run pair (Inr ()) (Inr True) (MatchMessage message) (ic_out_id ic) active = Some (result, active) \<Longrightarrow>
     match_step lib pair s (set_in_call match_key (ic\<lparr>ic_result := Some result\<rparr>) s)"
| in_failed:
    "ms_in_calls s match_key = Some ic \<Longrightarrow> ic_result ic = None \<Longrightarrow>
     match_step lib pair s (set_in_call match_key (ic\<lparr>ic_result := Some (Inl e)\<rparr>) s)"
| out_subscribe:
    "ms_out_calls s n = None \<Longrightarrow> parsed_labels (roms_labels server) \<Longrightarrow>
     match_step lib pair s (set_out_call n (out_call_start server out_data priority rules routing_priority) s)"
| out_set:
    "ms_out_calls s n = Some oc \<Longrightarrow> oc_phase oc = OutWaiting \<Longrightarrow> oc_announce oc = NotAnnounced \<Longrightarrow>
     sends (ml_cipher lib) (out_id_to_json lib) (oc_id oc) payload \<Longrightarrow>
     out_key = get_redis_out_key (ml_uuid lib) pair (oc_id oc) \<Longrightarrow>
     match_step lib pair s
       (set_store ((ms_store s)(out_key \<mapsto> payload)) (set_out_call n (oc\<lparr>oc_announce := KeySet payload\<rparr>) s))"
| out_announce:
    "ms_out_calls s n = Some oc \<Longrightarrow> oc_phase oc = OutWaiting \<Longrightarrow> oc_announce oc = KeySet payload \<Longrightarrow>
     match_step lib pair s
       (publish (get_redis_out_key (ml_uuid lib) pair (oc_id oc)) payload
          (set_out_call n (oc\<lparr>oc_announce := Announced\<rparr>) s))"
| out_expired:
    "ms_out_calls s n = Some oc \<Longrightarrow> oc_phase oc = OutWaiting \<Longrightarrow> oc_announce oc = Announced \<Longrightarrow>
     ms_store s (get_redis_out_key (ml_uuid lib) pair (oc_id oc)) = None \<Longrightarrow>
     match_step lib pair s (set_out_call n
       (oc\<lparr>oc_phase := OutReturned (Inl (Msg (''OUT '' @ uuid_show (ml_uuid lib) (out_uuid (oc_id oc)) @ '' expired.'')))\<rparr>) s)"
| out_lock:
    "ms_out_calls s n = Some oc \<Longrightarrow> oc_phase oc = OutWaiting \<Longrightarrow> (\<And>p. oc_announce oc \<noteq> KeySet p) \<Longrightarrow>
     (ch, payload) \<in> ms_published s \<Longrightarrow>
     delivers (subscription_of (get_redis_in_announcement_channel_name (ml_uuid lib) pair (oc_id oc))) ch \<Longrightarrow>
     receive (ml_cipher lib) (announcement_from_json lib) payload = Some (Inr announcement) \<Longrightarrow>
     set_nx (match_lock_key (ia_match_key announcement)) [] (ms_store s) = (True, store) \<Longrightarrow>
     match_step lib pair s (set_store store (set_out_call n (oc\<lparr>oc_phase := OutLocked announcement\<rparr>) s))"
| out_publish:
    "ms_out_calls s n = Some oc \<Longrightarrow> oc_phase oc = OutLocked announcement \<Longrightarrow> fresh_tunnel_id tunnel_id s \<Longrightarrow>
     handle_announcement (ml_cipher lib) (in_data_from_json lib)
       \<lparr> ev_announcement = Inr announcement, ev_locked = Inr True,
         ev_in_data = Inr (get_bytes (ms_store s) (ia_match_key announcement)),
         ev_tunnel_id = tunnel_id, ev_published = Inr () \<rparr> = Some (Some (Inr mi)) \<Longrightarrow>
     sends (ml_cipher lib) (match_out_to_json lib) (match_out_of oc tunnel_id) payload \<Longrightarrow>
     match_step lib pair s
       (publish (ia_match_key announcement) payload
          (set_out_call n (oc\<lparr>oc_phase := OutPublished mi, oc_matched := Some (ia_match_key announcement, mi)\<rparr>) s))"
| out_return:
    "ms_out_calls s n = Some oc \<Longrightarrow> oc_phase oc = OutPublished mi \<Longrightarrow>
     match_step lib pair s (set_out_call n (oc\<lparr>oc_phase := OutReturned (Inr mi)\<rparr>) s)"
| out_failed:
    "ms_out_calls s n = Some oc \<Longrightarrow> (\<And>r. oc_phase oc \<noteq> OutReturned r) \<Longrightarrow>
     match_step lib pair s (set_out_call n (oc\<lparr>oc_phase := OutReturned (Inl e)\<rparr>) s)"
| expires:
    "match_step lib pair s (set_store ((ms_store s)(key := None)) s)"
| stranger:
    "(\<And>plain. decrypt (ml_cipher lib) payload \<noteq> Some (Inr plain)) \<Longrightarrow>
     match_step lib pair s (publish ch payload s)"

abbreviation match_reachable :: "('i, 'o) match_lib \<Rightarrow> match_pair \<Rightarrow> ('i, 'o) match_state \<Rightarrow> bool" where
  "match_reachable lib pair s \<equiv> (match_step lib pair)\<^sup>*\<^sup>* match_start s"

section \<open>What has happened\<close>

text \<open>Facts that stay true once they are: an OUT has called, an IN has called, an OUT has published
  a match under a key.\<close>

definition out_called :: "('i, 'o) match_state \<Rightarrow> match_out_id \<Rightarrow> bool" where
  "out_called s out_id \<longleftrightarrow> (\<exists>n oc. ms_out_calls s n = Some oc \<and> oc_id oc = out_id)"

definition in_called :: "('i, 'o) match_state \<Rightarrow> string \<Rightarrow> match_in_id \<Rightarrow> match_out_id \<Rightarrow> 'i \<Rightarrow> bool" where
  "in_called s match_key in_id out_id in_data \<longleftrightarrow>
     (\<exists>ic. ms_in_calls s match_key = Some ic \<and> rims_id (ic_server ic) = in_id \<and> ic_out_id ic = out_id \<and>
        ic_data ic = in_data)"

definition out_matched :: "('i, 'o) match_state \<Rightarrow> string \<Rightarrow> 'o match_out \<Rightarrow> 'i match_in \<Rightarrow> bool" where
  "out_matched s match_key mo mi \<longleftrightarrow>
     (\<exists>n oc. ms_out_calls s n = Some oc \<and> oc_matched oc = Some (match_key, mi) \<and>
        mo = match_out_of oc (mi_tunnel_id mi))"

lemma match_out_of_phase [simp]:
  "match_out_of (oc\<lparr>oc_phase := phase\<rparr>) = match_out_of oc" "match_out_of (oc\<lparr>oc_matched := m\<rparr>) = match_out_of oc"
  "match_out_of (oc\<lparr>oc_announce := a\<rparr>) = match_out_of oc"
  by (simp_all add: match_out_of_def fun_eq_iff)

text \<open>A call has published a match exactly when its phase says so; its labels were parsed.\<close>

definition phase_ok :: "('i, 'o) out_call \<Rightarrow> bool" where
  "phase_ok oc \<longleftrightarrow> parsed_labels (roms_labels (oc_server oc)) \<and>
     (case oc_phase oc of
        OutWaiting \<Rightarrow> oc_matched oc = None
      | OutLocked _ \<Rightarrow> oc_matched oc = None
      | OutPublished mi \<Rightarrow> \<exists>match_key. oc_matched oc = Some (match_key, mi)
      | OutReturned (Inr mi) \<Rightarrow> \<exists>match_key. oc_matched oc = Some (match_key, mi)
      | OutReturned (Inl _) \<Rightarrow> True)"

definition phases_ok :: "('i, 'o) match_state \<Rightarrow> bool" where
  "phases_ok s \<longleftrightarrow> (\<forall>n oc. ms_out_calls s n = Some oc \<longrightarrow> phase_ok oc)"

lemma phases_okD: "phases_ok s \<Longrightarrow> ms_out_calls s n = Some oc \<Longrightarrow> phase_ok oc"
  by (simp add: phases_ok_def)

text \<open>These depend on the calls only, and updates of a call that keep its parameters keep them.\<close>

lemma happened_frame [simp]:
  "out_called (s\<lparr>ms_store := x\<rparr>) = out_called s" "out_called (s\<lparr>ms_published := y\<rparr>) = out_called s"
  "out_called (s\<lparr>ms_accepted := z\<rparr>) = out_called s" "out_called (s\<lparr>ms_in_calls := ic\<rparr>) = out_called s"
  "in_called (s\<lparr>ms_store := x\<rparr>) = in_called s" "in_called (s\<lparr>ms_published := y\<rparr>) = in_called s"
  "in_called (s\<lparr>ms_accepted := z\<rparr>) = in_called s" "in_called (s\<lparr>ms_out_calls := oc\<rparr>) = in_called s"
  "out_matched (s\<lparr>ms_store := x\<rparr>) = out_matched s" "out_matched (s\<lparr>ms_published := y\<rparr>) = out_matched s"
  "out_matched (s\<lparr>ms_accepted := z\<rparr>) = out_matched s" "out_matched (s\<lparr>ms_in_calls := ic\<rparr>) = out_matched s"
  "phases_ok (s\<lparr>ms_store := x\<rparr>) = phases_ok s" "phases_ok (s\<lparr>ms_published := y\<rparr>) = phases_ok s"
  "phases_ok (s\<lparr>ms_accepted := z\<rparr>) = phases_ok s" "phases_ok (s\<lparr>ms_in_calls := ic\<rparr>) = phases_ok s"
  by (simp_all add: out_called_def in_called_def out_matched_def phases_ok_def fun_eq_iff)

lemma phases_ok_update: "phases_ok s \<Longrightarrow> phase_ok oc \<Longrightarrow> phases_ok (set_out_call n oc s)"
  by (simp add: phases_ok_def)

lemma out_called_update:
  assumes "out_called s out_id" "\<And>oc'. ms_out_calls s n = Some oc' \<Longrightarrow> oc_id oc = oc_id oc'"
  shows "out_called (set_out_call n oc s) out_id"
proof -
  obtain m oc' where "ms_out_calls s m = Some oc'" "oc_id oc' = out_id" using assms(1) by (auto simp: out_called_def)
  then show ?thesis using assms(2) by (cases "m = n") (auto simp: out_called_def)
qed

lemma out_matched_update:
  assumes "out_matched s match_key mo mi"
    "\<And>oc'. ms_out_calls s n = Some oc' \<Longrightarrow> oc_matched oc' = Some (match_key, mi) \<Longrightarrow>
       oc_matched oc = oc_matched oc' \<and> match_out_of oc = match_out_of oc'"
  shows "out_matched (set_out_call n oc s) match_key mo mi"
proof -
  obtain m oc' where "ms_out_calls s m = Some oc'" "oc_matched oc' = Some (match_key, mi)"
    "mo = match_out_of oc' (mi_tunnel_id mi)" using assms(1) by (auto simp: out_matched_def)
  then show ?thesis using assms(2) by (cases "m = n") (auto simp: out_matched_def)
qed

lemma in_called_update:
  assumes "in_called s match_key in_id out_id in_data"
    "\<And>ic'. ms_in_calls s key = Some ic' \<Longrightarrow>
       ic_server ic = ic_server ic' \<and> ic_out_id ic = ic_out_id ic' \<and> ic_data ic = ic_data ic'"
  shows "in_called (set_in_call key ic s) match_key in_id out_id in_data"
  using assms by (cases "key = match_key") (auto simp: in_called_def)

lemma phases_ok_step: "match_step lib pair s s' \<Longrightarrow> phases_ok s \<Longrightarrow> phases_ok s'"
  by (induction rule: match_step.induct)
    (auto simp: out_call_start_def phase_ok_def intro!: phases_ok_update dest: phases_okD)

lemma out_called_step: "match_step lib pair s s' \<Longrightarrow> out_called s out_id \<Longrightarrow> out_called s' out_id"
  by (induction rule: match_step.induct) (auto intro!: out_called_update)

lemma in_called_step:
  "match_step lib pair s s' \<Longrightarrow> in_called s match_key in_id out_id in_data \<Longrightarrow> in_called s' match_key in_id out_id in_data"
  by (induction rule: match_step.induct) (auto intro!: in_called_update)

lemma out_matched_step:
  "match_step lib pair s s' \<Longrightarrow> phases_ok s \<Longrightarrow> out_matched s match_key mo mi \<Longrightarrow> out_matched s' match_key mo mi"
  by (induction rule: match_step.induct) (auto simp: phase_ok_def intro!: out_matched_update dest: phases_okD)

section \<open>Channels\<close>

text \<open>
  The channels of the protocol cannot be confused: match keys have no colon, announcement channels
  and keys of OUTs do, and neither of these two looks like the other.
\<close>

lemma uuid_show_chars [simp]:
  "uuid_law lib \<Longrightarrow> CHR '':'' \<notin> set (uuid_show lib u)" "uuid_law lib \<Longrightarrow> CHR ''*'' \<notin> set (uuid_show lib u)"
  by (auto simp: uuid_law_def)

lemma uuid_show_inj [simp]: "uuid_law lib \<Longrightarrow> uuid_show lib u = uuid_show lib v \<longleftrightarrow> u = v"
  by (metis option.inject uuid_law_def)

lemma announcement_delivers [simp]:
  "uuid_law lib \<Longrightarrow> delivers (subscription_of (get_redis_in_announcement_channel_name lib pair out_id)) ch \<longleftrightarrow>
     ch = get_redis_in_announcement_channel_name lib pair out_id"
  by (cases pair) (simp_all add: subscription_of_def)

lemma match_key_delivers [simp]:
  "uuid_law lib \<Longrightarrow> delivers (subscription_of (uuid_show lib u)) ch \<longleftrightarrow> ch = uuid_show lib u"
  by (simp add: subscription_of_def)

lemma pattern_delivers [simp]:
  "delivers (subscription_of (get_redis_out_pattern pair)) ch \<longleftrightarrow> glob (get_redis_out_pattern pair) ch"
  by (cases pair) (simp_all add: subscription_of_def)

lemma announcement_channel_inj [simp]:
  "uuid_law lib \<Longrightarrow> get_redis_in_announcement_channel_name lib pair a =
     get_redis_in_announcement_channel_name lib pair b \<longleftrightarrow> a = b"
  by (cases pair; cases a; cases b) simp_all

lemma channel_colon [simp]:
  "CHR '':'' \<in> set (get_redis_in_announcement_channel_name lib pair a)"
  "CHR '':'' \<in> set (get_redis_out_key lib pair a)" "CHR '':'' \<in> set (match_lock_key match_key)"
  by (cases pair; simp add: match_lock_key_def)+

lemma out_key_not_announcement [simp]:
  "get_redis_out_key lib pair a \<noteq> get_redis_in_announcement_channel_name lib pair b"
  by (cases pair) simp_all

lemma glob_pattern: "glob (get_redis_out_pattern pair) k \<longleftrightarrow> prefix (butlast (get_redis_out_pattern pair)) k"
  using glob_prefix [of "butlast (get_redis_out_pattern pair)" k] by (cases pair) simp_all

lemma out_key_glob [simp]: "glob (get_redis_out_pattern pair) (get_redis_out_key lib pair out_id)"
  by (simp add: glob_pattern out_key_prefix)

lemma prefix_sep:
  "c \<notin> set a \<Longrightarrow> c \<notin> set p \<Longrightarrow> prefix (p @ c # q) (a @ c # b) \<longleftrightarrow> p = a \<and> prefix q b"
proof (induction p arbitrary: a)
  case Nil
  then show ?case by (cases a) auto
next
  case (Cons x p)
  then show ?case by (cases a) auto
qed

lemma pattern_parts: "\<exists>p. butlast (get_redis_out_pattern pair) = p @ CHR '':'' # ''out:'' \<and> CHR '':'' \<notin> set p"
  by (cases pair) (simp_all add: Cons_eq_append_conv)

lemma not_glob_pattern [simp]:
  "\<not> glob (get_redis_out_pattern pair) (get_redis_in_announcement_channel_name lib pair a)"
  "CHR '':'' \<notin> set match_key \<Longrightarrow> \<not> glob (get_redis_out_pattern pair) match_key"
  "CHR '':'' \<notin> set match_key \<Longrightarrow> \<not> glob (get_redis_out_pattern pair) (match_lock_key match_key)"
proof -
  show "\<not> glob (get_redis_out_pattern pair) (get_redis_in_announcement_channel_name lib pair a)"
    by (cases pair) (simp_all add: glob_pattern)
  assume no: "CHR '':'' \<notin> set match_key"
  obtain p where p: "butlast (get_redis_out_pattern pair) = p @ CHR '':'' # ''out:''" "CHR '':'' \<notin> set p"
    using pattern_parts by blast
  then show "\<not> glob (get_redis_out_pattern pair) match_key"
    using no set_mono_prefix [of "butlast (get_redis_out_pattern pair)" match_key] by (auto simp: glob_pattern)
  show "\<not> glob (get_redis_out_pattern pair) (match_lock_key match_key)"
    using p no prefix_sep [of "CHR '':''" match_key p "''out:''" "''lock''"] by (simp add: glob_pattern match_lock_key_def)
qed

section \<open>The invariant\<close>

definition keys_ok :: "('i, 'o) match_lib \<Rightarrow> ('i, 'o) match_state \<Rightarrow> bool" where
  "keys_ok lib s \<longleftrightarrow>
     (\<forall>match_key ic. ms_in_calls s match_key = Some ic \<longrightarrow>
        match_key \<in> range (uuid_show (ml_uuid lib)) \<and> ic_out_id ic \<in> ms_accepted s)"

definition accepted_ok :: "('i, 'o) match_state \<Rightarrow> bool" where
  "accepted_ok s \<longleftrightarrow> (\<forall>out_id \<in> ms_accepted s. out_called s out_id)"

text \<open>A stored value is an OUT's, or the data of the IN's call whose match key it stands under.\<close>

definition entry_ok :: "('i, 'o) match_lib \<Rightarrow> match_pair \<Rightarrow> ('i, 'o) match_state \<Rightarrow> string \<Rightarrow> u8 list \<Rightarrow> bool" where
  "entry_ok lib pair s k v \<longleftrightarrow>
     (glob (get_redis_out_pattern pair) k \<longrightarrow>
        (\<exists>out_id. out_called s out_id \<and> k = get_redis_out_key (ml_uuid lib) pair out_id)) \<and>
     (CHR '':'' \<notin> set k \<longrightarrow>
        (\<exists>in_id out_id in_data. in_called s k in_id out_id in_data \<and>
           sends (ml_cipher lib) (in_data_to_json lib) in_data v))"

definition store_ok :: "('i, 'o) match_lib \<Rightarrow> match_pair \<Rightarrow> ('i, 'o) match_state \<Rightarrow> bool" where
  "store_ok lib pair s \<longleftrightarrow> (\<forall>k v. ms_store s k = Some v \<longrightarrow> entry_ok lib pair s k v)"

text \<open>A published message is a stranger's, an OUT's id, an IN's announcement or a match.\<close>

definition message_ok :: "('i, 'o) match_lib \<Rightarrow> match_pair \<Rightarrow> ('i, 'o) match_state \<Rightarrow> string \<Rightarrow> u8 list \<Rightarrow> bool" where
  "message_ok lib pair s ch payload \<longleftrightarrow>
     (\<forall>plain. decrypt (ml_cipher lib) payload \<noteq> Some (Inr plain)) \<or>
     (\<exists>out_id. out_called s out_id \<and> ch = get_redis_out_key (ml_uuid lib) pair out_id \<and>
        sends (ml_cipher lib) (out_id_to_json lib) out_id payload) \<or>
     (\<exists>match_key in_id out_id in_data. in_called s match_key in_id out_id in_data \<and>
        ch = get_redis_in_announcement_channel_name (ml_uuid lib) pair out_id \<and>
        sends (ml_cipher lib) (announcement_to_json lib) \<lparr> ia_id = in_id, ia_match_key = match_key \<rparr> payload) \<or>
     (\<exists>mo mi. out_matched s ch mo mi \<and> CHR '':'' \<notin> set ch \<and> parsed_labels (mo_tunnel_labels mo) \<and>
        sends (ml_cipher lib) (match_out_to_json lib) mo payload)"

definition messages_ok :: "('i, 'o) match_lib \<Rightarrow> match_pair \<Rightarrow> ('i, 'o) match_state \<Rightarrow> bool" where
  "messages_ok lib pair s \<longleftrightarrow> (\<forall>(ch, payload) \<in> ms_published s. message_ok lib pair s ch payload)"

definition out_call_ok :: "('i, 'o) match_state \<Rightarrow> ('i, 'o) out_call \<Rightarrow> bool" where
  "out_call_ok s oc \<longleftrightarrow>
     (\<forall>announcement. oc_phase oc = OutLocked announcement \<longrightarrow>
        (\<exists>in_data. in_called s (ia_match_key announcement) (ia_id announcement) (oc_id oc) in_data)) \<and>
     (\<forall>match_key mi. oc_matched oc = Some (match_key, mi) \<longrightarrow>
        in_called s match_key (mi_id mi) (oc_id oc) (mi_data mi))"

text \<open>The payload that is set under the key of an OUT, and will be published, is its id.\<close>

definition announcing_ok :: "('i, 'o) match_lib \<Rightarrow> ('i, 'o) match_state \<Rightarrow> bool" where
  "announcing_ok lib s \<longleftrightarrow>
     (\<forall>n oc payload. ms_out_calls s n = Some oc \<longrightarrow> oc_announce oc = KeySet payload \<longrightarrow>
        sends (ml_cipher lib) (out_id_to_json lib) (oc_id oc) payload)"

definition out_calls_ok :: "('i, 'o) match_state \<Rightarrow> bool" where
  "out_calls_ok s \<longleftrightarrow> (\<forall>n oc. ms_out_calls s n = Some oc \<longrightarrow> out_call_ok s oc)"

definition results_ok :: "('i, 'o) match_state \<Rightarrow> bool" where
  "results_ok s \<longleftrightarrow>
     (\<forall>match_key ic mo. ms_in_calls s match_key = Some ic \<longrightarrow> ic_result ic = Some (Inr (Some mo)) \<longrightarrow>
        (\<exists>mi. out_matched s match_key mo mi))"

definition tunnel_ids_ok :: "('i, 'o) match_state \<Rightarrow> bool" where
  "tunnel_ids_ok s \<longleftrightarrow>
     (\<forall>n n' oc oc' k k' mi mi'. ms_out_calls s n = Some oc \<longrightarrow> oc_matched oc = Some (k, mi) \<longrightarrow>
        ms_out_calls s n' = Some oc' \<longrightarrow> oc_matched oc' = Some (k', mi') \<longrightarrow>
        mi_tunnel_id mi = mi_tunnel_id mi' \<longrightarrow> n = n')"

definition match_inv :: "('i, 'o) match_lib \<Rightarrow> match_pair \<Rightarrow> ('i, 'o) match_state \<Rightarrow> bool" where
  "match_inv lib pair s \<longleftrightarrow> phases_ok s \<and> keys_ok lib s \<and> accepted_ok s \<and> store_ok lib pair s \<and>
     messages_ok lib pair s \<and> announcing_ok lib s \<and> out_calls_ok s \<and> results_ok s \<and> tunnel_ids_ok s"

text \<open>What a receiver may conclude from a message.\<close>

lemma ml_cipher_law: "match_lib_law lib \<Longrightarrow> pred_option cipher_law (ml_cipher lib)"
  by (simp add: match_lib_law_def ml_cipher_def create_cipher_def option.pred_set option.set_map)

lemma receive_not_plain:
  "receive c from_json payload = Some (Inr x) \<Longrightarrow> \<exists>plain. decrypt c payload = Some (Inr plain)"
  by (cases "decrypt c payload") (auto simp: receive_def split: sum.split_asm)

lemma handle_announcement_match:
  assumes "handle_announcement c from_json \<lparr> ev_announcement = Inr a, ev_locked = Inr True, ev_in_data = Inr payload,
      ev_tunnel_id = tunnel_id, ev_published = Inr () \<rparr> = Some (Some (Inr mi))"
  shows "\<exists>in_data. receive c from_json payload = Some (Inr in_data) \<and>
    mi = \<lparr> mi_id = ia_id a, mi_tunnel_id = tunnel_id, mi_data = in_data \<rparr>"
  using assms by (cases "receive c from_json payload") (auto simp: handle_announcement_def split: sum.split_asm)

lemma message_cases:
  assumes law: "match_lib_law lib" and "message_ok lib pair s ch payload"
  shows "receive (ml_cipher lib) (announcement_from_json lib) payload = Some (Inr a) \<Longrightarrow>
      ch = get_redis_in_announcement_channel_name (ml_uuid lib) pair out_id \<Longrightarrow>
      \<exists>in_data. in_called s (ia_match_key a) (ia_id a) out_id in_data"
    and "receive (ml_cipher lib) (match_out_from_json lib) payload = Some (Inr mo) \<Longrightarrow>
      CHR '':'' \<notin> set ch \<Longrightarrow> \<exists>mi. out_matched s ch mo mi"
    and "receive (ml_cipher lib) (out_id_from_json lib) payload = Some (Inr out_id) \<Longrightarrow>
      glob (get_redis_out_pattern pair) ch \<Longrightarrow> out_called s out_id"
proof -
  note c = ml_cipher_law [OF law]
  have u: "uuid_law (ml_uuid lib)"
    and j: "reads_back (announcement_to_json lib) (announcement_from_json lib) x"
      "parsed_labels (mo_tunnel_labels mo') \<Longrightarrow> reads_back (match_out_to_json lib) (match_out_from_json lib) mo'"
      "reads_back (out_id_to_json lib) (out_id_from_json lib) y" for x mo' y
    using law by (simp_all add: match_lib_law_def json_law_def)
  note r = receive_sends [OF _ j(1) c] receive_sends [OF _ j(2) c] receive_sends [OF _ j(3) c]
  { assume rcv: "receive (ml_cipher lib) (announcement_from_json lib) payload = Some (Inr a)"
      and ch: "ch = get_redis_in_announcement_channel_name (ml_uuid lib) pair out_id"
    show "\<exists>in_data. in_called s (ia_match_key a) (ia_id a) out_id in_data"
      using assms(2) u ch rcv receive_not_plain [OF rcv]
      by (auto simp: message_ok_def out_key_not_announcement [symmetric] simp del: ex_simps dest!: r(1)) blast }
  { assume rcv: "receive (ml_cipher lib) (match_out_from_json lib) payload = Some (Inr mo)" and ch: "CHR '':'' \<notin> set ch"
    show "\<exists>mi. out_matched s ch mo mi"
      using assms(2) ch rcv receive_not_plain [OF rcv] by (auto simp: message_ok_def dest!: r(2)) }
  { assume rcv: "receive (ml_cipher lib) (out_id_from_json lib) payload = Some (Inr out_id)"
      and ch: "glob (get_redis_out_pattern pair) ch"
    show "out_called s out_id"
      using assms(2) ch rcv receive_not_plain [OF rcv] by (auto simp: message_ok_def dest!: r(3)) }
qed

text \<open>The parts of the invariant, one by one: old facts stay true, and each step adds a good one.\<close>

lemma entry_ok_step:
  assumes "match_step lib pair s s'" "entry_ok lib pair s k v"
  shows "entry_ok lib pair s' k v"
  using assms(2) unfolding entry_ok_def
  by (elim conj_forward imp_forward ex_forward)
    (assumption | erule out_called_step [OF assms(1)] in_called_step [OF assms(1)])+

lemma message_ok_step:
  assumes "match_step lib pair s s'" "phases_ok s" "message_ok lib pair s ch payload"
  shows "message_ok lib pair s' ch payload"
  using assms(3) unfolding message_ok_def
  by (elim disj_forward conj_forward ex_forward)
    (assumption | erule out_called_step [OF assms(1)] in_called_step [OF assms(1)] out_matched_step [OF assms(1,2)])+

lemma out_call_ok_step:
  assumes "match_step lib pair s s'" "out_call_ok s oc"
  shows "out_call_ok s' oc"
  using assms(2) unfolding out_call_ok_def
  by (elim conj_forward all_forward imp_forward ex_forward)
    (assumption | erule in_called_step [OF assms(1)])+

lemma keys_ok_step: "match_step lib pair s s' \<Longrightarrow> keys_ok lib s \<Longrightarrow> keys_ok lib s'"
  by (induction rule: match_step.induct) (auto simp: keys_ok_def in_call_start_def)

lemma keys_okD:
  "keys_ok lib s \<Longrightarrow> uuid_law (ml_uuid lib) \<Longrightarrow> ms_in_calls s match_key = Some ic \<Longrightarrow> CHR '':'' \<notin> set match_key"
  using uuid_show_chars(1) by (fastforce simp: keys_ok_def)

lemma out_calls_okD: "out_calls_ok s \<Longrightarrow> ms_out_calls s n = Some oc \<Longrightarrow> out_call_ok s oc"
  by (simp add: out_calls_ok_def)

lemma out_call_ok_locked:
  "out_call_ok s oc \<Longrightarrow> oc_phase oc = OutLocked a \<Longrightarrow> \<exists>in_data. in_called s (ia_match_key a) (ia_id a) (oc_id oc) in_data"
  by (simp add: out_call_ok_def)

lemma in_called_key: "keys_ok lib s \<Longrightarrow> uuid_law (ml_uuid lib) \<Longrightarrow> in_called s match_key a b c \<Longrightarrow> CHR '':'' \<notin> set match_key"
  by (auto simp: in_called_def dest: keys_okD)

lemma announcing_ok_step: "match_step lib pair s s' \<Longrightarrow> announcing_ok lib s \<Longrightarrow> announcing_ok lib s'"
  by (induction rule: match_step.induct) (auto simp: announcing_ok_def out_call_start_def)

lemma accepted_ok_step:
  assumes "match_step lib pair s s'" "match_lib_law lib" "accepted_ok s" "store_ok lib pair s" "messages_ok lib pair s"
  shows "accepted_ok s'"
proof -
  have new: "out_called s out_id" if "out_id \<in> ms_accepted s'" "out_id \<notin> ms_accepted s" for out_id
    using assms(1)
  proof cases
    case (in_accept_scan out_key out_id')
    obtain oid where "out_called s oid" "out_key = get_redis_out_key (ml_uuid lib) pair oid"
      using in_accept_scan assms(4) by (auto simp: store_ok_def entry_ok_def)
    then show ?thesis
      using that in_accept_scan(1,4) assms(2) by (simp add: out_key_parse match_lib_law_def)
  next
    case (in_accept_message ch payload out_id')
    then have "message_ok lib pair s ch payload" using assms(5) by (auto simp: messages_ok_def)
    then have "out_called s out_id'"
      using message_cases(3) [OF assms(2)] in_accept_message by simp
    then show ?thesis using that in_accept_message(1) by simp
  qed (use that in simp_all)
  then show ?thesis
    using assms(3) out_called_step [OF assms(1)] by (auto simp: accepted_ok_def)
qed

lemma store_ok_step:
  assumes step: "match_step lib pair s s'" and law: "match_lib_law lib" and keys: "keys_ok lib s"
    and inv: "store_ok lib pair s" "messages_ok lib pair s"
  shows "store_ok lib pair s'"
proof -
  have u: "uuid_law (ml_uuid lib)" using law by (simp add: match_lib_law_def)
  have new: "entry_ok lib pair s' k v" if k: "ms_store s' k = Some v" "ms_store s k \<noteq> Some v" for k v
    using step
  proof cases
    case (in_set_data match_key ic payload)
    then have [simp]: "k = match_key" "v = payload" using k by (auto simp: set_nx_def split: if_splits)
    have "in_called s' match_key (rims_id (ic_server ic)) (ic_out_id ic) (ic_data ic)"
      using in_set_data by (simp add: in_called_def)
    then show ?thesis
      using in_set_data keys_okD [OF keys u in_set_data(2)] by (auto simp: entry_ok_def)
  next
    case (out_set n oc payload out_key)
    then have [simp]: "k = get_redis_out_key (ml_uuid lib) pair (oc_id oc)" using k by (auto split: if_splits)
    have "out_called s (oc_id oc)" using out_set by (auto simp: out_called_def)
    then show ?thesis using out_called_step [OF step] by (auto simp: entry_ok_def)
  next
    case (out_lock n oc ch payload announcement store)
    then have k': "k = match_lock_key (ia_match_key announcement)" using k by (auto simp: set_nx_def split: if_splits)
    have "message_ok lib pair s ch payload" using inv(2) out_lock by (auto simp: messages_ok_def)
    then obtain in_data where "in_called s (ia_match_key announcement) (ia_id announcement) (oc_id oc) in_data"
      using message_cases(1) [OF law] out_lock u by fastforce
    then have "CHR '':'' \<notin> set (ia_match_key announcement)" by (rule in_called_key [OF keys u])
    then show ?thesis by (simp add: k' entry_ok_def)
  qed (use k in \<open>auto split: if_splits\<close>)
  then show ?thesis
    using inv(1) entry_ok_step [OF step] unfolding store_ok_def by blast
qed

lemma messages_ok_step:
  assumes step: "match_step lib pair s s'" and law: "match_lib_law lib" and phases: "phases_ok s" and keys: "keys_ok lib s"
    and inv: "messages_ok lib pair s" "out_calls_ok s" "announcing_ok lib s"
  shows "messages_ok lib pair s'"
proof -
  have u: "uuid_law (ml_uuid lib)" using law by (simp add: match_lib_law_def)
  have new: "message_ok lib pair s' ch payload"
    if new: "(ch, payload) \<in> ms_published s'" "(ch, payload) \<notin> ms_published s" for ch payload
    using step
  proof cases
    case (in_announce match_key ic payload')
    have "in_called s' match_key (rims_id (ic_server ic)) (ic_out_id ic) (ic_data ic)"
      using in_announce by (simp add: in_called_def)
    then show ?thesis using new in_announce by (auto simp: message_ok_def in_announcement_of_def)
  next
    case (out_announce n oc payload')
    have "out_called s' (oc_id oc)" using out_announce by (auto simp: out_called_def)
    moreover have "sends (ml_cipher lib) (out_id_to_json lib) (oc_id oc) payload'"
      using inv(3) out_announce unfolding announcing_ok_def by blast
    ultimately show ?thesis using new out_announce by (auto simp: message_ok_def)
  next
    case (out_publish n oc announcement tunnel_id mi payload')
    obtain in_data where "in_called s (ia_match_key announcement) (ia_id announcement) (oc_id oc) in_data"
      using out_call_ok_locked [OF out_calls_okD [OF inv(2) out_publish(2)] out_publish(3)] by blast
    then have "CHR '':'' \<notin> set (ia_match_key announcement)" by (rule in_called_key [OF keys u])
    moreover have "mi_tunnel_id mi = tunnel_id"
      using handle_announcement_match [OF out_publish(5)] by auto
    then have "out_matched s' (ia_match_key announcement) (match_out_of oc tunnel_id) mi"
      using out_publish by (auto simp: out_matched_def)
    moreover have "parsed_labels (mo_tunnel_labels (match_out_of oc tunnel_id))"
      using phases_okD [OF phases out_publish(2)] by (simp add: phase_ok_def match_out_of_def)
    ultimately show ?thesis using new out_publish by (auto simp: message_ok_def)
  next
    case (stranger payload' ch')
    then show ?thesis using new by (auto simp: message_ok_def)
  qed (use new in simp_all)
  then show ?thesis
    using inv(1) message_ok_step [OF step phases] by (fastforce simp: messages_ok_def)
qed

lemma in_called_unique:
  "in_called s match_key a b c \<Longrightarrow> in_called s match_key a' b' c' \<Longrightarrow> a' = a \<and> b' = b \<and> c' = c"
  by (auto simp: in_called_def)

text \<open>Data that could be read under a match key is the data of the call: an expired key reads as an error.\<close>

lemma read_in_data:
  assumes law: "match_lib_law lib" and "store_ok lib pair s"
    and called: "in_called s match_key in_id out_id in_data" and "CHR '':'' \<notin> set match_key"
    and read: "receive (ml_cipher lib) (in_data_from_json lib) (get_bytes (ms_store s) match_key) = Some (Inr d)"
  shows "d = in_data"
proof (cases "ms_store s match_key")
  case None
  then have "receive (ml_cipher lib) (in_data_from_json lib) [] = Some (Inr d)"
    using read by (simp add: get_bytes_def)
  moreover have "in_data_from_json lib [] \<noteq> Inr d" using law by (simp add: match_lib_law_def)
  ultimately show ?thesis by (cases "ml_cipher lib") (auto simp: receive_def decrypt_def)
next
  case (Some v)
  then obtain a b c where "in_called s match_key a b c" and sent: "sends (ml_cipher lib) (in_data_to_json lib) c v"
    using assms(2,4) unfolding store_ok_def entry_ok_def by blast
  then have "c = in_data" using in_called_unique [OF called] by blast
  moreover have "receive (ml_cipher lib) (in_data_from_json lib) v = Some (Inr c)"
    using receive_sends [OF sent _ ml_cipher_law [OF law]] law by (simp add: match_lib_law_def json_law_def)
  ultimately show ?thesis using read Some by (simp add: get_bytes_def)
qed

lemma out_calls_ok_step:
  assumes step: "match_step lib pair s s'" and law: "match_lib_law lib" and phases: "phases_ok s" and keys: "keys_ok lib s"
    and inv: "store_ok lib pair s" "messages_ok lib pair s" "out_calls_ok s"
  shows "out_calls_ok s'"
proof -
  have u: "uuid_law (ml_uuid lib)" using law by (simp add: match_lib_law_def)
  have new: "out_call_ok s' oc'" if new: "ms_out_calls s' m = Some oc'" "ms_out_calls s m \<noteq> Some oc'" for m oc'
    using step
  proof cases
    case (out_subscribe n server out_data priority rules routing_priority)
    then show ?thesis using new by (auto simp: out_call_ok_def out_call_start_def split: if_splits)
  next
    case (out_lock n oc ch payload announcement store)
    have "message_ok lib pair s ch payload" using inv(2) out_lock by (auto simp: messages_ok_def)
    then obtain in_data where called: "in_called s (ia_match_key announcement) (ia_id announcement) (oc_id oc) in_data"
      using message_cases(1) [OF law] out_lock u by fastforce
    have "oc' = oc\<lparr>oc_phase := OutLocked announcement\<rparr>" using new out_lock by (auto split: if_splits)
    then show ?thesis
      using in_called_step [OF step called] phases_okD [OF phases out_lock(2)] out_lock(3)
      by (auto simp: out_call_ok_def phase_ok_def)
  next
    case (out_publish n oc announcement tunnel_id mi payload)
    obtain in_data where called: "in_called s (ia_match_key announcement) (ia_id announcement) (oc_id oc) in_data"
      using out_call_ok_locked [OF out_calls_okD [OF inv(3) out_publish(2)] out_publish(3)] by blast
    have key: "CHR '':'' \<notin> set (ia_match_key announcement)" by (rule in_called_key [OF keys u called])
    obtain d where d: "receive (ml_cipher lib) (in_data_from_json lib) (get_bytes (ms_store s) (ia_match_key announcement)) =
        Some (Inr d)" "mi = \<lparr> mi_id = ia_id announcement, mi_tunnel_id = tunnel_id, mi_data = d \<rparr>"
      using handle_announcement_match [OF out_publish(5)] by auto
    have oc': "oc' = oc\<lparr>oc_phase := OutPublished mi, oc_matched := Some (ia_match_key announcement, mi)\<rparr>"
      using new out_publish by (auto split: if_splits)
    have "d = in_data" by (rule read_in_data [OF law inv(1) called key d(1)])
    then show ?thesis using in_called_step [OF step called] by (simp add: oc' d(2) out_call_ok_def)
  next
    case (out_set n oc payload out_key)
    then show ?thesis
      using new out_call_ok_step [OF step out_calls_okD [OF inv(3) out_set(2)]]
      by (auto simp: out_call_ok_def split: if_splits)
  next
    case (out_announce n oc payload)
    then show ?thesis
      using new out_call_ok_step [OF step out_calls_okD [OF inv(3) out_announce(2)]]
      by (auto simp: out_call_ok_def split: if_splits)
  next
    case (out_expired n oc)
    then show ?thesis
      using new out_call_ok_step [OF step out_calls_okD [OF inv(3) out_expired(2)]]
      by (auto simp: out_call_ok_def split: if_splits)
  next
    case (out_return n oc mi)
    then show ?thesis
      using new out_call_ok_step [OF step out_calls_okD [OF inv(3) out_return(2)]]
      by (auto simp: out_call_ok_def split: if_splits)
  next
    case (out_failed n oc e)
    then show ?thesis
      using new out_call_ok_step [OF step out_calls_okD [OF inv(3) out_failed(2)]]
      by (auto simp: out_call_ok_def split: if_splits)
  qed (use new in simp_all)
  then show ?thesis
    using inv(3) out_call_ok_step [OF step] unfolding out_calls_ok_def by blast
qed

lemma match_out_run_message:
  "match_out_run pair (Inr ()) (Inr True) (MatchMessage (Inr mo)) out_id m = Some (Inr (Some mo'), m') \<longleftrightarrow> mo' = mo \<and> m' = m"
  "match_out_run pair (Inr ()) (Inr True) (MatchMessage (Inl e)) out_id m = Some (Inl e', m') \<longleftrightarrow> e' = e \<and> m' = m"
  by (auto simp: match_out_run_def)

lemma results_ok_step:
  assumes step: "match_step lib pair s s'" and law: "match_lib_law lib" and phases: "phases_ok s" and keys: "keys_ok lib s"
    and inv: "messages_ok lib pair s" "results_ok s"
  shows "results_ok s'"
proof -
  have u: "uuid_law (ml_uuid lib)" using law by (simp add: match_lib_law_def)
  have new: "\<exists>mi. out_matched s k mo mi"
    if new: "ms_in_calls s' k = Some ic'" "ic_result ic' = Some (Inr (Some mo))" for k ic' mo
    using step
  proof cases
    case (in_receive match_key ic ch payload message active result)
    show ?thesis
    proof (cases "k = match_key")
      case True
      then have "result = Inr (Some mo)" using new in_receive(1) by auto
      then have "message = Inr mo" using in_receive(8) by (cases message) (auto simp: match_out_run_def)
      moreover obtain v where "match_key = uuid_show (ml_uuid lib) v" using keys in_receive(2) by (auto simp: keys_ok_def)
      then have "ch = match_key" using in_receive(6) u by simp
      moreover have "message_ok lib pair s ch payload" using inv(1) in_receive by (auto simp: messages_ok_def)
      ultimately show ?thesis
        using message_cases(2) [OF law] in_receive(7) keys_okD [OF keys u in_receive(2)] True by blast
    next
      case False
      then show ?thesis using inv(2) new in_receive(1) by (auto simp: results_ok_def)
    qed
  qed (use inv(2) new in \<open>auto simp: results_ok_def in_call_start_def split: if_splits\<close>)
  then show ?thesis using out_matched_step [OF step phases] unfolding results_ok_def by blast
qed

lemma tunnel_ids_ok_step:
  assumes step: "match_step lib pair s s'" and phases: "phases_ok s" and inv: "tunnel_ids_ok s"
  shows "tunnel_ids_ok s'"
  using step
proof cases
  case (out_publish n oc announcement tunnel_id mi payload)
  then have "mi_tunnel_id mi = tunnel_id" using handle_announcement_match [OF out_publish(5)] by auto
  then show ?thesis
    using inv out_publish(1,2,4) unfolding tunnel_ids_ok_def fresh_tunnel_id_def
    by simp (metis option.inject prod.inject)
qed (use inv in \<open>auto simp: tunnel_ids_ok_def out_call_start_def split: if_splits\<close>)

lemma match_inv_step:
  assumes step: "match_step lib pair s s'" and law: "match_lib_law lib" and inv: "match_inv lib pair s"
  shows "match_inv lib pair s'"
proof -
  have parts: "phases_ok s" "keys_ok lib s" "accepted_ok s" "store_ok lib pair s" "messages_ok lib pair s"
    "announcing_ok lib s" "out_calls_ok s" "results_ok s" "tunnel_ids_ok s"
    using inv by (auto simp only: match_inv_def)
  show ?thesis
    unfolding match_inv_def
    by (intro conjI phases_ok_step [OF step] keys_ok_step [OF step] accepted_ok_step [OF step] store_ok_step [OF step]
        messages_ok_step [OF step] announcing_ok_step [OF step] out_calls_ok_step [OF step] results_ok_step [OF step] tunnel_ids_ok_step [OF step]
        parts law)
qed

lemma match_reachable_inv:
  assumes "match_reachable lib pair s" and law: "match_lib_law lib"
  shows "match_inv lib pair s"
  using assms(1)
proof (induction rule: rtranclp_induct)
  case base
  show ?case
    by (simp add: match_inv_def match_start_def phases_ok_def keys_ok_def accepted_ok_def store_ok_def messages_ok_def
        announcing_ok_def out_calls_ok_def results_ok_def tunnel_ids_ok_def)
next
  case (step s s')
  then show ?case using match_inv_step [OF _ law] by blast
qed

section \<open>Completing a match\<close>

text \<open>What is left of announcing: nothing, publishing, or both commands.\<close>

lemma out_announces:
  assumes oc: "ms_out_calls s n = Some oc" "oc_phase oc = OutWaiting"
    and out_key: "out_key = get_redis_out_key (ml_uuid lib) pair (oc_id oc)" "oc_announce oc = NotAnnounced \<or> ms_store s out_key \<noteq> None"
    and json: "out_id_to_json lib (oc_id oc) = Inr json"
  shows "\<exists>s'. (match_step lib pair)\<^sup>*\<^sup>* s s' \<and> ms_out_calls s' = (ms_out_calls s)(n \<mapsto> oc\<lparr>oc_announce := Announced\<rparr>) \<and>
    ms_in_calls s' = ms_in_calls s \<and> ms_store s' out_key \<noteq> None \<and> (\<forall>k. k \<noteq> out_key \<longrightarrow> ms_store s' k = ms_store s k)"
proof (cases "oc_announce oc")
  case NotAnnounced
  define payload where "payload = encrypt (ml_cipher lib) (replicate 12 0) json"
  let ?oc = "oc\<lparr>oc_announce := KeySet payload\<rparr>"
  let ?s1 = "set_store ((ms_store s)(out_key \<mapsto> payload)) (set_out_call n ?oc s)"
  let ?s2 = "publish out_key payload (set_out_call n (?oc\<lparr>oc_announce := Announced\<rparr>) ?s1)"
  have "sends (ml_cipher lib) (out_id_to_json lib) (oc_id oc) payload"
    using json by (auto simp: sends_def payload_def intro!: exI [of _ "replicate 12 0"])
  then have "match_step lib pair s ?s1" by (rule match_step.out_set [OF oc NotAnnounced _ out_key(1)])
  moreover have "match_step lib pair ?s1 ?s2"
    using match_step.out_announce [of ?s1 n ?oc payload lib pair] oc(2) out_key(1) by simp
  ultimately have "(match_step lib pair)\<^sup>*\<^sup>* s ?s2" by (meson r_into_rtranclp rtranclp.rtrancl_into_rtrancl)
  then show ?thesis by (intro exI [of _ ?s2]) simp
next
  case (KeySet payload)
  have "match_step lib pair s (publish out_key payload (set_out_call n (oc\<lparr>oc_announce := Announced\<rparr>) s))"
    using match_step.out_announce [OF oc KeySet] out_key(1) by simp
  then show ?thesis using out_key(2) KeySet
    by (intro exI [of _ "publish out_key payload (set_out_call n (oc\<lparr>oc_announce := Announced\<rparr>) s)"]) auto
next
  case Announced
  then have "oc\<lparr>oc_announce := Announced\<rparr> = oc" by (cases oc) simp
  then have "(ms_out_calls s)(n \<mapsto> oc\<lparr>oc_announce := Announced\<rparr>) = ms_out_calls s" using oc(1) by (simp add: fun_upd_idem)
  then show ?thesis using out_key(2) Announced by (intro exI [of _ s]) auto
qed

text \<open>
  The run without failures: the OUT announces itself, if it has not, and is accepted, the IN subscribes,
  finds the key of the OUT, stores its data and announces, the OUT locks the key and publishes, both
  return.
\<close>

lemma match_completes:
  fixes lib :: "('i, 'o) match_lib" and s :: "('i, 'o) match_state"
  assumes law: "match_lib_law lib" and reach: "match_reachable lib pair s"
    and oc: "ms_out_calls s n = Some oc" "oc_phase oc = OutWaiting"
      "oc_announce oc = NotAnnounced \<or> ms_store s (get_redis_out_key (ml_uuid lib) pair (oc_id oc)) \<noteq> None"
    and fresh: "ms_in_calls s (uuid_show (ml_uuid lib) u) = None" "ms_store s (uuid_show (ml_uuid lib) u) = None"
      "ms_store s (match_lock_key (uuid_show (ml_uuid lib) u)) = None" "fresh_tunnel_id tunnel_id s"
    and json: "out_id_to_json lib (oc_id oc) = Inr j1" "in_data_to_json lib in_data = Inr j2"
      "announcement_to_json lib \<lparr> ia_id = rims_id server, ia_match_key = uuid_show (ml_uuid lib) u \<rparr> = Inr j3"
      "match_out_to_json lib (match_out_of oc tunnel_id) = Inr j4"
  shows "\<exists>s' ic. (match_step lib pair)\<^sup>*\<^sup>* s s' \<and>
    ms_in_calls s' (uuid_show (ml_uuid lib) u) = Some ic \<and> ic_result ic = Some (Inr (Some (match_out_of oc tunnel_id))) \<and>
    ic_server ic = server \<and> ic_out_id ic = oc_id oc \<and> ic_data ic = in_data \<and>
    ms_in_calls s' = (ms_in_calls s)(uuid_show (ml_uuid lib) u \<mapsto> ic) \<and> oc_id oc \<in> ms_accepted s' \<and>
    (\<exists>oc'. ms_out_calls s' = (ms_out_calls s)(n \<mapsto> oc') \<and> oc_server oc' = oc_server oc \<and> oc_data oc' = oc_data oc \<and>
       oc_phase oc' = OutReturned (Inr \<lparr> mi_id = rims_id server, mi_tunnel_id = tunnel_id, mi_data = in_data \<rparr>))"
proof -
  let ?k = "uuid_show (ml_uuid lib) u" and ?c = "ml_cipher lib" and ?nonce = "replicate 12 0"
  let ?step = "(match_step lib pair)\<^sup>*\<^sup>*"
  have u: "uuid_law (ml_uuid lib)" using law by (simp add: match_lib_law_def)
  note c = ml_cipher_law [OF law]
  define p2 where "p2 = encrypt ?c ?nonce j2"
  define p3 where "p3 = encrypt ?c ?nonce j3"
  define p4 where "p4 = encrypt ?c ?nonce j4"
  let ?ann = "\<lparr> ia_id = rims_id server, ia_match_key = ?k \<rparr>"
  let ?mi = "\<lparr> mi_id = rims_id server, mi_tunnel_id = tunnel_id, mi_data = in_data \<rparr>"
  have sent: "sends ?c (in_data_to_json lib) in_data p2"
    "sends ?c (announcement_to_json lib) ?ann p3" "sends ?c (match_out_to_json lib) (match_out_of oc tunnel_id) p4"
    using json by (auto simp: sends_def p2_def p3_def p4_def intro!: exI [of _ ?nonce])
  have "phases_ok s" using match_reachable_inv [OF reach law] by (simp add: match_inv_def)
  then have labels: "parsed_labels (mo_tunnel_labels (match_out_of oc tunnel_id))"
    using oc(1) by (auto simp: phase_ok_def match_out_of_def dest: phases_okD)
  have rcv: "receive ?c (in_data_from_json lib) p2 = Some (Inr in_data)"
    "receive ?c (announcement_from_json lib) p3 = Some (Inr ?ann)"
    "receive ?c (match_out_from_json lib) p4 = Some (Inr (match_out_of oc tunnel_id))"
    using sent law c labels by (auto simp: match_lib_law_def json_law_def intro: receive_sends)
  let ?out_key = "get_redis_out_key (ml_uuid lib) pair (oc_id oc)"
  let ?ch = "get_redis_in_announcement_channel_name (ml_uuid lib) pair (oc_id oc)"
  have ne: "?k \<noteq> ?out_key" "match_lock_key ?k \<noteq> ?out_key" "match_lock_key ?k \<noteq> ?k"
    using channel_colon(2) [of "ml_uuid lib" pair "oc_id oc"] channel_colon(3) [of ?k] uuid_show_chars(1) [OF u, of u]
      not_glob_pattern(3) [of ?k pair] out_key_glob [of pair "ml_uuid lib" "oc_id oc"] by metis+
  let ?oc1 = "oc\<lparr>oc_announce := Announced\<rparr>"
  obtain s1 where run1: "?step s s1" and s1: "ms_out_calls s1 = (ms_out_calls s)(n \<mapsto> ?oc1)" "ms_in_calls s1 = ms_in_calls s"
      "ms_store s1 ?out_key \<noteq> None" "\<And>k. k \<noteq> ?out_key \<Longrightarrow> ms_store s1 k = ms_store s k"
    using out_announces [OF oc(1,2) refl oc(3) json(1)] by blast
  define s2 where "s2 = s1\<lparr>ms_accepted := insert (oc_id oc) (ms_accepted s1)\<rparr>"
  let ?ic = "in_call_start server (oc_id oc) in_data :: ('i, 'o) in_call"
  define s3 where "s3 = set_in_call ?k ?ic s2"
  let ?ic3 = "?ic\<lparr>ic_found := True\<rparr>"
  define s3' where "s3' = set_in_call ?k ?ic3 s3"
  let ?ic4 = "?ic3\<lparr>ic_announcing := True\<rparr>"
  define s4 where "s4 = set_store (snd (set_nx ?k p2 (ms_store s3'))) (set_in_call ?k ?ic4 s3')"
  define s5 where "s5 = publish ?ch p3 s4"
  let ?oc6 = "?oc1\<lparr>oc_phase := OutLocked ?ann\<rparr>"
  define s6 where "s6 = set_store ((ms_store s5)(match_lock_key ?k \<mapsto> [])) (set_out_call n ?oc6 s5)"
  let ?oc7 = "?oc6\<lparr>oc_phase := OutPublished ?mi, oc_matched := Some (?k, ?mi)\<rparr>"
  define s7 where "s7 = publish ?k p4 (set_out_call n ?oc7 s6)"
  let ?oc8 = "?oc7\<lparr>oc_phase := OutReturned (Inr ?mi)\<rparr>"
  define s8 where "s8 = set_out_call n ?oc8 s7"
  let ?ic9 = "?ic4\<lparr>ic_result := Some (Inr (Some (match_out_of oc tunnel_id)))\<rparr>"
  define s9 where "s9 = set_in_call ?k ?ic9 s8"
  note defs = s2_def s3_def s3'_def s4_def s5_def s6_def s7_def s8_def
  have "match_step lib pair s1 s2"
    unfolding s2_def by (rule match_step.in_accept_scan [where out_key = ?out_key]) (use u s1 in \<open>auto simp: out_key_parse\<close>)
  moreover have "match_step lib pair s2 s3"
    unfolding s3_def by (rule match_step.in_subscribe [where u = u]) (use fresh s1 in \<open>auto simp: s2_def\<close>)
  moreover have "match_step lib pair s3 s3'"
    unfolding s3'_def by (rule match_step.in_found) (use s1 in \<open>auto simp: s3_def s2_def in_call_start_def\<close>)
  moreover have "match_step lib pair s3' s4"
    unfolding s4_def by (rule match_step.in_set_data) (use sent in \<open>auto simp: s3'_def in_call_start_def\<close>)
  moreover have "match_step lib pair s4 s5"
    unfolding s5_def using match_step.in_announce [of s4 ?k ?ic4 lib p3 pair] sent
    by (simp add: s4_def in_call_start_def in_announcement_of_def)
  moreover have "match_step lib pair s5 s6"
    unfolding s6_def using match_step.out_lock [of s5 n ?oc1 ?ch p3 lib pair ?ann] oc u rcv fresh ne s1
    by (simp add: s5_def s4_def s3'_def s3_def s2_def set_nx_def)
  moreover have "match_step lib pair s6 s7"
  proof -
    have "ms_store s6 ?k = Some p2" using ne fresh s1 by (auto simp: defs set_nx_def)
    then have "handle_announcement ?c (in_data_from_json lib) \<lparr> ev_announcement = Inr ?ann, ev_locked = Inr True,
        ev_in_data = Inr (get_bytes (ms_store s6) (ia_match_key ?ann)), ev_tunnel_id = tunnel_id, ev_published = Inr () \<rparr> =
        Some (Some (Inr ?mi))"
      using rcv by (simp add: handle_announcement_def get_bytes_def)
    moreover have "fresh_tunnel_id tunnel_id s6"
      using fresh(4) oc s1(1) by (auto simp: fresh_tunnel_id_def defs)
    ultimately show ?thesis
      unfolding s7_def using match_step.out_publish [of s6 n ?oc6 ?ann tunnel_id lib ?mi p4 pair] sent
      by (simp add: s6_def)
  qed
  moreover have "match_step lib pair s7 s8"
    unfolding s8_def by (rule match_step.out_return) (auto simp: s7_def)
  moreover have "match_step lib pair s8 s9"
  proof -
    have "ms_in_calls s8 ?k = Some ?ic4" "(?k, p4) \<in> ms_published s8" by (simp_all add: defs)
    moreover have "ic_result ?ic4 = None" "ic_found ?ic4" by (simp_all add: in_call_start_def)
    moreover have "delivers (subscription_of ?k) ?k" using u by simp
    moreover have "match_out_run pair (Inr ()) (Inr True) (MatchMessage (Inr (match_out_of oc tunnel_id))) (ic_out_id ?ic4) [] =
        Some (Inr (Some (match_out_of oc tunnel_id)), [])" by (simp add: match_out_run_def)
    ultimately show ?thesis
      unfolding s9_def using match_step.in_receive [OF _ _ _ _ _ rcv(3)] by blast
  qed
  ultimately have "?step s1 s9" by (meson converse_rtranclp_into_rtranclp rtranclp.rtrancl_refl)
  then have "?step s s9" using run1 by simp
  moreover have "ms_in_calls s9 = (ms_in_calls s)(?k \<mapsto> ?ic9)" "ms_out_calls s9 = (ms_out_calls s)(n \<mapsto> ?oc8)"
    "oc_id oc \<in> ms_accepted s9" by (simp_all add: s9_def defs s1)
  ultimately show ?thesis
    by (intro exI [of _ s9] exI [of _ ?ic9] conjI exI [of _ ?oc8]) (simp_all add: in_call_start_def)
qed

section \<open>Properties\<close>

lemma out_matchedD:
  assumes "match_inv lib pair s" "out_matched s match_key mo mi"
  shows "\<exists>n oc. ms_out_calls s n = Some oc \<and> oc_matched oc = Some (match_key, mi) \<and> mo = match_out_of oc (mi_tunnel_id mi) \<and>
    in_called s match_key (mi_id mi) (oc_id oc) (mi_data mi)"
  using assms unfolding match_inv_def out_matched_def out_calls_ok_def out_call_ok_def by blast

lemma match_resultD:
  assumes "match_inv lib pair s" "ms_in_calls s match_key = Some ic" "ic_result ic = Some (Inr (Some mo))"
  shows "\<exists>n oc mi. ms_out_calls s n = Some oc \<and> oc_matched oc = Some (match_key, mi) \<and> mo = match_out_of oc (mi_tunnel_id mi) \<and>
    mi_id mi = rims_id (ic_server ic) \<and> oc_id oc = ic_out_id ic \<and> mi_data mi = ic_data ic"
proof -
  obtain mi where "out_matched s match_key mo mi"
    using assms unfolding match_inv_def results_ok_def by blast
  then show ?thesis
    using out_matchedD [OF assms(1)] assms(2) unfolding in_called_def by fastforce
qed

lemma out_returnedD:
  assumes "match_inv lib pair s" "ms_out_calls s n = Some oc" "oc_phase oc = OutReturned (Inr mi)"
  shows "\<exists>match_key. oc_matched oc = Some (match_key, mi) \<and> in_called s match_key (mi_id mi) (oc_id oc) (mi_data mi)"
proof -
  have "\<exists>match_key. oc_matched oc = Some (match_key, mi)"
    using assms by (auto simp: match_inv_def phase_ok_def dest!: phases_okD)
  then show ?thesis using assms(1,2) by (auto simp: match_inv_def out_call_ok_def dest!: out_calls_okD)
qed

text \<open>C3: Whatever Redis loses, delays or repeats and whatever fails in between: when a call of
  \<open>match_out\<close> returns a match, an OUT with the id that was asked for has published exactly this match
  (its own labels, priorities, rules and data) for this call, with the calling IN's id and data; the OUT's
  call of \<open>match_in\<close> returns just that, unless it fails after publishing.\<close>

theorem match_agreement:
  assumes "match_lib_law lib" and "match_reachable lib pair s"
    and "ms_in_calls s match_key = Some ic" and "ic_result ic = Some (Inr (Some mo))"
  shows "\<exists>n oc mi. ms_out_calls s n = Some oc \<and> oc_id oc = ic_out_id ic \<and>
    mo = match_out_of oc (mi_tunnel_id mi) \<and> oc_matched oc = Some (match_key, mi) \<and>
    mi_id mi = rims_id (ic_server ic) \<and> mi_data mi = ic_data ic \<and>
    (oc_phase oc = OutPublished mi \<or> oc_phase oc = OutReturned (Inr mi) \<or> (\<exists>e. oc_phase oc = OutReturned (Inl e)))"
proof -
  note inv = match_reachable_inv [OF assms(2,1)]
  obtain n oc mi where oc: "ms_out_calls s n = Some oc" "oc_matched oc = Some (match_key, mi)"
    and "mo = match_out_of oc (mi_tunnel_id mi)" "mi_id mi = rims_id (ic_server ic)" "oc_id oc = ic_out_id ic" "mi_data mi = ic_data ic"
    using match_resultD [OF inv assms(3,4)] by blast
  moreover have "phase_ok oc" using inv oc(1) by (simp add: match_inv_def phases_ok_def)
  then have "oc_phase oc = OutPublished mi \<or> oc_phase oc = OutReturned (Inr mi) \<or> (\<exists>e. oc_phase oc = OutReturned (Inl e))"
    using oc(2) by (auto simp: phase_ok_def split: out_phase.splits sum.splits)
  ultimately show ?thesis by blast
qed

text \<open>An example: the libraries of the model's other examples, and codecs that write what the run needs.\<close>

definition example_match_out :: "'o \<Rightarrow> tunnel_id \<Rightarrow> 'o match_out" where
  "example_match_out out_data tunnel_id =
     \<lparr> mo_id = MatchOutId 5, mo_tunnel_id = tunnel_id, mo_tunnel_labels = [Custom ''a''], mo_tunnel_priority = Some 1,
       mo_routing_priority = 2, mo_routing_rules = [], mo_data = out_data \<rparr>"

definition example_match_lib :: "'i \<Rightarrow> 'o \<Rightarrow> ('i, 'o) match_lib" where
  "example_match_lib in_data out_data =
     \<lparr> ml_uuid = example_uuid_lib, ml_aes = (\<lambda>_. example_cipher), ml_key = Some ''secret'',
       in_data_to_json = (\<lambda>d. if d = in_data then Inr [1] else Inl (External ''json'')),
       in_data_from_json = (\<lambda>bs. if bs = [] then Inl (External ''json'') else Inr in_data),
       announcement_to_json = (\<lambda>a. Inr (tunnel_id_as_bytes (TunnelId (case ia_id a of MatchInId u \<Rightarrow> u)) @ bytes_of (ia_match_key a))),
       announcement_from_json = (\<lambda>bs. Inr \<lparr> ia_id = MatchInId (tunnel_uuid (tunnel_id_from_bytes (take 16 bs))),
         ia_match_key = text_of (drop 16 bs) \<rparr>),
       match_out_to_json = (\<lambda>mo. if mo = example_match_out out_data (mo_tunnel_id mo) then Inr (tunnel_id_as_bytes (mo_tunnel_id mo))
         else Inl (External ''json'')),
       match_out_from_json = (\<lambda>bs. Inr (example_match_out out_data (tunnel_id_from_bytes bs))),
       out_id_to_json = (\<lambda>out_id. Inr (tunnel_id_as_bytes (TunnelId (out_uuid out_id)))),
       out_id_from_json = (\<lambda>bs. Inr (MatchOutId (tunnel_uuid (tunnel_id_from_bytes bs)))) \<rparr>"

lemma example_match_lib: "match_lib_law (example_match_lib in_data out_data)"
  by (auto simp: match_lib_law_def json_law_def reads_back_def example_match_lib_def example_cipher_def cipher_law_def
      intro!: in_announcement.equality split: if_splits list.splits match_in_id.split)

definition example_out_call :: "'o \<Rightarrow> ('i, 'o) out_call" where
  "example_out_call out_data = out_call_start \<lparr> roms_id = MatchOutId 5, roms_labels = [Custom ''a''] \<rparr> out_data (Some 1) [] 2"

lemma example_match_out_of: "match_out_of (example_out_call out_data) tunnel_id = example_match_out out_data tunnel_id"
  by (simp add: example_out_call_def match_out_of_def example_match_out_def out_call_start_def)

lemma example_match_start:
  "match_reachable lib pair (match_start\<lparr>ms_out_calls := [0 \<mapsto> example_out_call out_data]\<rparr>)"
proof -
  have "match_step lib pair match_start
      (set_out_call 0 (out_call_start \<lparr> roms_id = MatchOutId 5, roms_labels = [Custom ''a''] \<rparr> out_data (Some 1) [] 2) match_start)"
    by (rule match_step.out_subscribe) (simp_all add: match_start_def parsed_labels_def label_of_string_def)
  then show ?thesis by (simp add: example_out_call_def match_start_def r_into_rtranclp)
qed

text \<open>A reachable state in which the example's call has returned its match.\<close>

lemma example_match_run:
  fixes in_data :: 'i and out_data :: 'o
  shows "\<exists>s ic. match_reachable (example_match_lib in_data out_data) pair s \<and>
    ms_in_calls s (uuid_show example_uuid_lib 9) = Some ic \<and>
    ic_result ic = Some (Inr (Some (example_match_out out_data (TunnelId 7)))) \<and>
    ic_server ic = \<lparr> rims_id = MatchInId 3 \<rparr> \<and> ic_out_id ic = MatchOutId 5 \<and> ic_data ic = in_data \<and>
    (\<exists>oc. ms_out_calls s 0 = Some oc \<and> oc_id oc = MatchOutId 5 \<and>
       oc_phase oc = OutReturned (Inr \<lparr> mi_id = MatchInId 3, mi_tunnel_id = TunnelId 7, mi_data = in_data \<rparr>)) \<and>
    MatchOutId 5 \<in> ms_accepted s \<and> (\<forall>k ic. ms_in_calls s k = Some ic \<longrightarrow> ic_data ic = in_data) \<and> (\<forall>n oc. ms_out_calls s n = Some oc \<longrightarrow> oc_data oc = out_data)"
proof -
  let ?lib = "example_match_lib in_data out_data" and ?oc = "example_out_call out_data :: ('i, 'o) out_call"
  let ?s = "match_start\<lparr>ms_out_calls := [0 \<mapsto> ?oc]\<rparr>" and ?key = "uuid_show (ml_uuid ?lib) 9"
  have mo: "match_out_of ?oc (TunnelId 7) = example_match_out out_data (TunnelId 7)" by (rule example_match_out_of)
  have id: "oc_id ?oc = MatchOutId 5" and key: "?key = uuid_show example_uuid_lib 9"
    by (simp_all add: example_out_call_def out_call_start_def example_match_lib_def)
  have start: "match_reachable ?lib pair ?s" by (rule example_match_start)
  have json: "match_out_to_json ?lib (match_out_of ?oc (TunnelId 7)) = Inr (tunnel_id_as_bytes (TunnelId 7))"
    unfolding mo by (simp add: example_match_lib_def example_match_out_def)
  have run: "\<exists>s ic. (match_step ?lib pair)\<^sup>*\<^sup>* ?s s \<and> ms_in_calls s ?key = Some ic \<and>
      ic_result ic = Some (Inr (Some (match_out_of ?oc (TunnelId 7)))) \<and> ic_server ic = \<lparr> rims_id = MatchInId 3 \<rparr> \<and>
      ic_out_id ic = oc_id ?oc \<and> ic_data ic = in_data \<and> ms_in_calls s = (ms_in_calls ?s)(?key \<mapsto> ic) \<and> oc_id ?oc \<in> ms_accepted s \<and>
      (\<exists>oc. ms_out_calls s = (ms_out_calls ?s)(0 \<mapsto> oc) \<and> oc_server oc = oc_server ?oc \<and> oc_data oc = oc_data ?oc \<and>
         oc_phase oc = OutReturned (Inr \<lparr> mi_id = rims_id \<lparr> rims_id = MatchInId 3 \<rparr>, mi_tunnel_id = TunnelId 7, mi_data = in_data \<rparr>))"
    by (rule match_completes [OF example_match_lib start, OF _ _ _ _ _ _ _ _ _ _ json])
      (simp_all add: example_out_call_def out_call_start_def match_start_def fresh_tunnel_id_def, simp_all add: example_match_lib_def)
  obtain s and ic :: "('i, 'o) in_call" and oc where s: "(match_step ?lib pair)\<^sup>*\<^sup>* ?s s"
    and ic: "ms_in_calls s = (ms_in_calls ?s)(?key \<mapsto> ic)" "ic_result ic = Some (Inr (Some (match_out_of ?oc (TunnelId 7))))"
      "ic_server ic = \<lparr> rims_id = MatchInId 3 \<rparr>" "ic_out_id ic = oc_id ?oc" "ic_data ic = in_data" "oc_id ?oc \<in> ms_accepted s"
    and oc: "ms_out_calls s = (ms_out_calls ?s)(0 \<mapsto> oc)" "oc_server oc = oc_server ?oc" "oc_data oc = oc_data ?oc"
      "oc_phase oc = OutReturned (Inr \<lparr> mi_id = MatchInId 3, mi_tunnel_id = TunnelId 7, mi_data = in_data \<rparr>)"
    using run by (elim exE conjE) simp
  have "oc_data ?oc = out_data" by (simp add: example_out_call_def out_call_start_def)
  moreover have "match_reachable ?lib pair s" using start s by (rule rtranclp_trans)
  ultimately show ?thesis
    using ic oc id mo key by (intro exI [of _ s] exI [of _ ic]) (simp add: match_start_def)
qed

theorem match_agreement_witness:
  "\<exists>(s :: (u8, unit) match_state) ic n oc (mi :: u8 match_in). ms_in_calls s (uuid_show example_uuid_lib 9) = Some ic \<and>
    ic_result ic = Some (Inr (Some (match_out_of oc (mi_tunnel_id mi)))) \<and>
    ms_out_calls s n = Some oc \<and> oc_id oc = MatchOutId 5 \<and> mi_data mi = 65"
proof -
  obtain s :: "(u8, unit) match_state" and ic where s: "match_reachable (example_match_lib 65 ()) QuicPair s"
    and ic: "ms_in_calls s (uuid_show example_uuid_lib 9) = Some ic"
      "ic_result ic = Some (Inr (Some (example_match_out () (TunnelId 7))))" "ic_out_id ic = MatchOutId 5" "ic_data ic = 65"
    using example_match_run [of "65 :: u8" "()" QuicPair] by blast
  obtain n oc and mi :: "u8 match_in" where
    "ms_out_calls s n = Some oc" "oc_id oc = ic_out_id ic" "mi_data mi = ic_data ic"
    "example_match_out () (TunnelId 7) = match_out_of oc (mi_tunnel_id mi)"
    using match_agreement [OF example_match_lib s ic(1,2)] by blast
  then show ?thesis using ic by metis
qed

text \<open>C17: A match is not shared: different calls of \<open>match_out\<close> return different tunnel ids, a tunnel id
  belongs to one call of \<open>match_in\<close> only, and every match that a call of \<open>match_in\<close> returns carries the
  id and the data of an IN that asked for this OUT.\<close>

theorem match_injective:
  assumes "match_lib_law lib" and "match_reachable lib pair s"
  shows "(ms_in_calls s k = Some ic \<and> ic_result ic = Some (Inr (Some mo)) \<and>
      ms_in_calls s k' = Some ic' \<and> ic_result ic' = Some (Inr (Some mo')) \<and> mo_tunnel_id mo = mo_tunnel_id mo' \<longrightarrow>
      k = k' \<and> mo = mo') \<and>
    (ms_out_calls s n = Some oc \<and> oc_phase oc = OutReturned (Inr mi) \<longrightarrow>
      (\<exists>k ic. ms_in_calls s k = Some ic \<and> ic_out_id ic = oc_id oc \<and>
         mi_id mi = rims_id (ic_server ic) \<and> mi_data mi = ic_data ic) \<and>
      (\<forall>n' oc' mi'. ms_out_calls s n' = Some oc' \<and> oc_phase oc' = OutReturned (Inr mi') \<and>
         mi_tunnel_id mi' = mi_tunnel_id mi \<longrightarrow> n' = n))"
proof -
  note inv = match_reachable_inv [OF assms(2,1)]
  have ids: "tunnel_ids_ok s" using inv by (simp add: match_inv_def)
  note matched = out_returnedD [OF inv]
  show ?thesis
  proof (intro conjI impI; (elim conjE)?)
    assume a: "ms_in_calls s k = Some ic" "ic_result ic = Some (Inr (Some mo))"
      "ms_in_calls s k' = Some ic'" "ic_result ic' = Some (Inr (Some mo'))" "mo_tunnel_id mo = mo_tunnel_id mo'"
    obtain m oc mi where m: "ms_out_calls s m = Some oc" "oc_matched oc = Some (k, mi)" "mo = match_out_of oc (mi_tunnel_id mi)"
      using match_resultD [OF inv a(1,2)] by blast
    obtain m' oc' mi' where m': "ms_out_calls s m' = Some oc'" "oc_matched oc' = Some (k', mi')"
      "mo' = match_out_of oc' (mi_tunnel_id mi')"
      using match_resultD [OF inv a(3,4)] by blast
    have "m = m'" using ids m m' a(5) unfolding tunnel_ids_ok_def by (auto simp: match_out_of_def)
    then show "k = k'" "mo = mo'" using m m' by auto
  next
    assume a: "ms_out_calls s n = Some oc" "oc_phase oc = OutReturned (Inr mi)"
    obtain k where k: "oc_matched oc = Some (k, mi)" "in_called s k (mi_id mi) (oc_id oc) (mi_data mi)"
      using matched [OF a] by blast
    then show "\<exists>k ic. ms_in_calls s k = Some ic \<and> ic_out_id ic = oc_id oc \<and> mi_id mi = rims_id (ic_server ic) \<and> mi_data mi = ic_data ic"
      unfolding in_called_def by metis
    show "\<forall>n' oc' mi'. ms_out_calls s n' = Some oc' \<and> oc_phase oc' = OutReturned (Inr mi') \<and>
        mi_tunnel_id mi' = mi_tunnel_id mi \<longrightarrow> n' = n"
      using matched ids a(1) k(1) unfolding tunnel_ids_ok_def by blast
  qed
qed

theorem match_injective_witness:
  "\<exists>(s :: (u8, unit) match_state) k ic. ms_in_calls s k = Some ic \<and> ic_out_id ic = MatchOutId 5 \<and> ic_data ic = 65 \<and>
     (\<forall>n' oc' mi'. ms_out_calls s n' = Some oc' \<and> oc_phase oc' = OutReturned (Inr mi') \<and>
        mi_tunnel_id mi' = TunnelId 7 \<longrightarrow> n' = 0)"
proof -
  obtain s :: "(u8, unit) match_state" and oc where s: "match_reachable (example_match_lib 65 ()) QuicPair s"
    and oc: "ms_out_calls s 0 = Some oc" "oc_id oc = MatchOutId 5"
      "oc_phase oc = OutReturned (Inr \<lparr> mi_id = MatchInId 3, mi_tunnel_id = TunnelId 7, mi_data = 65 \<rparr>)"
    using example_match_run [of "65 :: u8" "()" QuicPair] by blast
  have "(\<exists>k ic. ms_in_calls s k = Some ic \<and> ic_out_id ic = oc_id oc \<and> MatchInId 3 = rims_id (ic_server ic) \<and> 65 = ic_data ic) \<and>
      (\<forall>n' oc' mi'. ms_out_calls s n' = Some oc' \<and> oc_phase oc' = OutReturned (Inr mi') \<and>
        mi_tunnel_id mi' = TunnelId 7 \<longrightarrow> n' = 0)"
    using conjunct2 [OF match_injective [OF example_match_lib s]] oc(1,3) by fastforce
  then show ?thesis using oc(2) by (intro exI [of _ s]) auto
qed

text \<open>C18: Matching never gets stuck: in any state that the protocol reaches, whatever has happened before,
  when a call of \<open>match_in\<close> waits and has not announced itself yet, or still has its key in Redis, a call
  of \<open>match_out\<close> with a fresh match key can complete with it, both sides returning the match, without
  touching the other calls. (A call whose key is gone ends at its next refresh, \<open>out_expired\<close>.)\<close>

theorem match_can_complete:
  fixes lib :: "('i, 'o) match_lib" and s :: "('i, 'o) match_state"
  assumes law: "match_lib_law lib" and reach: "match_reachable lib pair s"
    and oc: "ms_out_calls s n = Some oc" "oc_phase oc = OutWaiting"
      "oc_announce oc = NotAnnounced \<or> ms_store s (get_redis_out_key (ml_uuid lib) pair (oc_id oc)) \<noteq> None"
    and fresh: "ms_in_calls s (uuid_show (ml_uuid lib) u) = None" "ms_store s (uuid_show (ml_uuid lib) u) = None"
      "ms_store s (match_lock_key (uuid_show (ml_uuid lib) u)) = None" "fresh_tunnel_id tunnel_id s"
    and json: "out_id_to_json lib (oc_id oc) = Inr j1" "in_data_to_json lib in_data = Inr j2"
      "announcement_to_json lib \<lparr> ia_id = rims_id server, ia_match_key = uuid_show (ml_uuid lib) u \<rparr> = Inr j3"
      "match_out_to_json lib (match_out_of oc tunnel_id) = Inr j4"
  shows "\<exists>s' ic. (match_step lib pair)\<^sup>*\<^sup>* s s' \<and>
    ms_in_calls s' (uuid_show (ml_uuid lib) u) = Some ic \<and> ic_result ic = Some (Inr (Some (match_out_of oc tunnel_id))) \<and>
    ic_server ic = server \<and> ic_out_id ic = oc_id oc \<and> ic_data ic = in_data \<and>
    ms_in_calls s' = (ms_in_calls s)(uuid_show (ml_uuid lib) u \<mapsto> ic) \<and> oc_id oc \<in> ms_accepted s' \<and>
    (\<exists>oc'. ms_out_calls s' = (ms_out_calls s)(n \<mapsto> oc') \<and> oc_server oc' = oc_server oc \<and> oc_data oc' = oc_data oc \<and>
       oc_phase oc' = OutReturned (Inr \<lparr> mi_id = rims_id server, mi_tunnel_id = tunnel_id, mi_data = in_data \<rparr>))"
  using assms by (rule match_completes)

theorem match_can_complete_witness:
  "\<exists>s ic. (match_step (example_match_lib (65 :: u8) ()) QuicPair)\<^sup>*\<^sup>*
       (match_start\<lparr>ms_out_calls := [0 \<mapsto> example_out_call () :: (u8, unit) out_call]\<rparr>) s \<and>
     ms_in_calls s (uuid_show example_uuid_lib 9) = Some ic \<and>
     ic_result ic = Some (Inr (Some (example_match_out () (TunnelId 7))))"
proof -
  let ?lib = "example_match_lib (65 :: u8) ()" and ?oc = "example_out_call () :: (u8, unit) out_call"
  have mo: "match_out_of ?oc (TunnelId 7) = example_match_out () (TunnelId 7)" by (rule example_match_out_of)
  have json: "match_out_to_json ?lib (match_out_of ?oc (TunnelId 7)) = Inr (tunnel_id_as_bytes (TunnelId 7))"
    unfolding mo by (simp add: example_match_lib_def example_match_out_def)
  have "\<exists>s ic. (match_step ?lib QuicPair)\<^sup>*\<^sup>* (match_start\<lparr>ms_out_calls := [0 \<mapsto> ?oc]\<rparr>) s \<and>
      ms_in_calls s (uuid_show (ml_uuid ?lib) 9) = Some ic \<and>
      ic_result ic = Some (Inr (Some (match_out_of ?oc (TunnelId 7)))) \<and> ic_server ic = \<lparr> rims_id = MatchInId 3 \<rparr> \<and>
      ic_out_id ic = oc_id ?oc \<and> ic_data ic = 65 \<and>
      ms_in_calls s = (ms_in_calls (match_start\<lparr>ms_out_calls := [0 \<mapsto> ?oc]\<rparr>))(uuid_show (ml_uuid ?lib) 9 \<mapsto> ic) \<and> oc_id ?oc \<in> ms_accepted s \<and>
      (\<exists>oc. ms_out_calls s = (ms_out_calls (match_start\<lparr>ms_out_calls := [0 \<mapsto> ?oc]\<rparr>))(0 \<mapsto> oc) \<and> oc_server oc = oc_server ?oc \<and>
         oc_data oc = oc_data ?oc \<and>
         oc_phase oc = OutReturned (Inr \<lparr> mi_id = rims_id \<lparr> rims_id = MatchInId 3 \<rparr>, mi_tunnel_id = TunnelId 7, mi_data = 65 \<rparr>))"
    by (rule match_can_complete [OF example_match_lib example_match_start, OF _ _ _ _ _ _ _ _ _ _ json])
      (simp_all add: example_out_call_def out_call_start_def match_start_def fresh_tunnel_id_def, simp_all add: example_match_lib_def)
  moreover have "ml_uuid ?lib = example_uuid_lib" by (simp add: example_match_lib_def)
  ultimately show ?thesis unfolding mo by metis
qed

text \<open>
  What the tunnel manager relies on for a tunnel that a provider hands out after the call \<open>match_key\<close>:
  it belongs to the OUT that was asked for, carries what this OUT has announced, and no other call
  leads to a tunnel with its id.
\<close>

definition provided_for :: "('i, 'o) match_state \<Rightarrow> string \<Rightarrow> in_tunnel \<times> out_rule_config list \<times> i64 \<Rightarrow> bool" where
  "provided_for s match_key provided \<longleftrightarrow>
     (case provided of (tunnel, rules, priority) \<Rightarrow>
        \<exists>ic n oc. ms_in_calls s match_key = Some ic \<and> ms_out_calls s n = Some oc \<and> oc_id oc = ic_out_id ic \<and>
          tun_out_id tunnel = ic_out_id ic \<and> tun_labels tunnel = roms_labels (oc_server oc) \<and>
          rules = oc_routing_rules oc \<and> priority = oc_routing_priority oc \<and>
          (\<forall>match_key' ic' mo. ms_in_calls s match_key' = Some ic' \<longrightarrow> ic_result ic' = Some (Inr (Some mo)) \<longrightarrow>
             mo_tunnel_id mo = tun_id tunnel \<longrightarrow> match_key' = match_key))"

lemma provided_for_match:
  assumes inv: "match_inv lib pair s" and ic: "ms_in_calls s k = Some ic" "ic_result ic = Some (Inr (Some mo))"
    and "provided_tunnel mo configured priority_default p"
  shows "provided_for s k p"
proof -
  obtain n oc and mi :: "'a match_in" where oc: "ms_out_calls s n = Some oc" "oc_matched oc = Some (k, mi)"
    "mo = match_out_of oc (mi_tunnel_id mi)" "oc_id oc = ic_out_id ic"
    using match_resultD [OF inv ic] by blast
  have unique: "k' = k"
    if other: "ms_in_calls s k' = Some ic'" "ic_result ic' = Some (Inr (Some mo'))" "mo_tunnel_id mo' = mo_tunnel_id mo" for k' ic' mo'
  proof -
    obtain n' oc' and mi' :: "'a match_in" where oc': "ms_out_calls s n' = Some oc'" "oc_matched oc' = Some (k', mi')"
      "mo' = match_out_of oc' (mi_tunnel_id mi')"
      using match_resultD [OF inv other(1,2)] by blast
    then have "n' = n"
      using inv oc other(3) unfolding match_inv_def tunnel_ids_ok_def by (auto simp: match_out_of_def)
    then show ?thesis using oc oc' by simp
  qed
  obtain t rules priority where p: "p = (t, rules, priority)" by (cases p)
  show ?thesis
    unfolding provided_for_def p
    using assms(4) ic(1) oc unique by (auto simp: p provided_tunnel_def match_out_of_def intro!: exI [of _ ic] exI [of _ n])
qed

text \<open>The tunnel that a provider hands to the manager after a match belongs to the OUT it was asked
  for, with the labels, rules and routing priority this OUT announced, and its id is that of no other
  call's match: what the manager assumes of its providers. It holds for all three protocols.\<close>

theorem provided_for_asked_out:
  assumes "match_lib_law lib" and "match_reachable lib pair s"
    and "match_lib_law plug_lib" and "match_reachable plug_lib PlugHttp2Pair plug_s"
  shows "(ms_in_calls s k = Some ic \<and> ic_result ic = Some matched \<and>
      (http2_accept hc sys secured matched = Inr (Some p) \<or> quic_accept qc bound connected matched = Inr (Some p)) \<longrightarrow>
      provided_for s k p) \<and>
    (ms_in_calls plug_s k' = Some ic' \<and> ic_result ic' = Some plug_matched \<and>
      plug_http2_accept pc cert key probed (\<lambda>_. plug_matched) stream handshake = Inr (Some p) \<longrightarrow>
      provided_for plug_s k' p)"
proof (intro conjI impI; elim conjE)
  note inv = match_reachable_inv [OF assms(2,1)]
  assume ic: "ms_in_calls s k = Some ic" "ic_result ic = Some matched"
    and "http2_accept hc sys secured matched = Inr (Some p) \<or> quic_accept qc bound connected matched = Inr (Some p)"
  then obtain mo configured priority_default where "matched = Inr (Some mo)" "provided_tunnel mo configured priority_default p"
    using http2_accept_Some quic_accept_Some by metis
  then show "provided_for s k p" using provided_for_match [OF inv ic(1)] ic(2) by blast
next
  note inv = match_reachable_inv [OF assms(4,3)]
  assume ic: "ms_in_calls plug_s k' = Some ic'" "ic_result ic' = Some plug_matched"
    and "plug_http2_accept pc cert key probed (\<lambda>_. plug_matched) stream handshake = Inr (Some p)"
  then obtain mo where "plug_matched = Inr (Some mo)" "provided_tunnel mo (phc_priority pc) (phc_priority_default pc) p"
    using plug_http2_accept_Some by metis
  then show "provided_for plug_s k' p" using provided_for_match [OF inv ic(1)] ic(2) by blast
qed

theorem provided_for_asked_out_witness:
  "\<exists>(s :: (unit, tls_data) match_state) (plug_s :: (tls_data, unit) match_state) k p p'.
     provided_for s k p \<and> provided_for plug_s k p' \<and> tun_out_id (fst p) = MatchOutId 5"
proof -
  define d where "d = \<lparr> td_address = SockV4 1 8443, td_cert = [], td_key = [] \<rparr>"
  define hc where "hc = \<lparr> h2c_connections = 1, h2c_priority = None, h2c_priority_default = 100, h2c_traffic_mark = 0xff \<rparr>"
  define pc where "pc = \<lparr> phc_listen_address = SockV4 0 8443, phc_external_port = None, phc_connections = 3,
      phc_priority = None, phc_priority_default = 100, phc_stun_server_addresses = [], phc_traffic_mark = 0xff \<rparr>"
  obtain s :: "(unit, tls_data) match_state" and ic where s: "match_reachable (example_match_lib () d) Http2Pair s"
    and ic: "ms_in_calls s (uuid_show example_uuid_lib 9) = Some ic"
      "ic_result ic = Some (Inr (Some (example_match_out d (TunnelId 7))))"
    using example_match_run [of "()" d Http2Pair] by blast
  obtain s' :: "(tls_data, unit) match_state" and ic' where s': "match_reachable (example_match_lib d ()) PlugHttp2Pair s'"
    and ic': "ms_in_calls s' (uuid_show example_uuid_lib 9) = Some ic'"
      "ic_result ic' = Some (Inr (Some (example_match_out () (TunnelId 7))))"
    using example_match_run [of d "()" PlugHttp2Pair] by blast
  let ?t = "\<lambda>name. (\<lparr> tun_type = name, tun_id = TunnelId 7, tun_out_id = MatchOutId 5, tun_labels = [Custom ''a''], tun_priority = 1 \<rparr>, [], 2)"
  have h2: "http2_accept hc (\<lambda>_. Inr ()) (\<lambda>_ _. Inr ()) (Inr (Some (example_match_out d (TunnelId 7)))) = Inr (Some (?t ''http2''))"
    by (simp add: http2_accept_def http2_tunnel_connect_def run_calls_ok set_keepalive_options_def
        provide_def resolve_priority_def example_match_out_def hc_def)
  have plug: "plug_http2_accept pc [] [] (Inr (IpV4 1)) (\<lambda>_. Inr (Some (example_match_out () (TunnelId 7)))) (\<lambda>_. Inr ()) (Inr ()) =
      Inr (Some (?t ''plug-http2''))"
    by (simp add: plug_http2_accept_def provide_def resolve_priority_def example_match_out_def pc_def)
  note all = provided_for_asked_out [OF example_match_lib s example_match_lib s']
  have "provided_for s (uuid_show example_uuid_lib 9) (?t ''http2'')"
    by (rule conjunct1 [OF all, rule_format]) (use ic h2 in blast)
  moreover have "provided_for s' (uuid_show example_uuid_lib 9) (?t ''plug-http2'')"
    by (rule conjunct2 [OF all, rule_format]) (use ic' plug in blast)
  ultimately show ?thesis by fastforce
qed

end
