(* ===== verification/App_Config.thy ===== *)
theory App_Config
  imports Match_Protocol Outputs Router_Spec Tunnel_Manager Fake_Ip
begin

text \<open>
  The configuration file and the start of the program (\<open>src/config.rs\<close>, \<open>src/constants.rs\<close>,
  \<open>src/main.rs\<close>, \<open>src/lib/config.rs\<close>): the sections with their defaults, the options that IN and OUT
  are started with, and the providers that IN creates. JSON, URLs and durations are parsed by
  libraries: a parsed section is a record of the fields that are present.
\<close>

section \<open>Constants\<close>

definition data_dir_default :: string where "data_dir_default = ''.plug2proxy''"
definition dns_server_addresses_default :: "string list" where "dns_server_addresses_default = [''8.8.8.8'', ''8.8.4.4'']"
definition fake_ip_dns_address_default :: socket_addr where "fake_ip_dns_address_default = SockV4 0x7F00007C 53"
definition transparent_proxy_address_default :: socket_addr where "transparent_proxy_address_default = SockV4 0x7F000001 12345"
definition transparent_proxy_traffic_mark_default :: u32 where "transparent_proxy_traffic_mark_default = 0xff"
definition stun_server_addresses_default :: "string list" where
  "stun_server_addresses_default = [''stun.l.google.com:19302'', ''stun.miwifi.com:3478'']"
definition tunneling_http2_connections_default :: usize where "tunneling_http2_connections_default = 3"
definition tunneling_http2_priority_default :: i64 where "tunneling_http2_priority_default = 100"
definition tunneling_plug_http2_listen_address_default :: socket_addr where
  "tunneling_plug_http2_listen_address_default = SockV4 0 8443"
definition tunneling_plug_http2_connections_default :: usize where "tunneling_plug_http2_connections_default = 3"
definition tunneling_plug_http2_priority_default :: i64 where "tunneling_plug_http2_priority_default = 100"
definition tunneling_quic_priority_default :: i64 where "tunneling_quic_priority_default = 101"
definition geolite2_url_default :: string where
  "geolite2_url_default = ''https://github.com/P3TERX/GeoLite.mmdb/raw/download/GeoLite2-Country.mmdb''"
definition geolite2_update_interval_default :: nat where "geolite2_update_interval_default = 24 * 60 * 60"

text \<open>A path is a directory and a file name; \<open>data_dir\<close> is the command line's.\<close>

definition fake_ip_dns_db_path_default :: "string option \<Rightarrow> string \<times> string" where
  "fake_ip_dns_db_path_default data_dir = (unwrap_or data_dir data_dir_default, ''fake_ip_dns.db'')"

definition geolite2_cache_path_default :: "string option \<Rightarrow> string \<times> string" where
  "geolite2_cache_path_default data_dir = (unwrap_or data_dir data_dir_default, ''geolite2.mmdb'')"

section \<open>Sections of the IN configuration\<close>

record in_fake_ip_dns_config =
  fic_listen :: socket_addr

record in_transparent_proxy_config =
  tpc_listen :: socket_addr
  tpc_traffic_mark :: u32

record in_tunneling_http2_config =
  thc_enabled :: bool
  thc_connections :: usize
  thc_priority :: "i64 option"

record in_tunneling_plug_http2_config =
  tpl_enabled :: bool
  tpl_listen_address :: socket_addr
  tpl_external_port :: "u16 option"
  tpl_connections :: usize
  tpl_priority :: "i64 option"

record in_tunneling_quic_config =
  tqc_enabled :: bool
  tqc_priority :: "i64 option"

record in_routing_geolite2_config =
  rgc_url :: string
  rgc_update_interval :: "string option"

record in_routing_config =
  irc_geolite2 :: in_routing_geolite2_config
  irc_rules :: "in_rule_config list"

text \<open>The \<open>Default\<close> instances, used for an absent section.\<close>

definition in_routing_rules_default :: "in_rule_config list" where
  "in_routing_rules_default = [InFallback \<lparr> ifall_out = One (BuiltIn Direct), ifall_tag = None \<rparr>]"

definition fake_ip_dns_default :: in_fake_ip_dns_config where
  "fake_ip_dns_default = \<lparr> fic_listen = fake_ip_dns_address_default \<rparr>"

definition transparent_proxy_default :: in_transparent_proxy_config where
  "transparent_proxy_default = \<lparr> tpc_listen = transparent_proxy_address_default,
     tpc_traffic_mark = transparent_proxy_traffic_mark_default \<rparr>"

definition tunneling_http2_default :: in_tunneling_http2_config where
  "tunneling_http2_default = \<lparr> thc_enabled = False, thc_connections = tunneling_http2_connections_default,
     thc_priority = None \<rparr>"

definition tunneling_plug_http2_default :: in_tunneling_plug_http2_config where
  "tunneling_plug_http2_default = \<lparr> tpl_enabled = True,
     tpl_listen_address = tunneling_plug_http2_listen_address_default, tpl_external_port = None,
     tpl_connections = tunneling_plug_http2_connections_default, tpl_priority = None \<rparr>"

definition tunneling_quic_default :: in_tunneling_quic_config where
  "tunneling_quic_default = \<lparr> tqc_enabled = True, tqc_priority = None \<rparr>"

definition routing_geolite2_default :: in_routing_geolite2_config where
  "routing_geolite2_default = \<lparr> rgc_url = geolite2_url_default, rgc_update_interval = None \<rparr>"

definition routing_default :: in_routing_config where
  "routing_default = \<lparr> irc_geolite2 = routing_geolite2_default, irc_rules = in_routing_rules_default \<rparr>"

text \<open>
  What deserializing a present section gives: the field defaults of its \<open>serde\<close> attributes where a
  field is absent. A section is the list of its fields that are present, a field without default
  being optional anyway.
\<close>

definition de_fake_ip_dns :: "socket_addr option \<Rightarrow> in_fake_ip_dns_config" where
  "de_fake_ip_dns listen = \<lparr> fic_listen = unwrap_or listen fake_ip_dns_address_default \<rparr>"

definition de_transparent_proxy :: "socket_addr option \<Rightarrow> u32 option \<Rightarrow> in_transparent_proxy_config" where
  "de_transparent_proxy listen traffic_mark =
     \<lparr> tpc_listen = unwrap_or listen transparent_proxy_address_default,
       tpc_traffic_mark = unwrap_or traffic_mark transparent_proxy_traffic_mark_default \<rparr>"

definition de_tunneling_http2 :: "bool option \<Rightarrow> usize option \<Rightarrow> i64 option \<Rightarrow> in_tunneling_http2_config" where
  "de_tunneling_http2 enabled connections priority =
     \<lparr> thc_enabled = unwrap_or enabled False,
       thc_connections = unwrap_or connections tunneling_http2_connections_default, thc_priority = priority \<rparr>"

definition de_tunneling_plug_http2 ::
  "bool option \<Rightarrow> socket_addr option \<Rightarrow> u16 option \<Rightarrow> usize option \<Rightarrow> i64 option \<Rightarrow>
   in_tunneling_plug_http2_config" where
  "de_tunneling_plug_http2 enabled listen_address external_port connections priority =
     \<lparr> tpl_enabled = unwrap_or enabled True,
       tpl_listen_address = unwrap_or listen_address tunneling_plug_http2_listen_address_default,
       tpl_external_port = external_port,
       tpl_connections = unwrap_or connections tunneling_plug_http2_connections_default,
       tpl_priority = priority \<rparr>"

text \<open>This section carries \<open>serde(default)\<close> itself; its \<open>enabled\<close> also has a default of its own.\<close>

definition de_tunneling_quic :: "bool option \<Rightarrow> i64 option option \<Rightarrow> in_tunneling_quic_config" where
  "de_tunneling_quic enabled priority =
     \<lparr> tqc_enabled = unwrap_or enabled True, tqc_priority = unwrap_or priority (tqc_priority tunneling_quic_default) \<rparr>"

definition de_routing_geolite2 :: "string option \<Rightarrow> string option \<Rightarrow> in_routing_geolite2_config" where
  "de_routing_geolite2 url update_interval =
     \<lparr> rgc_url = unwrap_or url geolite2_url_default, rgc_update_interval = update_interval \<rparr>"

definition de_routing :: "in_routing_geolite2_config option \<Rightarrow> in_rule_config list option \<Rightarrow> in_routing_config" where
  "de_routing geolite2 rules =
     \<lparr> irc_geolite2 = unwrap_or geolite2 routing_geolite2_default,
       irc_rules = unwrap_or rules in_routing_rules_default \<rparr>"

section \<open>The match server\<close>

record redis_match_server_config =
  rms_url :: string
  rms_key :: "string option"

datatype match_server_config = Redis redis_match_server_config

datatype match_server_url_or_config = Url string | Config match_server_config

text \<open>\<open>into_config\<close>: \<open>scheme url\<close> is the scheme of a valid URL; \<^const>\<open>None\<close> is a panic.\<close>

fun into_config :: "(string \<Rightarrow> string option) \<Rightarrow> match_server_url_or_config \<Rightarrow> match_server_config option" where
  "into_config scheme (Url url) =
     (case scheme url of
        None \<Rightarrow> None
      | Some s \<Rightarrow>
          (if s = ''redis'' \<or> s = ''rediss'' then Some (Redis \<lparr> rms_url = url, rms_key = None \<rparr>) else None))"
| "into_config scheme (Config config) = Some config"

definition redis_client_url :: "match_server_config \<Rightarrow> string" where
  "redis_client_url config = (case config of Redis c \<Rightarrow> rms_url c @ ''?protocol=resp3'')"

text \<open>
  The match servers of both sides, with their ciphers; \<open>open_client\<close> is what opening the Redis client
  answers, the ids are fresh.
\<close>

definition new_in_match_server ::
  "(string \<Rightarrow> unit result) \<Rightarrow> (string \<Rightarrow> cipher) \<Rightarrow> match_in_id \<Rightarrow> match_server_config \<Rightarrow>
   (redis_in_match_server \<times> cipher option) result" where
  "new_in_match_server open_client aes fresh_id config =
     (case config of Redis c \<Rightarrow>
        (case open_client (redis_client_url config) of
           Inl e \<Rightarrow> Inl e
         | Inr _ \<Rightarrow> Inr (\<lparr> rims_id = fresh_id \<rparr>, create_cipher aes (rms_key c))))"

definition new_out_match_server ::
  "(string \<Rightarrow> unit result) \<Rightarrow> (string \<Rightarrow> cipher) \<Rightarrow> match_out_id \<Rightarrow> match_server_config \<Rightarrow> label list \<Rightarrow>
   (redis_out_match_server \<times> cipher option) result" where
  "new_out_match_server open_client aes fresh_id config labels =
     (case config of Redis c \<Rightarrow>
        (case open_client (redis_client_url config) of
           Inl e \<Rightarrow> Inl e
         | Inr _ \<Rightarrow> Inr (\<lparr> roms_id = fresh_id, roms_labels = labels \<rparr>, create_cipher aes (rms_key c))))"

section \<open>Starting IN\<close>

record in_tunneling_config =
  itc_stun_server :: "string one_or_many option"
  itc_match_server :: match_server_url_or_config
  itc_http2 :: in_tunneling_http2_config
  itc_plug_http2 :: in_tunneling_plug_http2_config
  itc_quic :: in_tunneling_quic_config

record in_config =
  inc_dns_resolver :: "string one_or_many option"
  inc_fake_ip_dns :: in_fake_ip_dns_config
  inc_transparent_proxy :: in_transparent_proxy_config
  inc_tunneling :: in_tunneling_config
  inc_routing :: in_routing_config

text \<open>A configuration whose sections may be absent; only the match server is required.\<close>

definition de_in_tunneling ::
  "string one_or_many option \<Rightarrow> match_server_url_or_config \<Rightarrow> in_tunneling_http2_config option \<Rightarrow>
   in_tunneling_plug_http2_config option \<Rightarrow> in_tunneling_quic_config option \<Rightarrow> in_tunneling_config" where
  "de_in_tunneling stun_server match_server http2 plug_http2 quic =
     \<lparr> itc_stun_server = stun_server, itc_match_server = match_server,
       itc_http2 = unwrap_or http2 tunneling_http2_default,
       itc_plug_http2 = unwrap_or plug_http2 tunneling_plug_http2_default,
       itc_quic = unwrap_or quic tunneling_quic_default \<rparr>"

definition de_in_config ::
  "string one_or_many option option \<Rightarrow> in_fake_ip_dns_config option \<Rightarrow> in_transparent_proxy_config option \<Rightarrow>
   in_tunneling_config \<Rightarrow> in_routing_config option \<Rightarrow> in_config" where
  "de_in_config dns_resolver fake_ip_dns transparent_proxy tunneling routing =
     \<lparr> inc_dns_resolver = unwrap_or dns_resolver None,
       inc_fake_ip_dns = unwrap_or fake_ip_dns fake_ip_dns_default,
       inc_transparent_proxy = unwrap_or transparent_proxy transparent_proxy_default,
       inc_tunneling = tunneling, inc_routing = unwrap_or routing routing_default \<rparr>"

record transparent_proxy_options =
  tpo_listen_address :: socket_addr
  tpo_traffic_mark :: u32
  tpo_fake_ip_dns_db_path :: "string \<times> string"
  tpo_fake_nets :: fake_nets
  tpo_stun_server_addresses :: "string list"
  tpo_match_server_config :: match_server_config
  tpo_http2_enabled :: bool
  tpo_http2_connections :: usize
  tpo_http2_priority :: "i64 option"
  tpo_http2_priority_default :: i64
  tpo_plug_http2_enabled :: bool
  tpo_plug_http2_listen_address :: socket_addr
  tpo_plug_http2_external_port :: "u16 option"
  tpo_plug_http2_connections :: usize
  tpo_plug_http2_priority :: "i64 option"
  tpo_plug_http2_priority_default :: i64
  tpo_quic_enabled :: bool
  tpo_quic_priority :: "i64 option"
  tpo_quic_priority_default :: i64
  tpo_routing_rules :: "in_rule_config list"
  tpo_geolite2_cache_path :: "string \<times> string"
  tpo_geolite2_url :: string
  tpo_geolite2_update_interval :: nat

text \<open>
  What \<open>main\<close> sets up for IN: the directory it creates, the DNS servers, and the options of the
  two services. \<open>parse_duration\<close> gives seconds; \<^const>\<open>None\<close> is a panic.
\<close>

record in_start =
  is_created_dir :: string
  is_dns_servers :: "string list"
  is_fake_ip_dns :: "socket_addr \<times> string \<times> string"
  is_transparent_proxy :: transparent_proxy_options

definition main_in ::
  "(string \<Rightarrow> string option) \<Rightarrow> (string \<Rightarrow> nat option) \<Rightarrow> string option \<Rightarrow> in_config \<Rightarrow> in_start option" where
  "main_in scheme parse_duration data_dir config =
     (let tunneling = inc_tunneling config; geolite2 = irc_geolite2 (inc_routing config);
          db_path = fake_ip_dns_db_path_default data_dir in
      Option.bind (into_config scheme (itc_match_server tunneling)) (\<lambda>match_server.
      Option.bind
        (case rgc_update_interval geolite2 of
           None \<Rightarrow> Some geolite2_update_interval_default
         | Some duration \<Rightarrow> parse_duration duration) (\<lambda>update_interval.
      Some \<lparr>
        is_created_dir = data_dir_default,
        is_dns_servers = (case inc_dns_resolver config of None \<Rightarrow> dns_server_addresses_default | Some s \<Rightarrow> into_vec s),
        is_fake_ip_dns = (fic_listen (inc_fake_ip_dns config), db_path),
        is_transparent_proxy = \<lparr>
          tpo_listen_address = tpc_listen (inc_transparent_proxy config),
          tpo_traffic_mark = tpc_traffic_mark (inc_transparent_proxy config),
          tpo_fake_ip_dns_db_path = db_path,
          tpo_fake_nets = default_nets,
          tpo_stun_server_addresses =
            (case itc_stun_server tunneling of None \<Rightarrow> stun_server_addresses_default | Some s \<Rightarrow> into_vec s),
          tpo_match_server_config = match_server,
          tpo_http2_enabled = thc_enabled (itc_http2 tunneling),
          tpo_http2_connections = thc_connections (itc_http2 tunneling),
          tpo_http2_priority = thc_priority (itc_http2 tunneling),
          tpo_http2_priority_default = tunneling_http2_priority_default,
          tpo_plug_http2_enabled = tpl_enabled (itc_plug_http2 tunneling),
          tpo_plug_http2_listen_address = tpl_listen_address (itc_plug_http2 tunneling),
          tpo_plug_http2_external_port = tpl_external_port (itc_plug_http2 tunneling),
          tpo_plug_http2_connections = tpl_connections (itc_plug_http2 tunneling),
          tpo_plug_http2_priority = tpl_priority (itc_plug_http2 tunneling),
          tpo_plug_http2_priority_default = tunneling_plug_http2_priority_default,
          tpo_quic_enabled = tqc_enabled (itc_quic tunneling),
          tpo_quic_priority = tqc_priority (itc_quic tunneling),
          tpo_quic_priority_default = tunneling_quic_priority_default,
          tpo_routing_rules = irc_rules (inc_routing config),
          tpo_geolite2_cache_path = geolite2_cache_path_default data_dir,
          tpo_geolite2_url = rgc_url geolite2,
          tpo_geolite2_update_interval = update_interval \<rparr> \<rparr>)))"

text \<open>
  The providers that \<open>up\<close> creates from its options: \<open>open_client url\<close> is what opening the Redis
  client answers, \<open>lookup_host address\<close> what resolving the addresses of a STUN server answers, and
  \<open>bind_listener address\<close> what binding the listener of plug-HTTP/2 answers.
\<close>

datatype in_tunnel_provider =
  Http2InTunnelProvider http2_in_config
| PlugHttp2InTunnelProvider plug_http2_in_config
| QuicInTunnelProvider quic_in_config

fun resolve_stun_servers :: "(string \<Rightarrow> socket_addr list result) \<Rightarrow> string list \<Rightarrow> socket_addr list result" where
  "resolve_stun_servers lookup_host [] = Inr []"
| "resolve_stun_servers lookup_host (address # addresses) =
     (case lookup_host address of
        Inl e \<Rightarrow> Inl e
      | Inr found \<Rightarrow> map_sum id (\<lambda>rest. found @ rest) (resolve_stun_servers lookup_host addresses))"

definition in_tunnel_providers ::
  "(string \<Rightarrow> unit result) \<Rightarrow> (string \<Rightarrow> socket_addr list result) \<Rightarrow> (socket_addr \<Rightarrow> unit result) \<Rightarrow>
   transparent_proxy_options \<Rightarrow> in_tunnel_provider list result" where
  "in_tunnel_providers open_client lookup_host bind_listener options =
     (case open_client (redis_client_url (tpo_match_server_config options)) of
        Inl e \<Rightarrow> Inl e
      | Inr _ \<Rightarrow>
     (case resolve_stun_servers lookup_host (tpo_stun_server_addresses options) of
        Inl e \<Rightarrow> Inl e
      | Inr stun_server_addresses \<Rightarrow>
     (case (if tpo_plug_http2_enabled options then bind_listener (tpo_plug_http2_listen_address options) else Inr ()) of
        Inl e \<Rightarrow> Inl e
      | Inr _ \<Rightarrow>
          Inr ((if tpo_http2_enabled options
          then [Http2InTunnelProvider \<lparr> h2c_connections = tpo_http2_connections options,
            h2c_priority = tpo_http2_priority options, h2c_priority_default = tpo_http2_priority_default options,
            h2c_traffic_mark = tpo_traffic_mark options \<rparr>] else []) @
         (if tpo_plug_http2_enabled options
          then [PlugHttp2InTunnelProvider \<lparr> phc_listen_address = tpo_plug_http2_listen_address options,
            phc_external_port = tpo_plug_http2_external_port options,
            phc_connections = tpo_plug_http2_connections options,
            phc_priority = tpo_plug_http2_priority options,
            phc_priority_default = tpo_plug_http2_priority_default options,
            phc_stun_server_addresses = stun_server_addresses,
            phc_traffic_mark = tpo_traffic_mark options \<rparr>] else []) @
         (if tpo_quic_enabled options
          then [QuicInTunnelProvider \<lparr> qc_priority = tpo_quic_priority options,
            qc_priority_default = tpo_quic_priority_default options,
            qc_stun_server_addresses = stun_server_addresses,
            qc_traffic_mark = tpo_traffic_mark options \<rparr>] else [])))))"

section \<open>Starting OUT\<close>

record out_tunneling_config =
  otc_label :: "label one_or_many option"
  otc_stun_server :: "string one_or_many option"
  otc_match_server :: match_server_url_or_config
  otc_http2_priority :: "i64 option"
  otc_plug_http2_priority :: "i64 option"
  otc_quic_priority :: "i64 option"

record out_config =
  otc_tunneling :: out_tunneling_config
  otc_outputs :: "out_output_config list"
  otc_routing_priority :: i64
  otc_routing_rules :: "out_rule_config list"

text \<open>A configuration whose outputs, routing section and sections of tunnels may be absent.\<close>

definition de_out_config ::
  "out_tunneling_config \<Rightarrow> out_output_config list option \<Rightarrow> (i64 option \<times> out_rule_config list option) option \<Rightarrow>
   out_config" where
  "de_out_config tunneling outputs routing =
     (let (priority, rules) = unwrap_or routing (None, None)
      in \<lparr> otc_tunneling = tunneling, otc_outputs = unwrap_or outputs [],
           otc_routing_priority = unwrap_or priority 0, otc_routing_rules = unwrap_or rules [] \<rparr>)"

record out_options =
  oo_labels :: "label list"
  oo_stun_server_addresses :: "string list"
  oo_match_server_config :: match_server_config
  oo_http2_priority :: "i64 option"
  oo_plug_http2_priority :: "i64 option"
  oo_quic_priority :: "i64 option"
  oo_routing_rules :: "out_rule_config list"
  oo_routing_priority :: i64
  oo_output_configs :: "out_output_config list"

definition main_out :: "(string \<Rightarrow> string option) \<Rightarrow> out_config \<Rightarrow> out_options option" where
  "main_out scheme config =
     (let tunneling = otc_tunneling config in
      map_option (\<lambda>match_server.
        \<lparr> oo_labels = (case otc_label tunneling of None \<Rightarrow> [] | Some l \<Rightarrow> into_vec l),
          oo_stun_server_addresses =
            (case otc_stun_server tunneling of None \<Rightarrow> stun_server_addresses_default | Some s \<Rightarrow> into_vec s),
          oo_match_server_config = match_server,
          oo_http2_priority = otc_http2_priority tunneling,
          oo_plug_http2_priority = otc_plug_http2_priority tunneling,
          oo_quic_priority = otc_quic_priority tunneling,
          oo_routing_rules = otc_routing_rules config,
          oo_routing_priority = otc_routing_priority config,
          oo_output_configs = otc_outputs config \<rparr>)
        (into_config scheme (otc_match_server tunneling)))"

text \<open>
  The three providers that \<open>out::up\<close> creates: name of the protocol, STUN servers where it asks any,
  priority, and the routing part they announce. A STUN server that does not resolve is skipped.
\<close>

record out_tunnel_provider =
  op_tunnel_name :: string
  op_stun_server_addresses :: "socket_addr list"
  op_priority :: "i64 option"
  op_routing_priority :: i64
  op_routing_rules :: "out_rule_config list"

definition out_tunnel_providers ::
  "(string \<Rightarrow> socket_addr list result) \<Rightarrow> out_options \<Rightarrow> out_tunnel_provider list" where
  "out_tunnel_providers lookup_host options =
     (let stun_server_addresses =
        concat (map (\<lambda>address. case lookup_host address of Inl _ \<Rightarrow> [] | Inr found \<Rightarrow> found) (oo_stun_server_addresses options))
      in [\<lparr> op_tunnel_name = ''http2'', op_stun_server_addresses = stun_server_addresses,
            op_priority = oo_http2_priority options, op_routing_priority = oo_routing_priority options,
            op_routing_rules = oo_routing_rules options \<rparr>,
          \<lparr> op_tunnel_name = ''plug-http2'', op_stun_server_addresses = [],
            op_priority = oo_plug_http2_priority options, op_routing_priority = oo_routing_priority options,
            op_routing_rules = oo_routing_rules options \<rparr>,
          \<lparr> op_tunnel_name = ''quic'', op_stun_server_addresses = stun_server_addresses,
            op_priority = oo_quic_priority options, op_routing_priority = oo_routing_priority options,
            op_routing_rules = oo_routing_rules options \<rparr>])"

section \<open>Properties\<close>

text \<open>An IN and an OUT configured with the same key, or both without one, read what the other sends.\<close>

theorem match_servers_share_key:
  assumes "\<forall>key. cipher_law (aes key)" and "json_law to_json from_json" and "rms_key c = rms_key c'"
    and "new_in_match_server open_client aes in_id (Redis c) = Inr (in_server, in_cipher)"
    and "new_out_match_server open_client aes out_id (Redis c') labels = Inr (out_server, out_cipher)"
    and "sends in_cipher to_json x payload \<or> sends out_cipher to_json x payload"
  shows "receive in_cipher from_json payload = Some (Inr x) \<and> receive out_cipher from_json payload = Some (Inr x)"
proof -
  have same: "in_cipher = out_cipher" and "pred_option cipher_law out_cipher"
    using assms(1,3-5)
    by (auto simp: new_in_match_server_def new_out_match_server_def create_cipher_def option.pred_set option.set_map
        split: sum.splits)
  then show ?thesis using assms(2,6) by (auto simp: json_law_def intro: receive_sends)
qed

theorem match_servers_share_key_witness:
  "receive (create_cipher (\<lambda>_. example_cipher) (Some ''k'')) (\<lambda>bs. Inr bs)
     (encrypt (create_cipher (\<lambda>_. example_cipher) (Some ''k'')) (replicate 12 7) [1]) = Some (Inr [1])"
proof -
  let ?c = "\<lparr> rms_url = ''redis://h'', rms_key = Some ''k'' \<rparr>" and ?cipher = "create_cipher (\<lambda>_. example_cipher) (Some ''k'')"
  have "new_in_match_server (\<lambda>_. Inr ()) (\<lambda>_. example_cipher) (MatchInId 1) (Redis ?c) = Inr (\<lparr> rims_id = MatchInId 1 \<rparr>, ?cipher)"
    "new_out_match_server (\<lambda>_. Inr ()) (\<lambda>_. example_cipher) (MatchOutId 2) (Redis ?c) [] =
       Inr (\<lparr> roms_id = MatchOutId 2, roms_labels = [] \<rparr>, ?cipher)"
    by (simp_all add: new_in_match_server_def new_out_match_server_def)
  moreover have "\<forall>key :: string. cipher_law example_cipher" by (simp add: cipher_law_def example_cipher_def)
  moreover have "json_law Inr Inr" by (simp add: json_law_def reads_back_def)
  moreover have "sends ?cipher Inr [1] (encrypt ?cipher (replicate 12 7) [1])"
    unfolding sends_def by (intro exI [of _ "[1]"] exI [of _ "replicate 12 7"]) simp
  ultimately show ?thesis using match_servers_share_key [of "\<lambda>_. example_cipher" Inr Inr ?c ?c] by blast
qed

lemmas default_section_defs = fake_ip_dns_default_def transparent_proxy_default_def
  tunneling_http2_default_def tunneling_plug_http2_default_def tunneling_quic_default_def
  routing_geolite2_default_def routing_default_def

lemmas constant_defs = data_dir_default_def fake_ip_dns_db_path_default_def geolite2_cache_path_default_def
  transparent_proxy_traffic_mark_default_def tunneling_plug_http2_listen_address_default_def
  tunneling_plug_http2_connections_default_def tunneling_plug_http2_priority_default_def
  tunneling_quic_priority_default_def

lemmas start_constant_defs = dns_server_addresses_default_def fake_ip_dns_address_default_def
  transparent_proxy_address_default_def stun_server_addresses_default_def tunneling_http2_connections_default_def
  tunneling_http2_priority_default_def geolite2_url_default_def geolite2_update_interval_default_def
  in_routing_rules_default_def

text \<open>The defaults written twice agree: the \<open>Default\<close> instance of every section, taken when
  the section is absent, is what its field defaults give for an empty section.\<close>

theorem absent_section_is_empty_section:
  "fake_ip_dns_default = de_fake_ip_dns None \<and>
   transparent_proxy_default = de_transparent_proxy None None \<and>
   tunneling_http2_default = de_tunneling_http2 None None None \<and>
   tunneling_plug_http2_default = de_tunneling_plug_http2 None None None None None \<and>
   tunneling_quic_default = de_tunneling_quic None None \<and>
   routing_geolite2_default = de_routing_geolite2 None None \<and>
   routing_default = de_routing None None \<and>
   de_out_config tunneling outputs None = de_out_config tunneling outputs (Some (None, None))"
  by (simp add: default_section_defs de_fake_ip_dns_def de_transparent_proxy_def de_tunneling_http2_def
      de_tunneling_plug_http2_def de_tunneling_quic_def de_routing_geolite2_def de_routing_def de_out_config_def)

lemma main_panics_iff:
  "(main_in scheme parse_duration data_dir config = None \<longleftrightarrow>
      into_config scheme (itc_match_server (inc_tunneling config)) = None \<or>
      (\<exists>d. rgc_update_interval (irc_geolite2 (inc_routing config)) = Some d \<and> parse_duration d = None)) \<and>
   (main_out scheme oconfig = None \<longleftrightarrow> into_config scheme (otc_match_server (otc_tunneling oconfig)) = None)"
  by (auto simp: main_in_def main_out_def Let_def bind_eq_None_conv split: option.splits)

lemma into_config_panics_iff:
  "into_config scheme m = None \<longleftrightarrow>
     (\<exists>url. m = Url url \<and> scheme url \<noteq> Some ''redis'' \<and> scheme url \<noteq> Some ''rediss'')"
  by (cases m) (auto split: option.splits)

text \<open>The directory of the command line is used for the files and not created.\<close>

lemma created_dir_ignores_data_dir:
  assumes "main_in scheme parse_duration (Some d) config = Some start" and "d \<noteq> data_dir_default"
  shows "fst (snd (is_fake_ip_dns start)) = d" "fst (tpo_geolite2_cache_path (is_transparent_proxy start)) = d"
    "is_created_dir start \<noteq> d"
  using assms
  by (auto simp: main_in_def Let_def bind_eq_Some_conv fake_ip_dns_db_path_default_def geolite2_cache_path_default_def)

lemma direct_router:
  assumes "unique_law lib"
  shows "\<exists>router. router_new lib in_routing_rules_default = Some router \<and>
    (\<forall>address domain codes. router_match lib router address domain codes = [[(BuiltIn Direct, None)]])"
  using iter_unique_distinct [OF assms, of "[[(BuiltIn Direct, None)]]"]
  by (simp add: router_new_def in_routing_rules_default_def router_match_def match_groups_def match_group_step_def
      match_rules_step_def fallback_match_def)

text \<open>
  What a configuration with nothing but the URL of a Redis server is to start with, value by value:
  name servers of Google, the DNS server on 127.0.0.124:53, the proxy on 127.0.0.1:12345 with mark 255,
  plug-HTTP/2 on port 8443, QUIC, no HTTP/2, the files below \<open>.plug2proxy\<close>, one fallback rule and a
  GeoLite2 database that is updated every day.
\<close>

definition minimal_start :: "string \<Rightarrow> in_start" where
  "minimal_start url = \<lparr>
     is_created_dir = ''.plug2proxy'',
     is_dns_servers = [''8.8.8.8'', ''8.8.4.4''],
     is_fake_ip_dns = (SockV4 0x7F00007C 53, (''.plug2proxy'', ''fake_ip_dns.db'')),
     is_transparent_proxy = \<lparr>
       tpo_listen_address = SockV4 0x7F000001 12345, tpo_traffic_mark = 255,
       tpo_fake_ip_dns_db_path = (''.plug2proxy'', ''fake_ip_dns.db''), tpo_fake_nets = default_nets,
       tpo_stun_server_addresses = [''stun.l.google.com:19302'', ''stun.miwifi.com:3478''],
       tpo_match_server_config = Redis \<lparr> rms_url = url, rms_key = None \<rparr>,
       tpo_http2_enabled = False, tpo_http2_connections = 3, tpo_http2_priority = None, tpo_http2_priority_default = 100,
       tpo_plug_http2_enabled = True, tpo_plug_http2_listen_address = SockV4 0 8443, tpo_plug_http2_external_port = None,
       tpo_plug_http2_connections = 3, tpo_plug_http2_priority = None, tpo_plug_http2_priority_default = 100,
       tpo_quic_enabled = True, tpo_quic_priority = None, tpo_quic_priority_default = 101,
       tpo_routing_rules = [InFallback \<lparr> ifall_out = One (BuiltIn Direct), ifall_tag = None \<rparr>],
       tpo_geolite2_cache_path = (''.plug2proxy'', ''geolite2.mmdb''),
       tpo_geolite2_url = ''https://github.com/P3TERX/GeoLite.mmdb/raw/download/GeoLite2-Country.mmdb'',
       tpo_geolite2_update_interval = 86400 \<rparr> \<rparr>"

text \<open>C33: A configuration that only names a Redis server starts, with every option as listed in
  \<open>minimal_start\<close>. Provided the STUN servers resolve and the Redis client and the listener open, it
  offers plug-HTTP/2 with three connections and priority 100 and QUIC with priority 101 but no HTTP/2,
  and until an OUT announces rules every connection is routed \<open>DIRECT\<close> and goes out directly,
  whatever is queried.\<close>

theorem minimal_configuration_direct:
  assumes "scheme url = Some ''redis'' \<or> scheme url = Some ''rediss''" and "unique_law lib"
    and "lookup_host ''stun.l.google.com:19302'' = Inr google" and "lookup_host ''stun.miwifi.com:3478'' = Inr miwifi"
    and "open_client (url @ ''?protocol=resp3'') = Inr ()" and "bind_listener (SockV4 0 8443) = Inr ()"
  shows "main_in scheme parse_duration None (de_in_config None None None (de_in_tunneling None (Url url) None None None) None) =
       Some (minimal_start url) \<and>
     in_tunnel_providers open_client lookup_host bind_listener (is_transparent_proxy (minimal_start url)) =
       Inr [PlugHttp2InTunnelProvider \<lparr> phc_listen_address = SockV4 0 8443, phc_external_port = None,
              phc_connections = 3, phc_priority = None, phc_priority_default = 100,
              phc_stun_server_addresses = google @ miwifi, phc_traffic_mark = 255 \<rparr>,
            QuicInTunnelProvider \<lparr> qc_priority = None, qc_priority_default = 101,
              qc_stun_server_addresses = google @ miwifi, qc_traffic_mark = 255 \<rparr>] \<and>
     (\<exists>router. router_new lib (tpo_routing_rules (is_transparent_proxy (minimal_start url))) = Some router \<and>
        (\<forall>address domain codes is_active manager.
           router_match lib router address domain codes = [[(BuiltIn Direct, None)]] \<and>
           fst (select_tunnel is_active manager (router_match lib router address domain codes)) =
             Some (DirectInTunnel, None)))"
proof (intro conjI)
  have "into_config scheme (Url url) = Some (Redis \<lparr> rms_url = url, rms_key = None \<rparr>)"
    using assms(1) by auto
  then show "main_in scheme parse_duration None (de_in_config None None None (de_in_tunneling None (Url url) None None None) None) =
      Some (minimal_start url)"
    by (simp add: main_in_def de_in_config_def de_in_tunneling_def Let_def minimal_start_def
        default_section_defs constant_defs start_constant_defs)
  show "in_tunnel_providers open_client lookup_host bind_listener (is_transparent_proxy (minimal_start url)) =
      Inr [PlugHttp2InTunnelProvider \<lparr> phc_listen_address = SockV4 0 8443, phc_external_port = None,
             phc_connections = 3, phc_priority = None, phc_priority_default = 100,
             phc_stun_server_addresses = google @ miwifi, phc_traffic_mark = 255 \<rparr>,
           QuicInTunnelProvider \<lparr> qc_priority = None, qc_priority_default = 101,
             qc_stun_server_addresses = google @ miwifi, qc_traffic_mark = 255 \<rparr>]"
    using assms(3-6) by (simp add: minimal_start_def in_tunnel_providers_def redis_client_url_def)
  obtain router where "router_new lib in_routing_rules_default = Some router"
      "\<forall>address domain codes. router_match lib router address domain codes = [[(BuiltIn Direct, None)]]"
    using direct_router [OF assms(2)] by blast
  moreover have "fst (select_tunnel is_active manager [[(BuiltIn Direct, None)]]) = Some (DirectInTunnel, None)"
    for is_active manager
    by (simp add: select_tunnel_def)
  ultimately show "\<exists>router. router_new lib (tpo_routing_rules (is_transparent_proxy (minimal_start url))) = Some router \<and>
      (\<forall>address domain codes is_active manager.
         router_match lib router address domain codes = [[(BuiltIn Direct, None)]] \<and>
         fst (select_tunnel is_active manager (router_match lib router address domain codes)) = Some (DirectInTunnel, None))"
    by (simp add: minimal_start_def in_routing_rules_default_def)
qed

theorem minimal_configuration_direct_witness:
  "main_in (\<lambda>_. Some ''redis'') (\<lambda>_. None) None
       (de_in_config None None None (de_in_tunneling None (Url ''redis://r'') None None None) None) =
       Some (minimal_start ''redis://r'') \<and>
     in_tunnel_providers (\<lambda>_. Inr ()) (\<lambda>_. Inr [SockV4 1 3478]) (\<lambda>_. Inr ()) (is_transparent_proxy (minimal_start ''redis://r'')) =
       Inr [PlugHttp2InTunnelProvider \<lparr> phc_listen_address = SockV4 0 8443, phc_external_port = None,
              phc_connections = 3, phc_priority = None, phc_priority_default = 100,
              phc_stun_server_addresses = [SockV4 1 3478] @ [SockV4 1 3478], phc_traffic_mark = 255 \<rparr>,
            QuicInTunnelProvider \<lparr> qc_priority = None, qc_priority_default = 101,
              qc_stun_server_addresses = [SockV4 1 3478] @ [SockV4 1 3478], qc_traffic_mark = 255 \<rparr>] \<and>
     (\<exists>router. router_new host_lib (tpo_routing_rules (is_transparent_proxy (minimal_start ''redis://r''))) = Some router \<and>
        (\<forall>address domain codes is_active manager.
           router_match host_lib router address domain codes = [[(BuiltIn Direct, None)]] \<and>
           fst (select_tunnel is_active manager (router_match host_lib router address domain codes)) =
             Some (DirectInTunnel, None)))"
  by (rule minimal_configuration_direct) simp_all

end
