(* ===== verification/Udp_Receive.thy ===== *)
theory Udp_Receive
  imports Net
begin

text \<open>
  Receiving a datagram with its source and its original destination
  (\<open>src/lib/utils/net/socket/shadowsocks_rust/mod.rs\<close>). The system is a parameter: what waiting for
  the socket and \<open>recvmsg\<close> answer, a received message being its octets, its source address and the
  control messages of its header. \<open>as_socket\<close> is \<open>socket2::SockAddr::as_socket\<close>.
\<close>

section \<open>Messages\<close>

record control_message =
  cmsg_level :: nat
  cmsg_type :: nat
  cmsg_data :: "u8 list"

record received_message =
  rm_bytes :: "u8 list"
  rm_name :: "u8 list"
  rm_control :: "control_message list"

definition sol_ip :: nat where "sol_ip = 0"
definition ip_recvorigdstaddr :: nat where "ip_recvorigdstaddr = 20"
definition sol_ipv6 :: nat where "sol_ipv6 = 41"
definition ipv6_recvorigdstaddr :: nat where "ipv6_recvorigdstaddr = 74"

text \<open>The sizes of \<open>sockaddr_in\<close> and \<open>sockaddr_in6\<close>.\<close>

definition sockaddr_in_size :: nat where "sockaddr_in_size = 16"
definition sockaddr_in6_size :: nat where "sockaddr_in6_size = 28"

section \<open>The original destination\<close>

text \<open>The loop over the control messages; the first with a destination is copied and ends it.\<close>

fun find_destination :: "control_message list \<Rightarrow> u8 list option" where
  "find_destination [] = None"
| "find_destination (m # ms) =
     (if cmsg_level m = sol_ip \<and> cmsg_type m = ip_recvorigdstaddr then Some (take sockaddr_in_size (cmsg_data m))
      else if cmsg_level m = sol_ipv6 \<and> cmsg_type m = ipv6_recvorigdstaddr
      then Some (take sockaddr_in6_size (cmsg_data m))
      else find_destination ms)"

text \<open>\<^const>\<open>None\<close> when the copied address has another family and is unwrapped.\<close>

definition get_destination ::
  "(u8 list \<Rightarrow> socket_addr option) \<Rightarrow> control_message list \<Rightarrow> socket_addr result option" where
  "get_destination as_socket ms =
     (case find_destination ms of
        None \<Rightarrow> Some (Inl (Msg ''missing destination address in msghdr''))
      | Some address \<Rightarrow> map_option Inr (as_socket address))"

section \<open>Receiving\<close>

datatype recv_answer = RecvWouldBlock | RecvFailure error | RecvMessage received_message

definition receive_once ::
  "(u8 list \<Rightarrow> socket_addr option) \<Rightarrow> received_message \<Rightarrow> (nat \<times> socket_addr \<times> socket_addr) result option" where
  "receive_once as_socket message =
     (case as_socket (rm_name message) of
        None \<Rightarrow> Some (Inl (Msg ''failed to convert SockAddr to SocketAddr.''))
      | Some source \<Rightarrow>
          map_option (map_sum id (\<lambda>destination. (length (rm_bytes message), source, destination)))
            (get_destination as_socket (rm_control message)))"

text \<open>
  The loop: a round waits until the socket is readable, which may fail, and calls \<open>recvmsg\<close>; without
  a message it waits again. \<^const>\<open>None\<close> while it waits, or after a panic.
\<close>

fun receive_udp ::
  "(u8 list \<Rightarrow> socket_addr option) \<Rightarrow> (error + recv_answer) list \<Rightarrow>
   (nat \<times> socket_addr \<times> socket_addr) result option" where
  "receive_udp as_socket [] = None"
| "receive_udp as_socket (Inl e # rounds) = Some (Inl e)"
| "receive_udp as_socket (Inr RecvWouldBlock # rounds) = receive_udp as_socket rounds"
| "receive_udp as_socket (Inr (RecvFailure e) # rounds) = Some (Inl e)"
| "receive_udp as_socket (Inr (RecvMessage message) # rounds) = receive_once as_socket message"

section \<open>Properties\<close>

text \<open>The documented behaviour of addresses: the kernel's encoding is read back.\<close>

definition sockaddr_law :: "(u8 list \<Rightarrow> socket_addr option) \<Rightarrow> (socket_addr \<Rightarrow> u8 list) \<Rightarrow> bool" where
  "sockaddr_law as_socket encode \<longleftrightarrow>
     (\<forall>a. as_socket (encode a) = Some a \<and>
        length (encode a) = (case a of SockV4 _ _ \<Rightarrow> sockaddr_in_size | SockV6 _ _ _ _ \<Rightarrow> sockaddr_in6_size))"

definition names_destination :: "control_message \<Rightarrow> bool" where
  "names_destination m \<longleftrightarrow> cmsg_level m = sol_ip \<and> cmsg_type m = ip_recvorigdstaddr \<or>
     cmsg_level m = sol_ipv6 \<and> cmsg_type m = ipv6_recvorigdstaddr"

fun destination_message :: "(socket_addr \<Rightarrow> u8 list) \<Rightarrow> socket_addr \<Rightarrow> control_message" where
  "destination_message encode (SockV4 ip port) =
     \<lparr> cmsg_level = sol_ip, cmsg_type = ip_recvorigdstaddr, cmsg_data = encode (SockV4 ip port) \<rparr>"
| "destination_message encode (SockV6 ip port flow scope) =
     \<lparr> cmsg_level = sol_ipv6, cmsg_type = ipv6_recvorigdstaddr, cmsg_data = encode (SockV6 ip port flow scope) \<rparr>"

lemma find_destination_None_iff: "find_destination ms = None \<longleftrightarrow> (\<forall>m \<in> set ms. \<not> names_destination m)"
  by (induction ms) (auto simp: names_destination_def)

lemma find_destination_skip:
  "\<forall>m \<in> set ms. \<not> names_destination m \<Longrightarrow> find_destination (ms @ ms') = find_destination ms'"
  by (induction ms) (auto simp: names_destination_def)

lemma find_destination_message:
  assumes "sockaddr_law as_socket encode"
  shows "find_destination (destination_message encode a # ms) = Some (encode a)"
proof -
  have "length (encode a) = (case a of SockV4 _ _ \<Rightarrow> sockaddr_in_size | SockV6 _ _ _ _ \<Rightarrow> sockaddr_in6_size)"
    using assms by (simp add: sockaddr_law_def)
  then show ?thesis by (cases a) (simp_all add: sol_ip_def sol_ipv6_def)
qed

lemma receive_udp_waits: "receive_udp as_socket (replicate n (Inr RecvWouldBlock) @ rounds) = receive_udp as_socket rounds"
  by (induction n) simp_all

text \<open>However often the socket turns out not to be readable, a datagram is received with its source
  and the original destination that the kernel put among other control messages; a datagram without
  one is an error and nothing is taken for its destination.\<close>

theorem datagram_received_with_destination:
  assumes "sockaddr_law as_socket encode" and "\<forall>m \<in> set others. \<not> names_destination m"
  shows "receive_udp as_socket (replicate n (Inr RecvWouldBlock) @ Inr (RecvMessage
       \<lparr> rm_bytes = bytes, rm_name = encode source,
         rm_control = others @ destination_message encode destination # after \<rparr>) # rounds) =
     Some (Inr (length bytes, source, destination)) \<and>
   receive_udp as_socket (replicate n (Inr RecvWouldBlock) @ Inr (RecvMessage
       \<lparr> rm_bytes = bytes, rm_name = encode source, rm_control = others \<rparr>) # rounds) =
     Some (Inl (Msg ''missing destination address in msghdr''))"
proof -
  have "find_destination (others @ destination_message encode destination # after) = Some (encode destination)"
    using find_destination_skip [OF assms(2)] find_destination_message [OF assms(1)] by simp
  moreover have "find_destination others = None" using assms(2) by (simp add: find_destination_None_iff)
  moreover have "as_socket (encode a) = Some a" for a using assms(1) by (simp add: sockaddr_law_def)
  ultimately show ?thesis by (simp add: receive_udp_waits receive_once_def get_destination_def)
qed

text \<open>The encodings of the kernel for one machine: family, port, then the rest, network order.\<close>

fun example_encode :: "socket_addr \<Rightarrow> u8 list" where
  "example_encode (SockV4 ip port) = [2, 0] @ be_bytes 2 port @ be_bytes 4 ip @ replicate 8 0"
| "example_encode (SockV6 ip port flow scope) =
     [10, 0] @ be_bytes 2 port @ be_bytes 4 flow @ be_bytes 16 ip @ be_bytes 4 scope"

definition example_as_socket :: "u8 list \<Rightarrow> socket_addr option" where
  "example_as_socket bs =
     (let field = (\<lambda>i n. take n (drop i bs)) in
      if field 0 2 = [2, 0] then Some (SockV4 (from_be (field 4 4)) (from_be (field 2 2)))
      else if field 0 2 = [10, 0]
      then Some (SockV6 (from_be (field 8 16)) (from_be (field 2 2)) (from_be (field 4 4)) (from_be (field 24 4)))
      else None)"

lemma example_sockaddr_law: "sockaddr_law example_as_socket example_encode"
proof -
  have "example_as_socket (example_encode a) = Some a \<and>
      length (example_encode a) = (case a of SockV4 _ _ \<Rightarrow> sockaddr_in_size | SockV6 _ _ _ _ \<Rightarrow> sockaddr_in6_size)" for a
    by (cases a) (simp_all add: example_as_socket_def sockaddr_in_size_def sockaddr_in6_size_def Let_def
        del: be_bytes.simps)
  then show ?thesis by (simp add: sockaddr_law_def)
qed

theorem datagram_received_with_destination_witness:
  "receive_udp example_as_socket (replicate 2 (Inr RecvWouldBlock) @ Inr (RecvMessage
       \<lparr> rm_bytes = [1, 2, 3], rm_name = example_encode (SockV4 5 4000),
         rm_control = [] @ destination_message example_encode (SockV4 0xC6120001 53) # [] \<rparr>) # []) =
     Some (Inr (length [1, 2, 3 :: u8], SockV4 5 4000, SockV4 0xC6120001 53)) \<and>
   receive_udp example_as_socket (replicate 2 (Inr RecvWouldBlock) @ Inr (RecvMessage
       \<lparr> rm_bytes = [1, 2, 3], rm_name = example_encode (SockV4 5 4000), rm_control = [] \<rparr>) # []) =
     Some (Inl (Msg ''missing destination address in msghdr''))"
  by (rule datagram_received_with_destination [OF example_sockaddr_law]) simp

end
