(* ===== verification/End_To_End.thy ===== *)
theory End_To_End
  imports Transparent_Proxy Http2_Tunnel
begin

text \<open>
  A proxied TCP connection from end to end: the IN resolves and sniffs
  (\<open>src/lib/in/transparent_proxy.rs\<close>), connects through a tunnel and copies
  (\<open>src/lib/utils/io.rs\<close>), the OUT accepts the stream, connects to the destination and copies
  (\<open>src/lib/out/out.rs\<close>). What both ends need of the tunnel between them is the locale
  \<open>stream_transport\<close>; byte streams (\<open>byte_stream_tunnel.rs\<close>) and HTTP/2 (\<open>http2_tunnel.rs\<close>,
  \<open>compat.rs\<close>) are its two interpretations.
\<close>

section \<open>The contract of a transport\<close>

definition sniffed_bytes :: "u8 list option \<Rightarrow> u8 list" where
  "sniffed_bytes sniff_buffer = (case sniff_buffer of None \<Rightarrow> [] | Some buffer \<Rightarrow> buffer)"

text \<open>
  \<open>carries d sniff copied whole d' arrived\<close>: connecting to \<open>d\<close> with the sniffed bytes succeeds, then
  \<open>copied\<close> is written, and the other end accepts a stream to \<open>d'\<close> from which \<open>arrived\<close> can be read;
  \<open>whole\<close> when the stream was not cut short. \<open>carries_back sent whole arrived\<close> is the way back.
\<close>

locale stream_transport =
  fixes carries :: "destination \<Rightarrow> u8 list option \<Rightarrow> u8 list \<Rightarrow> bool \<Rightarrow> destination \<Rightarrow> u8 list \<Rightarrow> bool"
    and carries_back :: "u8 list \<Rightarrow> bool \<Rightarrow> u8 list \<Rightarrow> bool"
    and reads_as :: "destination \<Rightarrow> destination"
    and valid :: "destination \<Rightarrow> bool"
  assumes carries_destination: "carries d sniffed copied whole d' arrived \<Longrightarrow> valid d \<Longrightarrow> d' = reads_as d"
    and carries_prefix: "carries d sniffed copied whole d' arrived \<Longrightarrow> valid d \<Longrightarrow> prefix arrived (sniffed_bytes sniffed @ copied)"
    and carries_whole: "carries d sniffed copied True d' arrived \<Longrightarrow> valid d \<Longrightarrow> arrived = sniffed_bytes sniffed @ copied"
    and back_prefix: "carries_back sent whole arrived \<Longrightarrow> prefix arrived sent"
    and back_whole: "carries_back sent True arrived \<Longrightarrow> arrived = sent"

lemma copied_prefix:
  assumes "prefix (d_read (cp_a_b (copy_bidirectional e ts))) bs"
  shows "prefix (d_written (cp_a_b (copy_bidirectional e ts))) bs"
  using copy_directions_ok(1) [of e ts] assms prefix_order.trans unfolding direction_ok_def by blast

lemma copied_back_prefix:
  assumes "prefix (d_read (cp_b_a (copy_bidirectional e ts))) bs"
  shows "prefix (d_written (cp_b_a (copy_bidirectional e ts))) bs"
  using copy_directions_ok(2) [of e ts] assms prefix_order.trans unfolding direction_ok_def by blast

lemma copied_all:
  assumes "cp_result (copy_bidirectional e ts) = Some (Inr ())"
  shows "d_written (cp_a_b (copy_bidirectional e ts)) = d_read (cp_a_b (copy_bidirectional e ts))"
    "d_written (cp_b_a (copy_bidirectional e ts)) = d_read (cp_b_a (copy_bidirectional e ts))"
  using assms copy_directions_ok [of e ts] copy_result_join [of e ts]
  by (auto simp: direction_ok_def join_result_def split: option.splits sum.splits)

lemma handle_tcp_stream_Inr:
  assumes "handle_tcp_stream sys socks lookup_host a n output steps = Inr (address, c)"
  shows "c = copy_bidirectional False steps \<and> stream_address lookup_host a n = Inr address \<and>
    output_connect sys socks output address = Inr ()"
  using assms by (auto simp: handle_tcp_stream_def split: sum.splits)

context stream_transport
begin

lemma request_delivered:
  assumes r: "resolve_tcp_destination px destination answers = Some (r, left)" "rs_destination r = Some d"
    and valid: "valid (d, rs_name r, tag)"
    and c: "c = copy_bidirectional (rs_end r) steps" "prefix (d_read (cp_a_b c)) (stream_bytes left)"
    and carried: "carries (d, rs_name r, tag) (rs_sniff_buffer r) (d_written (cp_a_b c)) whole (a', n', t') arrived"
    and out: "handle_tcp_stream sys socks lookup_host a' n' (choose_output m t') out_steps = Inr (address, oc)"
      "prefix (d_read (cp_a_b oc)) arrived"
  shows "(a', n', t') = reads_as (d, rs_name r, tag) \<and> stream_address lookup_host a' n' = Inr address \<and>
    output_connect sys socks (choose_output m t') address = Inr () \<and>
    prefix (d_written (cp_a_b oc)) (stream_bytes answers) \<and>
    (whole \<and> d_read (cp_a_b c) = stream_bytes left \<and> cp_result c = Some (Inr ()) \<and>
      d_read (cp_a_b oc) = arrived \<and> cp_result oc = Some (Inr ()) \<longrightarrow>
      d_written (cp_a_b oc) = stream_bytes answers)"
proof -
  have bytes: "sniffed_bytes (rs_sniff_buffer r) @ stream_bytes left = stream_bytes answers"
    using resolve_tcp_destination_cases [OF r] unfolding sniffed_bytes_def by blast
  have oc: "oc = copy_bidirectional False out_steps"
    and rest: "stream_address lookup_host a' n' = Inr address" "output_connect sys socks (choose_output m t') address = Inr ()"
    using handle_tcp_stream_Inr [OF out(1)] by simp_all
  have "prefix (d_written (cp_a_b c)) (stream_bytes left)" using c(2) unfolding c(1) by (rule copied_prefix)
  then have "prefix (sniffed_bytes (rs_sniff_buffer r) @ d_written (cp_a_b c)) (stream_bytes answers)"
    unfolding bytes [symmetric] by simp
  then have "prefix arrived (stream_bytes answers)"
    using carries_prefix [OF carried valid] prefix_order.trans by blast
  moreover have "prefix (d_written (cp_a_b oc)) arrived" using out(2) unfolding oc by (rule copied_prefix)
  ultimately have "prefix (d_written (cp_a_b oc)) (stream_bytes answers)" by (rule prefix_order.trans [rotated])
  moreover have "d_written (cp_a_b oc) = stream_bytes answers"
    if all: "whole" "d_read (cp_a_b c) = stream_bytes left" "cp_result c = Some (Inr ())"
      "d_read (cp_a_b oc) = arrived" "cp_result oc = Some (Inr ())"
  proof -
    have "d_written (cp_a_b c) = stream_bytes left" using all(2,3) copied_all(1) unfolding c(1) by simp
    moreover have "arrived = sniffed_bytes (rs_sniff_buffer r) @ d_written (cp_a_b c)"
      using carried all(1) by (intro carries_whole [OF _ valid]) simp
    moreover have "d_written (cp_a_b oc) = arrived" using all(4,5) copied_all(1) unfolding oc by simp
    ultimately show ?thesis using bytes by simp
  qed
  ultimately show ?thesis using carries_destination [OF carried valid] rest by blast
qed

lemma response_delivered:
  assumes c: "c = copy_bidirectional e steps" and out: "oc = copy_bidirectional e' out_steps"
    and carried: "carries_back (d_written (cp_b_a oc)) whole arrived" and "prefix (d_read (cp_b_a c)) arrived"
  shows "prefix (d_written (cp_b_a c)) (d_read (cp_b_a oc)) \<and>
    (whole \<and> d_read (cp_b_a c) = arrived \<and> cp_result c = Some (Inr ()) \<and> cp_result oc = Some (Inr ()) \<longrightarrow>
      d_written (cp_b_a c) = d_read (cp_b_a oc))"
proof -
  have "prefix (d_written (cp_b_a c)) arrived" using assms(4) unfolding c by (rule copied_back_prefix)
  moreover have "prefix arrived (d_written (cp_b_a oc))" by (rule back_prefix [OF carried])
  moreover have "prefix (d_written (cp_b_a oc)) (d_read (cp_b_a oc))"
    using copied_back_prefix [of e' out_steps] unfolding out by simp
  ultimately have "prefix (d_written (cp_b_a c)) (d_read (cp_b_a oc))" by (meson prefix_order.trans)
  then show ?thesis
    using copied_all(2) back_whole carried unfolding c out by metis
qed

end

section \<open>The two transports\<close>

text \<open>Over a byte stream the head goes first; what the OUT can read is a prefix of what the IN wrote.\<close>

definition bs_carries :: "destination \<Rightarrow> u8 list option \<Rightarrow> u8 list \<Rightarrow> bool \<Rightarrow> destination \<Rightarrow> u8 list \<Rightarrow> bool" where
  "bs_carries d sniff_buffer copied whole d' arrived \<longleftrightarrow>
     (\<exists>write_answer partial written seen.
        bs_connect (Inr ()) write_answer partial d sniff_buffer = (Some written, Inr ()) \<and>
        prefix seen (written @ copied) \<and> (whole \<longrightarrow> seen = written @ copied) \<and>
        bs_accept seen = Inr (d', arrived))"

definition bs_carries_back :: "u8 list \<Rightarrow> bool \<Rightarrow> u8 list \<Rightarrow> bool" where
  "bs_carries_back sent whole arrived \<longleftrightarrow> prefix arrived sent \<and> (whole \<longrightarrow> arrived = sent)"

lemma bs_carries_reads:
  assumes "bs_carries d sniff_buffer copied whole d' arrived" and v: "valid_destination d"
  shows "d' = canon_destination d \<and> prefix arrived (sniffed_bytes sniff_buffer @ copied) \<and>
    (whole \<longrightarrow> arrived = sniffed_bytes sniff_buffer @ copied)"
proof -
  obtain write_answer partial written seen where w: "bs_connect (Inr ()) write_answer partial d sniff_buffer = (Some written, Inr ())"
    and seen: "prefix seen (written @ copied)" "whole \<longrightarrow> seen = written @ copied" "bs_accept seen = Inr (d', arrived)"
    using assms(1) by (auto simp: bs_carries_def)
  obtain head where head: "encode_head d = Inr head" "written = head @ sniffed_bytes sniff_buffer"
    using bs_connect_written [OF w] unfolding sniffed_bytes_def by blast
  have "prefix seen head \<or> prefix head seen"
    using seen(1) unfolding head(2) by (intro prefix_same_cases [of _ "head @ sniffed_bytes sniff_buffer @ copied"]) simp_all
  then consider rest where "seen = head @ rest" | "prefix seen head" "length seen < length head"
    by (metis le_neq_implies_less prefixE prefix_length_le append_eq_conv_conj append.right_neutral prefix_order.refl prefix_length_prefix)
  then show ?thesis
  proof cases
    case 1
    then have rest: "prefix rest (sniffed_bytes sniff_buffer @ copied)" using seen(1) head(2) by simp
    have "d' = canon_destination d \<and> arrived = rest"
      using seen(3) head.decode_encode [OF v head(1), of rest] 1 by simp
    then show ?thesis using rest seen(2) head(2) 1 by auto
  next
    case 2
    then have "seen = take (length seen) head" by (auto simp: prefix_def)
    then have "bs_accept seen = Inl UnexpectedEof"
      using head.decode_truncated [OF v head(1) 2(2)] by simp
    then show ?thesis using seen(3) by simp
  qed
qed

interpretation byte_streams: stream_transport bs_carries bs_carries_back canon_destination valid_destination
  by unfold_locales (auto simp: bs_carries_back_def dest!: bs_carries_reads)

text \<open>
  Over HTTP/2 the destination is in the request, and both directions are DATA frames, as the send
  window allows; the other end may have seen only some of them.
\<close>

definition frames_carried :: "u8 list \<Rightarrow> bool \<Rightarrow> bool \<Rightarrow> u8 list \<Rightarrow> bool" where
  "frames_carried sent is_response whole arrived \<longleftrightarrow>
     (\<exists>capacities frames rest seen room.
        write_frames capacities sent = (frames, rest) \<and> prefix seen frames \<and> 0 < room \<and>
        (whole \<longrightarrow> rest = [] \<and> seen = frames) \<and>
        arrived = read_all room seen (recv_async_read_new is_response))"

definition h2_carries ::
  "header_lib \<Rightarrow> destination \<Rightarrow> u8 list option \<Rightarrow> u8 list \<Rightarrow> bool \<Rightarrow> destination \<Rightarrow> u8 list \<Rightarrow> bool" where
  "h2_carries lib d sniff_buffer copied whole d' arrived \<longleftrightarrow>
     (\<exists>send write_answer t request t' tunnel_type out_tunnel.
        h2_connect lib send write_answer d sniff_buffer t = Some (Inr request, t') \<and>
        fst (h2_accept lib tunnel_type (AcceptRequest request (Inr ())) out_tunnel) = Inr d' \<and>
        frames_carried (sniffed_bytes sniff_buffer @ copied) False whole arrived)"

definition h2_reads_as :: "destination \<Rightarrow> destination" where
  "h2_reads_as d = (case d of (a, name, tag) \<Rightarrow> (sa_printed a, visible_text name, visible_text tag))"

lemma frames_carried_prefix:
  assumes "frames_carried sent is_response whole arrived"
  shows "prefix arrived sent \<and> (whole \<longrightarrow> arrived = sent)"
proof -
  obtain capacities frames rest seen room where f: "write_frames capacities sent = (frames, rest)" "prefix seen frames"
    "0 < room" "whole \<longrightarrow> rest = [] \<and> seen = frames" "arrived = read_all room seen (recv_async_read_new is_response)"
    using assms unfolding frames_carried_def by blast
  have bytes: "concat frames @ rest = sent" "[] \<notin> set frames" using write_frames_bytes [OF f(1)] by simp_all
  then have "[] \<notin> set seen" using f(2) by (auto dest: set_mono_prefix)
  then have "arrived = concat seen" using read_all_frames [OF f(3)] f(5) by (simp add: recv_async_read_new_def)
  moreover have "prefix (concat seen) (concat frames)" using f(2) by (auto simp: prefix_def)
  ultimately show ?thesis using bytes(1) f(4) by (auto simp: prefix_def)
qed

lemma h2_carries_reads:
  assumes "h2_carries lib d sniff_buffer copied whole d' arrived" and "header_law lib"
  shows "d' = h2_reads_as d"
proof -
  obtain send write_answer t request t' tunnel_type and out_tunnel where
    "h2_connect lib send write_answer d sniff_buffer t = Some (Inr request, t')"
    and accepted: "fst (h2_accept lib tunnel_type (AcceptRequest request (Inr ())) out_tunnel) = Inr d'"
    using assms(1) by (auto simp: h2_carries_def)
  then have "connect_request lib d = Some request" by (auto elim!: h2_connect_cases)
  then have "fst (h2_accept lib tunnel_type (AcceptRequest request (Inr ())) out_tunnel) = Inr (h2_reads_as d)"
    using h2_accept_request [OF assms(2)] by (cases d) (simp add: h2_reads_as_def)
  then show ?thesis using accepted by simp
qed

interpretation http2_streams: stream_transport "h2_carries lib" "\<lambda>sent. frames_carried sent True" h2_reads_as "\<lambda>_. header_law lib" for lib
proof unfold_locales
  fix d sniff_buffer copied whole d' arrived
  assume carried: "h2_carries lib d sniff_buffer copied whole d' arrived" and law: "header_law lib"
  show "d' = h2_reads_as d" using carried law by (rule h2_carries_reads)
  have "frames_carried (sniffed_bytes sniff_buffer @ copied) False whole arrived"
    using carried by (auto simp: h2_carries_def)
  then show "prefix arrived (sniffed_bytes sniff_buffer @ copied)" using frames_carried_prefix by blast
next
  fix d sniff_buffer copied d' arrived
  assume "h2_carries lib d sniff_buffer copied True d' arrived"
  then have "frames_carried (sniffed_bytes sniff_buffer @ copied) False True arrived" by (auto simp: h2_carries_def)
  then show "arrived = sniffed_bytes sniff_buffer @ copied" using frames_carried_prefix by blast
qed (use frames_carried_prefix in blast)+

section \<open>Properties\<close>

text \<open>C4: A connection proxied over QUIC: the OUT connects where the IN resolved it to (the address, or the
  name looked up again), through the output that the tag names; what it writes there is a prefix of what
  the client sends, sniffed bytes first and once, and what the client gets back is a prefix of what the
  destination answers. When nothing is cut short and both copies succeed, it is all of both.\<close>

theorem quic_connection_end_to_end:
  assumes "resolve_tcp_destination px destination answers = Some (r, left)" and "rs_destination r = Some d"
    and "valid_destination (d, rs_name r, tag)"
    and "c = copy_bidirectional (rs_end r) steps" and "prefix (d_read (cp_a_b c)) (stream_bytes left)"
    and "bs_carries (d, rs_name r, tag) (rs_sniff_buffer r) (d_written (cp_a_b c)) whole (a', n', t') arrived"
    and "handle_tcp_stream sys socks lookup_host a' n' (choose_output m t') out_steps = Inr (address, oc)"
    and "prefix (d_read (cp_a_b oc)) arrived"
    and "bs_carries_back (d_written (cp_b_a oc)) whole back" and "prefix (d_read (cp_b_a c)) back"
  shows "(a', n', t') = canon_destination (d, rs_name r, tag) \<and> stream_address lookup_host a' n' = Inr address \<and>
    output_connect sys socks (choose_output m t') address = Inr () \<and>
    prefix (d_written (cp_a_b oc)) (stream_bytes answers) \<and> prefix (d_written (cp_b_a c)) (d_read (cp_b_a oc)) \<and>
    (whole \<and> d_read (cp_a_b c) = stream_bytes left \<and> d_read (cp_a_b oc) = arrived \<and> d_read (cp_b_a c) = back \<and>
      cp_result c = Some (Inr ()) \<and> cp_result oc = Some (Inr ()) \<longrightarrow>
      d_written (cp_a_b oc) = stream_bytes answers \<and> d_written (cp_b_a c) = d_read (cp_b_a oc))"
proof -
  have oc: "oc = copy_bidirectional False out_steps" using handle_tcp_stream_Inr [OF assms(7)] by simp
  show ?thesis
    using byte_streams.request_delivered [OF assms(1-8)]
      byte_streams.response_delivered [OF assms(4) oc assms(9,10)]
    by blast
qed

lemma example_copy:
  "d_read (cp_a_b (copy_bidirectional False [Inl (Copied up), Inl SourceEnd, Inr (Copied down), Inr SourceEnd])) = up"
  "d_written (cp_a_b (copy_bidirectional False [Inl (Copied up), Inl SourceEnd, Inr (Copied down), Inr SourceEnd])) = up"
  "d_read (cp_b_a (copy_bidirectional False [Inl (Copied up), Inl SourceEnd, Inr (Copied down), Inr SourceEnd])) = down"
  "d_written (cp_b_a (copy_bidirectional False [Inl (Copied up), Inl SourceEnd, Inr (Copied down), Inr SourceEnd])) = down"
  "cp_result (copy_bidirectional False [Inl (Copied up), Inl SourceEnd, Inr (Copied down), Inr SourceEnd]) = Some (Inr ())"
  by (simp_all add: copy_bidirectional_def copy_step_def copy_start_def direction_start_def direction_step_def join_result_def)

lemma example_out_stream:
  "handle_tcp_stream (\<lambda>_. Inr ()) socks (\<lambda>_. Inr []) a name (choose_output [] tag) steps = Inr (a, copy_bidirectional False steps)"
  using run_calls_ok [of "\<lambda>_. Inr ()"]
  by (cases name) (simp_all add: handle_tcp_stream_def stream_address_def choose_output_def direct_output_def local_connect_def)

theorem quic_connection_end_to_end_witness:
  "\<exists>(c :: copying) (oc :: copying). d_written (cp_a_b oc) = stream_bytes example_answers \<and> d_written (cp_b_a c) = [5 :: u8] \<and> d_read (cp_b_a oc) = [5]"
proof -
  let ?up = "[Inl (Copied [99]), Inl SourceEnd, Inr (Copied [5]), Inr SourceEnd]"
  let ?out = "[Inl (Copied [0x16, 3, 1, 1, 97, 98, 99]), Inl SourceEnd, Inr (Copied [5]), Inr SourceEnd]"
  let ?d = "(SockV4 0x01010101 443, Some ''a'', None)"
  have v: "valid_destination ?d"
    by (simp add: valid_destination_def valid_text_def rust_string_def bytes_of_def utf8_width_def)
  have head: "encode_head ?d = Inr [0, 1, 1, 1, 1, 1, 0xBB, 1, 97, 0]"
    by (simp add: encode_head_def encode_text_def be_bytes_2 be_bytes_4 bytes_of_def)
  have carried: "bs_carries ?d (Some [0x16, 3, 1, 1, 97, 98]) [99] True (canon_destination ?d) [0x16, 3, 1, 1, 97, 98, 99]"
    unfolding bs_carries_def
    by (intro exI [of _ "\<lambda>_. Inr ()"] exI [of _ length] exI [of _ "[0, 1, 1, 1, 1, 1, 0xBB, 1, 97, 0, 0x16, 3, 1, 1, 97, 98]"]
        exI [of _ "[0, 1, 1, 1, 1, 1, 0xBB, 1, 97, 0, 0x16, 3, 1, 1, 97, 98, 99]"])
      (use head.decode_encode [OF v head, of "[0x16, 3, 1, 1, 97, 98, 99]"] head in \<open>simp add: bs_connect_def write_all_def\<close>)
  obtain a' n' t' where d': "canon_destination ?d = (a', n', t')" by (cases "canon_destination ?d")
  have r: "rs_destination example_resolution = Some (SockV4 0x01010101 443)"
    "rs_name example_resolution = Some ''a''" "rs_sniff_buffer example_resolution = Some [0x16, 3, 1, 1, 97, 98]"
    "rs_end example_resolution = False"
    by (simp_all add: example_resolution_def)
  have left: "stream_bytes [ReadOk [99]] = [99]" by simp
  have prefixes: "prefix (d_read (cp_a_b (copy_bidirectional (rs_end example_resolution) ?up))) (stream_bytes [ReadOk [99]])"
    "prefix (d_read (cp_a_b (copy_bidirectional False ?out))) [0x16, 3, 1, 1, 97, 98, 99]"
    "bs_carries_back (d_written (cp_b_a (copy_bidirectional False ?out))) True [5]"
    "prefix (d_read (cp_b_a (copy_bidirectional (rs_end example_resolution) ?up))) [5]"
    unfolding r left example_copy by (simp_all add: bs_carries_back_def)
  have carried': "bs_carries (SockV4 0x01010101 443, rs_name example_resolution, None) (rs_sniff_buffer example_resolution)
      (d_written (cp_a_b (copy_bidirectional (rs_end example_resolution) ?up))) True (a', n', t') [0x16, 3, 1, 1, 97, 98, 99]"
    using carried unfolding r example_copy d' .
  have v': "valid_destination (SockV4 0x01010101 443, rs_name example_resolution, None)" using v unfolding r .
  have "d_written (cp_a_b (copy_bidirectional False ?out)) = stream_bytes example_answers \<and>
      d_written (cp_b_a (copy_bidirectional False ?up)) = d_read (cp_b_a (copy_bidirectional False ?out))"
    using quic_connection_end_to_end [OF example_resolve_direct r(1) v' refl prefixes(1) carried' example_out_stream prefixes(2,3,4)]
    unfolding r left example_copy by blast
  from conjunct1 [OF this] show ?thesis
    by (intro exI conjI) (assumption, rule example_copy(4), rule example_copy(3))
qed

text \<open>C5: The same over HTTP/2, whatever windows the flow control grants and however large the readers'
  buffers are: only the destination may lose a name or tag that is not visible ASCII.\<close>

theorem http2_connection_end_to_end:
  assumes "resolve_tcp_destination px destination answers = Some (r, left)" and "rs_destination r = Some d"
    and "header_law lib"
    and "c = copy_bidirectional (rs_end r) steps" and "prefix (d_read (cp_a_b c)) (stream_bytes left)"
    and "h2_carries lib (d, rs_name r, tag) (rs_sniff_buffer r) (d_written (cp_a_b c)) whole (a', n', t') arrived"
    and "handle_tcp_stream sys socks lookup_host a' n' (choose_output m t') out_steps = Inr (address, oc)"
    and "prefix (d_read (cp_a_b oc)) arrived"
    and "(\<lambda>sent. frames_carried sent True) (d_written (cp_b_a oc)) whole back" and "prefix (d_read (cp_b_a c)) back"
  shows "(a', n', t') = h2_reads_as (d, rs_name r, tag) \<and> stream_address lookup_host a' n' = Inr address \<and>
    output_connect sys socks (choose_output m t') address = Inr () \<and>
    prefix (d_written (cp_a_b oc)) (stream_bytes answers) \<and> prefix (d_written (cp_b_a c)) (d_read (cp_b_a oc)) \<and>
    (whole \<and> d_read (cp_a_b c) = stream_bytes left \<and> d_read (cp_a_b oc) = arrived \<and> d_read (cp_b_a c) = back \<and>
      cp_result c = Some (Inr ()) \<and> cp_result oc = Some (Inr ()) \<longrightarrow>
      d_written (cp_a_b oc) = stream_bytes answers \<and> d_written (cp_b_a c) = d_read (cp_b_a oc))"
proof -
  have oc: "oc = copy_bidirectional False out_steps" using handle_tcp_stream_Inr [OF assms(7)] by simp
  show ?thesis
    using http2_streams.request_delivered [OF assms(1-8)]
      http2_streams.response_delivered [OF assms(4) oc assms(9,10)]
    by blast
qed

theorem http2_connection_end_to_end_witness:
  "\<exists>(c :: copying) (oc :: copying). d_written (cp_a_b oc) = stream_bytes example_answers \<and> d_written (cp_b_a c) = [5 :: u8] \<and> d_read (cp_b_a oc) = [5]"
proof -
  let ?up = "[Inl (Copied [99]), Inl SourceEnd, Inr (Copied [5]), Inr SourceEnd]"
  let ?out = "[Inl (Copied [0x16, 3, 1, 1, 97, 98, 99]), Inl SourceEnd, Inr (Copied [5]), Inr SourceEnd]"
  let ?d = "(SockV4 0x01010101 443, Some ''a'', None)"
  let ?request = "\<lparr> rq_address = show_socket_addr (SockV4 0x01010101 443), rq_name = Some ''a'', rq_tag = None \<rparr>"
  have request: "connect_request example_headers ?d = Some ?request"
    using visible_legal [OF show_socket_addr_header, of "SockV4 0x01010101 443"]
    by (simp add: connect_request_def example_headers_def legal_header_char_def)
  have frames: "frames_carried [5] True True [5]"
    unfolding frames_carried_def
    by (intro exI [of _ "[1]"] exI [of _ "[[5]]"] exI [of _ "[]"] exI [of _ 1])
      (simp add: write_frames_step read_all_frames recv_async_read_new_def)
  have up_frames: "frames_carried [0x16, 3, 1, 1, 97, 98, 99] False True [0x16, 3, 1, 1, 97, 98, 99]"
    unfolding frames_carried_def
    by (intro exI [of _ "[7]"] exI [of _ "[[0x16, 3, 1, 1, 97, 98, 99]]"] exI [of _ "[]"] exI [of _ 1])
      (simp add: write_frames_step read_all_frames recv_async_read_new_def)
  obtain t' where connect: "h2_connect example_headers (Inr ()) (\<lambda>_. Inr ()) ?d (Some [0x16, 3, 1, 1, 97, 98])
      (http2_in_tunnel_new example_h2_tunnel) = Some (Inr ?request, t')"
    using request by (simp add: h2_connect_eq http2_in_tunnel_new_def)
  have carried: "h2_carries example_headers ?d (Some [0x16, 3, 1, 1, 97, 98]) [99] True (h2_reads_as ?d) [0x16, 3, 1, 1, 97, 98, 99]"
    unfolding h2_carries_def
    by (intro exI conjI, rule connect)
      (use h2_accept_request [OF example_headers request] up_frames in \<open>simp_all add: h2_reads_as_def sniffed_bytes_def\<close>)
  obtain a' n' tag' where d': "h2_reads_as ?d = (a', n', tag')" by (cases "h2_reads_as ?d")
  have r: "rs_destination example_resolution = Some (SockV4 0x01010101 443)"
    "rs_name example_resolution = Some ''a''" "rs_sniff_buffer example_resolution = Some [0x16, 3, 1, 1, 97, 98]"
    "rs_end example_resolution = False"
    by (simp_all add: example_resolution_def)
  have left: "stream_bytes [ReadOk [99]] = [99]" by simp
  have prefixes: "prefix (d_read (cp_a_b (copy_bidirectional (rs_end example_resolution) ?up))) (stream_bytes [ReadOk [99]])"
    "prefix (d_read (cp_a_b (copy_bidirectional False ?out))) [0x16, 3, 1, 1, 97, 98, 99]"
    "frames_carried (d_written (cp_b_a (copy_bidirectional False ?out))) True True [5]"
    "prefix (d_read (cp_b_a (copy_bidirectional (rs_end example_resolution) ?up))) [5]"
    unfolding r left example_copy by (simp_all add: frames)
  have carried': "h2_carries example_headers (SockV4 0x01010101 443, rs_name example_resolution, None) (rs_sniff_buffer example_resolution)
      (d_written (cp_a_b (copy_bidirectional (rs_end example_resolution) ?up))) True (a', n', tag') [0x16, 3, 1, 1, 97, 98, 99]"
    using carried unfolding r example_copy d' .
  have "d_written (cp_a_b (copy_bidirectional False ?out)) = stream_bytes example_answers \<and>
      d_written (cp_b_a (copy_bidirectional False ?up)) = d_read (cp_b_a (copy_bidirectional False ?out))"
    using http2_connection_end_to_end [OF example_resolve_direct r(1) example_headers refl prefixes(1) carried' example_out_stream prefixes(2,3,4)]
    unfolding r left example_copy by blast
  from conjunct1 [OF this] show ?thesis
    by (intro exI conjI) (assumption, rule example_copy(4), rule example_copy(3))
qed

end
