(* ===== verification/Socket_Setup.thy ===== *)
theory Socket_Setup
  imports Sockets Udp_Forwarder
begin

text \<open>
  The sockets that the program listens on and sends datagrams from, call by call: the listeners of
  the transparent proxy (\<open>src/lib/in/transparent_proxy.rs\<close>) and of the tunnel providers
  (\<open>src/lib/utils/net/miscellaneous.rs\<close>), the sockets of the UDP forwarder
  (\<open>src/lib/in/udp_forwarder.rs\<close>), the socket below a QUIC tunnel and the options of accepted
  streams. The system is the parameter of \<open>Sockets\<close>.
\<close>

section \<open>Listeners\<close>

fun new_datagram :: "socket_addr \<Rightarrow> socket_call" where
  "new_datagram (SockV4 _ _) = NewDatagramV4"
| "new_datagram (SockV6 _ _ _ _) = NewDatagramV6"

text \<open>The listener of \<open>listen_tcp_task\<close>, always an IPv4 socket.\<close>

definition proxy_listener :: "system \<Rightarrow> socket_addr \<Rightarrow> socket_call list \<times> unit result" where
  "proxy_listener sys listen_address =
     run_calls sys
       ([NewSocketV4, SetIpTransparent, SetIpFreebind, SetReuseAddress, SetNodelay] @
        set_keepalive_options 60 10 5 @ [BindAddress listen_address, ListenOn 1024])"

definition bind_tcp_listener_reuseaddr :: "system \<Rightarrow> socket_addr \<Rightarrow> socket_call list \<times> unit result" where
  "bind_tcp_listener_reuseaddr sys address =
     run_calls sys
       [new_socket address, SetReuseAddress, SetNonblocking, BindAddress address, ListenOn 1024, RegisterSocket]"

text \<open>\<open>UdpForwarder::new\<close>; nothing looks at the answer of setting \<open>IP_RECVORIGDSTADDR\<close>.\<close>

definition ignoring :: "socket_call \<Rightarrow> system \<Rightarrow> system" where
  "ignoring call sys = (\<lambda>c. if c = call then Inr () else sys c)"

definition proxy_datagram_socket :: "system \<Rightarrow> socket_addr \<Rightarrow> socket_call list \<times> unit result" where
  "proxy_datagram_socket sys listen_address =
     run_calls (ignoring SetRecvOrigDstAddr sys)
       [new_datagram listen_address, SetReuseAddress, SetIpTransparent, SetNonblocking, SetRecvOrigDstAddr,
        BindAddress listen_address, RegisterSocket]"

section \<open>Sockets for datagrams\<close>

text \<open>The delegate socket of \<open>Association::new\<close>: every call is unwrapped.\<close>

definition delegate_socket :: "system \<Rightarrow> u32 \<Rightarrow> socket_addr \<Rightarrow> socket_call list \<times> socket_answer" where
  "delegate_socket sys traffic_mark source_address =
     (case run_calls sys
         [new_datagram source_address, SetMark traffic_mark, SetNonblocking,
          BindAddress (get_any_address source_address), RegisterSocket] of
        (made, Inl _) \<Rightarrow> (made, SocketPanics)
      | (made, Inr _) \<Rightarrow> (made, SocketBound))"

text \<open>A new socket of \<open>assign_response_socket\<close>: only binding may fail without a panic.\<close>

definition response_socket :: "system \<Rightarrow> u32 \<Rightarrow> socket_addr \<Rightarrow> socket_call list \<times> socket_answer" where
  "response_socket sys traffic_mark original_destination_address =
     (case run_calls sys
         [new_datagram original_destination_address, SetIpTransparent, SetReusePort, SetMark traffic_mark, SetNonblocking] of
        (made, Inl _) \<Rightarrow> (made, SocketPanics)
      | (made, Inr _) \<Rightarrow>
          (case run_calls sys [BindAddress original_destination_address] of
             (bound, Inl e) \<Rightarrow> (made @ bound, BindFails e)
           | (bound, Inr _) \<Rightarrow>
               (case run_calls sys [RegisterSocket] of
                  (registered, Inl _) \<Rightarrow> (made @ bound @ registered, SocketPanics)
                | (registered, Inr _) \<Rightarrow> (made @ bound @ registered, SocketBound))))"

text \<open>The socket below \<open>QuicInTunnelProvider::accept\<close>: it is bound as it is.\<close>

definition quic_tunnel_socket :: "system \<Rightarrow> socket_addr \<Rightarrow> socket_call list \<times> unit result" where
  "quic_tunnel_socket sys address =
     run_calls sys [new_datagram (get_any_address address), BindAddress (get_any_address address)]"

section \<open>Accepted streams\<close>

text \<open>
  An accepted stream of the plug-HTTP/2 listener: every option is unwrapped, so a failure is a
  panic (\<open>False\<close>). The stream that an HTTP/2 OUT accepts hands up its failures.
\<close>

definition plug_stream_options :: "system \<Rightarrow> u32 \<Rightarrow> socket_call list \<times> bool" where
  "plug_stream_options sys traffic_mark =
     (case run_calls sys ([SetMark traffic_mark, SetNodelay] @ set_keepalive_options 5 5 3) of
        (made, Inl _) \<Rightarrow> (made, False)
      | (made, Inr _) \<Rightarrow> (made, True))"

definition http2_stream_options :: "system \<Rightarrow> socket_call list \<times> unit result" where
  "http2_stream_options sys = run_calls sys ([SetNodelay] @ set_keepalive_options 5 5 3)"

section \<open>Lemmas\<close>

text \<open>A call that is made comes after all that precede it in the plan, which have succeeded.\<close>

lemma marked_before:
  assumes "c \<in> set (fst (run_calls sys plan))" "plan = before @ rest" "SetMark mark \<in> set before" "c \<notin> set before"
  shows "sys (SetMark mark) = Inr () \<and>
    (\<exists>earlier later. fst (run_calls sys plan) = earlier @ c # later \<and> SetMark mark \<in> set earlier)"
proof -
  have "c \<in> set rest" using assms run_calls_made [of sys plan] by auto
  then obtain r1 r2 where rest: "rest = r1 @ c # r2" "c \<notin> set r1" by (meson split_list_first)
  have "(\<forall>b \<in> set (before @ r1). sys b = Inr ()) \<and>
      (\<exists>later. fst (run_calls sys ((before @ r1) @ c # r2)) = (before @ r1) @ c # later)"
    by (rule run_calls_before) (use assms rest in auto)
  then obtain later where "fst (run_calls sys ((before @ r1) @ c # r2)) = (before @ r1) @ c # later"
      and ok: "\<forall>b \<in> set (before @ r1). sys b = Inr ()" by blast
  moreover have "plan = (before @ r1) @ c # r2" using assms(2) rest(1) by simp
  ultimately have "fst (run_calls sys plan) = (before @ r1) @ c # later" "SetMark mark \<in> set (before @ r1)"
    using assms(3) by simp_all
  then show ?thesis using ok by blast
qed

lemma response_socket_prefix:
  "\<exists>more. fst (response_socket sys mark original) = fst (run_calls sys
     [new_datagram original, SetIpTransparent, SetReusePort, SetMark mark, SetNonblocking, BindAddress original]) @ more \<and>
   set more \<subseteq> {RegisterSocket}"
proof -
  let ?plan = "[new_datagram original, SetIpTransparent, SetReusePort, SetMark mark, SetNonblocking]"
  show ?thesis
  proof (cases "snd (run_calls sys ?plan)")
    case (Inl e)
    then have "fst (run_calls sys (?plan @ [BindAddress original])) = fst (run_calls sys ?plan)"
      by (auto simp: run_calls.simps(2) Let_def split_beta split: sum.splits)
    then show ?thesis using Inl by (auto simp: response_socket_def split_beta)
  next
    case (Inr u)
    then have "fst (run_calls sys (?plan @ [BindAddress original])) = fst (run_calls sys ?plan) @ fst (run_calls sys [BindAddress original])"
      by (auto simp: run_calls.simps(2) Let_def split_beta split: sum.splits)
    then show ?thesis
      using Inr by (auto simp: response_socket_def split_beta run_calls.simps(2) Let_def split: sum.splits)
  qed
qed

section \<open>Properties\<close>

text \<open>C26: The sockets through which IN passes proxied traffic on carry the traffic mark before they are
  bound or connected, so that their packets are not redirected to the proxy again: direct connections,
  connections below an HTTP/2 tunnel, the sockets of UDP associations and those that answer in a
  destination's name. Only the socket below a QUIC tunnel is never marked, whatever mark is configured.\<close>

theorem sockets_marked_first:
  assumes "made \<in> {fst (direct_connect sys mark address sniff_buffer), fst (http2_tunnel_connect sys mark address),
      fst (delegate_socket sys mark address), fst (response_socket sys mark address)}"
    and "call \<in> {ConnectTo a, BindAddress a}" and "call \<in> set made"
  shows "sys (SetMark mark) = Inr () \<and>
    (\<exists>earlier later. made = earlier @ call # later \<and> SetMark mark \<in> set earlier) \<and>
    SetMark mark' \<notin> set (fst (quic_tunnel_socket sys address))"
proof -
  let ?direct = "[new_socket address, SetNodelay] @ set_keepalive_options 60 10 5"
  have fresh: "new_socket address \<noteq> ConnectTo b" "new_socket address \<noteq> BindAddress b"
    "new_datagram address \<noteq> ConnectTo b" "new_datagram address \<noteq> BindAddress b"
    "ConnectTo b \<notin> set (set_keepalive_options x y z)" "BindAddress b \<notin> set (set_keepalive_options x y z)" for b x y z
    by (cases address; simp add: set_keepalive_options_def)+
  let ?response = "[new_datagram address, SetIpTransparent, SetReusePort, SetMark mark, SetNonblocking]"
  have quic: "SetMark mark' \<notin> set (fst (quic_tunnel_socket sys address))"
    using run_calls_made [of sys "[new_datagram (get_any_address address), BindAddress (get_any_address address)]"]
    unfolding quic_tunnel_socket_def by (cases "get_any_address address") auto
  have "sys (SetMark mark) = Inr () \<and> (\<exists>earlier later. made = earlier @ call # later \<and> SetMark mark \<in> set earlier)"
    using assms(1)
  proof (elim insertE emptyE)
    assume "made = fst (direct_connect sys mark address sniff_buffer)"
    then have made: "made = fst (run_calls sys ((?direct @ [SetMark mark]) @ ConnectTo address #
        (case sniff_buffer of None \<Rightarrow> [] | Some buffer \<Rightarrow> [WriteAll buffer])))"
      by (simp only: direct_connect_def append.simps append_assoc)
    show ?thesis
      unfolding made by (rule marked_before [OF assms(3) [unfolded made] refl]) (use assms(2) fresh fresh(1-4) [symmetric] in auto)
  next
    assume "made = fst (http2_tunnel_connect sys mark address)"
    then have made: "made = fst (run_calls sys ([new_socket address, SetMark mark] @
        ([SetNodelay] @ set_keepalive_options 5 5 3 @ [ConnectTo address])))"
      by (simp only: http2_tunnel_connect_def append.simps append_assoc)
    show ?thesis
      unfolding made by (rule marked_before [OF assms(3) [unfolded made] refl]) (use assms(2) fresh fresh(1-4) [symmetric] in auto)
  next
    assume "made = fst (delegate_socket sys mark address)"
    then have made: "made = fst (run_calls sys ([new_datagram address, SetMark mark] @
        [SetNonblocking, BindAddress (get_any_address address), RegisterSocket]))"
      by (simp add: delegate_socket_def split_beta split: sum.splits)
    show ?thesis
      unfolding made by (rule marked_before [OF assms(3) [unfolded made] refl]) (use assms(2) fresh fresh(1-4) [symmetric] in auto)
  next
    assume made: "made = fst (response_socket sys mark address)"
    obtain more where more: "made = fst (run_calls sys (?response @ [BindAddress address])) @ more" "set more \<subseteq> {RegisterSocket}"
      using response_socket_prefix [of sys mark address] made by auto
    then have "call \<in> set (fst (run_calls sys (?response @ [BindAddress address])))" using assms(2,3) by auto
    then have "sys (SetMark mark) = Inr () \<and> (\<exists>earlier later.
        fst (run_calls sys (?response @ [BindAddress address])) = earlier @ call # later \<and> SetMark mark \<in> set earlier)"
      by (rule marked_before [OF _ refl]) (use assms(2) fresh fresh(1-4) [symmetric] in auto)
    then show ?thesis using more(1) by fastforce
  qed
  then show ?thesis using quic by blast
qed

theorem sockets_marked_first_witness:
  "\<exists>earlier later. fst (delegate_socket (\<lambda>_. Inr ()) 255 (SockV4 1 5000)) =
     earlier @ BindAddress (SockV4 0 0) # later \<and> SetMark 255 \<in> set earlier"
  using sockets_marked_first [of "fst (delegate_socket (\<lambda>_. Inr ()) 255 (SockV4 1 5000))" "\<lambda>_. Inr ()" 255 "SockV4 1 5000" None
      "BindAddress (SockV4 0 0)" "SockV4 0 0"]
  by (simp add: delegate_socket_def any_address_ipv4_def)

text \<open>A response socket answers as the forwarder's model assumes: it panics when creating it or an option
  fails, hands up the failure of binding, and is bound when every call succeeds; a delegate socket
  panics on any failure.\<close>

theorem datagram_socket_answers:
  "snd (delegate_socket sys mark address) \<noteq> BindFails e \<and>
   (snd (response_socket sys mark address) = BindFails e \<longleftrightarrow>
      (\<forall>c \<in> {new_datagram address, SetIpTransparent, SetReusePort, SetMark mark, SetNonblocking}. sys c = Inr ()) \<and>
      sys (BindAddress address) = Inl e) \<and>
   (snd (response_socket sys mark address) = SocketBound \<longleftrightarrow>
      (\<forall>c \<in> {new_datagram address, SetIpTransparent, SetReusePort, SetMark mark, SetNonblocking, BindAddress address,
         RegisterSocket}. sys c = Inr ()))"
  by (cases address) (auto simp: delegate_socket_def response_socket_def run_calls.simps(2) Let_def split_beta split: sum.splits)

text \<open>The proxy's listener is an IPv4 socket whatever its address is, while its datagram socket is of the
  address's family; it is ready only if every call succeeded, whereas datagrams are received even if
  the kernel refuses to tell their original destinations.\<close>

theorem proxy_sockets_ready:
  "(snd (proxy_listener sys address) = Inr () \<longleftrightarrow>
      (\<forall>c \<in> set ([NewSocketV4, SetIpTransparent, SetIpFreebind, SetReuseAddress, SetNodelay] @
         set_keepalive_options 60 10 5 @ [BindAddress address, ListenOn 1024]). sys c = Inr ())) \<and>
   (snd (proxy_datagram_socket sys address) = Inr () \<longleftrightarrow>
      (\<forall>c \<in> {new_datagram address, SetReuseAddress, SetIpTransparent, SetNonblocking, BindAddress address, RegisterSocket}.
         sys c = Inr ()))"
  unfolding proxy_listener_def proxy_datagram_socket_def run_calls_ok ignoring_def
  by (cases address) auto

end
