(* ===== verification/Provider_Loops.thy ===== *)
theory Provider_Loops
  imports Tunnel_Providers Outputs Socket_Setup Http2_Tunnel
begin

text \<open>
  The loops around the tunnel providers and the tunnels they give: the listener of
  \<open>PlugHttp2InTunnelProvider::new\<close> (\<open>plug_http2_tunnel_provider.rs\<close>), \<open>accept\<close> of the OUT providers
  (\<open>http2_tunnel_provider.rs\<close>, \<open>quic_tunnel_provider.rs\<close>), the loop of \<open>out::up\<close>
  (\<open>src/lib/out/out.rs\<close>) that serves what they accept, and how the OUT ends of the two tunnel kinds
  feed it (\<open>http2_tunnel.rs\<close>, \<open>byte_stream_tunnel.rs\<close>, \<open>quic_tunnel.rs\<close>). What is awaited without a
  timeout may never answer, and then neither does the one who waits.
\<close>

section \<open>Awaiting\<close>

text \<open>\<open>f().await?\<close>: \<^const>\<open>None\<close> is waiting forever.\<close>

definition and_then :: "'a result option \<Rightarrow> ('a \<Rightarrow> 'b result option) \<Rightarrow> 'b result option" where
  "and_then awaited continue =
     (case awaited of None \<Rightarrow> None | Some (Inl e) \<Rightarrow> Some (Inl e) | Some (Inr x) \<Rightarrow> continue x)"

text \<open>\<open>timeout(...).await??\<close>: what has not answered in time is an error.\<close>

definition within_timeout :: "'a result option \<Rightarrow> 'a result option" where
  "within_timeout awaited = Some (case awaited of None \<Rightarrow> Inl Elapsed | Some r \<Rightarrow> r)"

lemma and_then_simps [simp]:
  "and_then None f = None" "and_then (Some (Inl e)) f = Some (Inl e)" "and_then (Some (Inr x)) f = f x"
  by (simp_all add: and_then_def)

section \<open>The listener for plug-HTTP/2 streams\<close>

text \<open>
  An arrival: what the system answers for its options, whether and how the TLS handshake ends, the
  octets that arrive within the second for the tunnel id, and the stream itself. The loop is over
  when an option panics, and waits forever for a handshake that never ends.
\<close>

record 's plug_arrival =
  pa_system :: system
  pa_tls :: "unit result option"
  pa_received :: "u8 list"
  pa_stream :: 's

datatype 's listener_event = ListenerError error | StreamArrived "'s plug_arrival"

datatype listener_state = Listening | Blocked | Panicked

fun plug_listen :: "u32 \<Rightarrow> 's listener_event list \<Rightarrow> (tunnel_id \<times> 's) list \<times> listener_state" where
  "plug_listen traffic_mark [] = ([], Listening)"
| "plug_listen traffic_mark (ListenerError _ # events) = plug_listen traffic_mark events"
| "plug_listen traffic_mark (StreamArrived a # events) =
     (if \<not> snd (plug_stream_options (pa_system a) traffic_mark) then ([], Panicked)
      else case pa_tls a of
        None \<Rightarrow> ([], Blocked)
      | Some secured \<Rightarrow>
          (let (replaced, state) = plug_listen traffic_mark events
           in (case read_tunnel_id secured (pa_received a) of
                 None \<Rightarrow> replaced
               | Some (tunnel_id, _) \<Rightarrow> (tunnel_id, pa_stream a) # replaced, state)))"

section \<open>Accepting tunnels on the OUT end\<close>

text \<open>
  \<open>Http2OutTunnelProvider::accept\<close>: \<open>arrived\<close> is the answer of the listener's \<open>accept\<close>, which is
  waited for five seconds. \<open>QuicOutTunnelProvider::accept\<close>: \<open>incoming\<close> is the answer of the
  endpoint's \<open>accept\<close>, waited for without a limit; \<open>False\<close> when the endpoint is closed.
\<close>

definition http2_out_accept ::
  "system \<Rightarrow> string \<Rightarrow> string \<Rightarrow> ip_addr result option \<Rightarrow> socket_addr result \<Rightarrow>
   (tls_data \<Rightarrow> unit match_in result option) \<Rightarrow> unit result option \<Rightarrow> unit result option \<Rightarrow> unit result option \<Rightarrow>
   tunnel_id result option" where
  "http2_out_accept sys cert key probed local_addr matched arrived secured handshake =
     and_then probed (\<lambda>ip.
     and_then (Some (snd (bind_tcp_listener_reuseaddr sys (SockV4 0 0)))) (\<lambda>_.
     and_then (Some local_addr) (\<lambda>local_addr.
     and_then (matched \<lparr> td_address = socket_addr_new ip (sa_port local_addr), td_cert = cert, td_key = key \<rparr>) (\<lambda>mi.
     and_then (within_timeout arrived) (\<lambda>_.
     and_then (Some (snd (http2_stream_options sys))) (\<lambda>_.
     and_then secured (\<lambda>_.
     and_then handshake (\<lambda>_. Some (Inr (mi_tunnel_id mi))))))))))"

definition quic_out_accept ::
  "string \<Rightarrow> string \<Rightarrow> ip_addr result option \<Rightarrow> socket_addr result \<Rightarrow>
   (tls_data \<Rightarrow> unit match_in result option) \<Rightarrow> unit result \<Rightarrow> bool option \<Rightarrow> unit result option \<Rightarrow>
   tunnel_id result option" where
  "quic_out_accept cert key probed local_addr matched endpoint incoming established =
     and_then probed (\<lambda>ip.
     and_then (Some local_addr) (\<lambda>local_addr.
     and_then (matched \<lparr> td_address = socket_addr_new ip (sa_port local_addr), td_cert = cert, td_key = key \<rparr>) (\<lambda>mi.
     and_then (Some endpoint) (\<lambda>_.
     and_then (map_option (\<lambda>available. if available then Inr () else Inl (Msg ''incoming not available'')) incoming) (\<lambda>_.
     and_then established (\<lambda>_. Some (Inr (mi_tunnel_id mi))))))))"

text \<open>
  A provider's loop in \<open>out::up\<close> over the answers of its \<open>accept\<close>: the tunnels it has spawned and
  whether it waits forever. Failures are logged only.
\<close>

fun provider_loop :: "'t result option list \<Rightarrow> 't list \<times> bool" where
  "provider_loop [] = ([], False)"
| "provider_loop (None # answers) = ([], True)"
| "provider_loop (Some (Inl _) # answers) = provider_loop answers"
| "provider_loop (Some (Inr tunnel) # answers) = (let (tunnels, stuck) = provider_loop answers in (tunnel # tunnels, stuck))"

text \<open>
  \<open>out::up\<close> once the providers are created: each runs its loop, and each tunnel it accepts is served
  on its own; a tunnel is what its \<open>accept\<close> answers.
\<close>

definition out_up ::
  "out_output_config list \<Rightarrow> accept_answer list result option list list \<Rightarrow>
   ((socket_addr \<times> string option \<times> any_output) list \<times> bool) list list" where
  "out_up output_configs providers =
     map (\<lambda>answers. map (handle_tunnel (output_map_of output_configs)) (fst (provider_loop answers))) providers"

section \<open>The streams of a tunnel\<close>

text \<open>What \<open>handle_tunnel\<close> sees of an HTTP/2 tunnel over the events of its connection.\<close>

fun h2_answers :: "header_lib \<Rightarrow> string \<Rightarrow> accept_event list \<Rightarrow> http2_out_tunnel \<Rightarrow> accept_answer list" where
  "h2_answers lib tunnel_type [] t = []"
| "h2_answers lib tunnel_type (event # events) t =
     (case h2_accept lib tunnel_type event t of
        (Inr destination, t) \<Rightarrow> StreamAccepted destination # h2_answers lib tunnel_type events t
      | (Inl e, t) \<Rightarrow> accept_answer.AcceptError e (h2_out_closed t) # h2_answers lib tunnel_type events t)"

text \<open>
  \<open>QuicOutTunnelConnection\<close>: \<open>accept_bi\<close> until it gives a stream; a timeout is retried unless the
  connection has a reason to be closed by now, any other error is handed up. \<^const>\<open>None\<close> is still
  waiting.
\<close>

definition quic_is_closed :: "error option \<Rightarrow> bool" where
  "quic_is_closed close_reason \<longleftrightarrow> close_reason \<noteq> None"

datatype 's quic_answer = BiStream 's | TimedOut "error option" | ConnectionError error

fun quic_accept_bi :: "'s quic_answer list \<Rightarrow> ('s result \<times> 's quic_answer list) option" where
  "quic_accept_bi [] = None"
| "quic_accept_bi (BiStream stream # answers) = Some (Inr stream, answers)"
| "quic_accept_bi (TimedOut close_reason # answers) =
     (if quic_is_closed close_reason then Some (Inl (Msg ''quic connection closed.''), answers) else quic_accept_bi answers)"
| "quic_accept_bi (ConnectionError e # answers) = Some (Inl e, answers)"

lemma quic_accept_bi_shorter: "quic_accept_bi answers = Some (r, rest) \<Longrightarrow> length rest < length answers"
  by (induction answers rule: quic_accept_bi.induct) (auto split: if_splits)

text \<open>
  What \<open>handle_tunnel\<close> sees of a byte-stream tunnel over QUIC. A stream is the octets it yields before
  it ends, with the connection's reason to be closed at that time, which is asked for if they are no
  head; reading the head of a stream that neither yields it nor ends (\<^const>\<open>None\<close>) keeps \<open>accept\<close>
  from returning. \<open>close_reason\<close> is the reason after an error of the connection.
\<close>

function bs_answers :: "error option \<Rightarrow> (u8 list \<times> error option) option quic_answer list \<Rightarrow> accept_answer list" where
  "bs_answers close_reason answers =
     (case quic_accept_bi answers of
        None \<Rightarrow> []
      | Some (Inl e, rest) \<Rightarrow> accept_answer.AcceptError e (quic_is_closed close_reason) # bs_answers close_reason rest
      | Some (Inr None, rest) \<Rightarrow> []
      | Some (Inr (Some (bytes, stream_reason)), rest) \<Rightarrow>
          (case bs_accept bytes of
             Inr (destination, _) \<Rightarrow> StreamAccepted destination
           | Inl e \<Rightarrow> accept_answer.AcceptError e (quic_is_closed stream_reason)) # bs_answers close_reason rest)"
  by auto
termination
  by (relation "measure (\<lambda>(_, answers). length answers)") (auto dest: quic_accept_bi_shorter)

declare bs_answers.simps [simp del]

section \<open>Lemmas\<close>

text \<open>An arrival at which the listener stops.\<close>

definition stops_listener :: "u32 \<Rightarrow> 's listener_event \<Rightarrow> bool" where
  "stops_listener traffic_mark event \<longleftrightarrow>
     (case event of
        ListenerError _ \<Rightarrow> False
      | StreamArrived a \<Rightarrow> \<not> snd (plug_stream_options (pa_system a) traffic_mark) \<or> pa_tls a = None)"

definition offered :: "'s listener_event \<Rightarrow> (tunnel_id \<times> 's) list" where
  "offered event =
     (case event of
        ListenerError _ \<Rightarrow> []
      | StreamArrived a \<Rightarrow>
          (case Option.bind (pa_tls a) (\<lambda>secured. read_tunnel_id secured (pa_received a)) of
             None \<Rightarrow> [] | Some (tunnel_id, _) \<Rightarrow> [(tunnel_id, pa_stream a)]))"

lemma plug_listen_offered:
  "fst (plug_listen traffic_mark events) =
     concat (map offered (takeWhile (\<lambda>e. \<not> stops_listener traffic_mark e) events)) \<and>
   (snd (plug_listen traffic_mark events) = Listening \<longleftrightarrow> (\<forall>e \<in> set events. \<not> stops_listener traffic_mark e))"
  by (induction traffic_mark events rule: plug_listen.induct)
    (auto simp: stops_listener_def offered_def Let_def split_beta split: option.splits)

definition good_request :: "header_lib \<Rightarrow> accept_event \<Rightarrow> destination option" where
  "good_request lib event =
     (case event of
        AcceptRequest request (Inr _) \<Rightarrow> (case h2_destination lib request of Inr d \<Rightarrow> Some d | Inl _ \<Rightarrow> None)
      | _ \<Rightarrow> None)"

lemma h2_accept_good:
  "h2_accept lib tunnel_type event t =
     (case good_request lib event of
        Some d \<Rightarrow> (Inr d, t)
      | None \<Rightarrow> (Inl (projl (fst (h2_accept lib tunnel_type event t))), t\<lparr>h2_out_closed := True\<rparr>))"
  by (auto simp: h2_accept_def good_request_def Let_def split: accept_event.splits sum.splits)

lemma handle_tunnel_h2:
  "handle_tunnel m (h2_answers lib tunnel_type events t) =
     (map (\<lambda>(address, name, tag). (address, name, choose_output m tag))
        (map (the \<circ> good_request lib) (takeWhile (\<lambda>e. good_request lib e \<noteq> None) events)),
      \<exists>e \<in> set events. good_request lib e = None)"
proof (induction events arbitrary: t)
  case (Cons e events)
  show ?case
  proof (cases "good_request lib e")
    case None
    then have "h2_accept lib tunnel_type e t = (Inl (projl (fst (h2_accept lib tunnel_type e t))), t\<lparr>h2_out_closed := True\<rparr>)"
      by (subst h2_accept_good) simp
    then obtain err where "h2_accept lib tunnel_type e t = (Inl err, t\<lparr>h2_out_closed := True\<rparr>)" by blast
    then show ?thesis using None by simp
  next
    case (Some d)
    then have "h2_accept lib tunnel_type e t = (Inr d, t)" by (subst h2_accept_good) simp
    then show ?thesis using Some Cons.IH by (cases d) simp
  qed
qed simp

text \<open>On an open QUIC connection: the octets each stream yields before it ends, \<^const>\<open>None\<close> for one that
  stays open without a complete head.\<close>

lemma handle_tunnel_bs:
  "handle_tunnel m (bs_answers None (map (\<lambda>s. BiStream (map_option (\<lambda>bytes. (bytes, None)) s)) streams)) =
     (map (\<lambda>(address, name, tag). (address, name, choose_output m tag))
        (concat (map (\<lambda>s. case bs_accept (the s) of Inr (d, _) \<Rightarrow> [d] | Inl _ \<Rightarrow> []) (takeWhile (\<lambda>s. s \<noteq> None) streams))), False)"
proof (induction streams)
  case Nil
  then show ?case by (subst bs_answers.simps) simp
next
  case (Cons s streams)
  then show ?case
    by (cases s; subst bs_answers.simps) (auto simp: quic_is_closed_def split: sum.splits)
qed

lemma provider_loop_append:
  "\<forall>a \<in> set before. a \<noteq> None \<Longrightarrow>
     provider_loop (before @ answers) =
       (concat (map (\<lambda>a. case a of Some (Inr t) \<Rightarrow> [t] | _ \<Rightarrow> []) before) @ fst (provider_loop answers), snd (provider_loop answers))"
  by (induction before) (auto split: sum.splits prod.splits)

section \<open>Properties\<close>

text \<open>C30: The listener for plug-HTTP/2 streams offers each stream under the id its first octets name, in
  order, but only up to the first connection that stops it: one client that connects and never finishes
  its TLS handshake keeps every later stream from all waiting tunnels.\<close>

theorem silent_client_blocks_listener:
  "fst (plug_listen mark events) = concat (map offered (takeWhile (\<lambda>e. \<not> stops_listener mark e) events)) \<and>
   (snd (plug_listen mark events) = Listening \<longleftrightarrow> (\<forall>e \<in> set events. \<not> stops_listener mark e)) \<and>
   (pa_tls a = None \<longrightarrow>
      plug_listen mark (events @ StreamArrived a # later) = plug_listen mark (events @ [StreamArrived a]) \<and>
      snd (plug_listen mark (events @ StreamArrived a # later)) \<noteq> Listening)"
proof -
  have "plug_listen mark (events @ StreamArrived a # later) = plug_listen mark (events @ [StreamArrived a])" if "pa_tls a = None"
    using that by (induction mark events rule: plug_listen.induct) (auto split: option.splits)
  moreover have "snd (plug_listen mark (events @ StreamArrived a # later)) \<noteq> Listening" if "pa_tls a = None"
    using plug_listen_offered [of mark "events @ StreamArrived a # later"] that by (auto simp: stops_listener_def)
  ultimately show ?thesis using plug_listen_offered [of mark events] by blast
qed

theorem silent_client_blocks_listener_witness:
  "fst (plug_listen 255
     [StreamArrived \<lparr> pa_system = (\<lambda>_. Inr ()), pa_tls = None, pa_received = [], pa_stream = ''s'' \<rparr>,
      StreamArrived \<lparr> pa_system = (\<lambda>_. Inr ()), pa_tls = Some (Inr ()), pa_received = tunnel_id_as_bytes (TunnelId 7), pa_stream = ''t'' \<rparr>]) = []"
  using silent_client_blocks_listener [of 255
     "[StreamArrived \<lparr> pa_system = (\<lambda>_. Inr ()), pa_tls = None, pa_received = [], pa_stream = ''s'' \<rparr>,
      StreamArrived \<lparr> pa_system = (\<lambda>_. Inr ()), pa_tls = Some (Inr ()), pa_received = tunnel_id_as_bytes (TunnelId 7), pa_stream = ''t'' \<rparr>]"
     "\<lparr> pa_system = (\<lambda>_. Inr ()), pa_tls = None, pa_received = [], pa_stream = ''s'' \<rparr>"]
  by (simp add: stops_listener_def)

text \<open>C29: A match that the IN does not follow up costs an HTTP/2 OUT five seconds and a QUIC OUT its
  provider: the first goes on to later tunnels, the second waits for good, and its loop accepts no
  tunnel any more.\<close>

theorem abandoned_match_stops_quic_provider:
  assumes "\<forall>a \<in> set before. a \<noteq> None" and "\<And>d. matched d = Some (Inr mi)"
    and "snd (bind_tcp_listener_reuseaddr sys (SockV4 0 0)) = Inr ()"
  shows "provider_loop (before @ quic_out_accept cert key (Some (Inr ip)) (Inr local_addr) matched (Inr ()) None established # later) =
      (fst (provider_loop before), True) \<and>
    provider_loop (before @ http2_out_accept sys cert key (Some (Inr ip)) (Inr local_addr) matched None secured handshake # later) =
      (fst (provider_loop before) @ fst (provider_loop later), snd (provider_loop later))"
proof -
  have "quic_out_accept cert key (Some (Inr ip)) (Inr local_addr) matched (Inr ()) None established = None"
    by (simp add: quic_out_accept_def assms(2))
  moreover have "http2_out_accept sys cert key (Some (Inr ip)) (Inr local_addr) matched None secured handshake = Some (Inl Elapsed)"
    by (simp add: http2_out_accept_def assms(2,3) within_timeout_def)
  ultimately show ?thesis
    using provider_loop_append [OF assms(1)] provider_loop_append [OF assms(1), of "[]"] by simp
qed

theorem abandoned_match_stops_quic_provider_witness:
  "provider_loop ([Some (Inr (TunnelId 1))] @ quic_out_accept [] [] (Some (Inr (IpV4 1))) (Inr (SockV4 0 5000))
     (\<lambda>_. Some (Inr \<lparr> mi_id = MatchInId 1, mi_tunnel_id = TunnelId 7, mi_data = () \<rparr>)) (Inr ()) None None # [Some (Inr (TunnelId 2))]) =
   ([TunnelId 1], True)"
proof -
  have "snd (bind_tcp_listener_reuseaddr (\<lambda>_. Inr ()) (SockV4 0 0)) = Inr ()"
    by (simp add: bind_tcp_listener_reuseaddr_def run_calls_ok)
  from abandoned_match_stops_quic_provider [OF _ refl this, of "[Some (Inr (TunnelId 1))]"] show ?thesis by simp
qed

text \<open>C31: What a bad stream does to the others. Over HTTP/2 it ends the tunnel: the streams before the
  first request without a legal address or whose response cannot be sent are served and everything
  after it is lost. Over an open QUIC connection the tunnel never ends by it: a stream that ends
  without a complete head is skipped and those around it are served; but one that stays open without
  a complete head is waited for, and no stream behind it is served.\<close>

theorem bad_stream_ends_http2_tunnel:
  "handle_tunnel m (h2_answers lib tunnel_type events t) =
     (map (\<lambda>(address, name, tag). (address, name, choose_output m tag))
        (map (the \<circ> good_request lib) (takeWhile (\<lambda>e. good_request lib e \<noteq> None) events)),
      \<exists>e \<in> set events. good_request lib e = None) \<and>
    handle_tunnel m (bs_answers None (map (\<lambda>s. BiStream (map_option (\<lambda>bytes. (bytes, None)) s)) streams)) =
     (map (\<lambda>(address, name, tag). (address, name, choose_output m tag))
        (concat (map (\<lambda>s. case bs_accept (the s) of Inr (d, _) \<Rightarrow> [d] | Inl _ \<Rightarrow> [])
          (takeWhile (\<lambda>s. s \<noteq> None) streams))), False)"
  using handle_tunnel_h2 handle_tunnel_bs by (rule conjI)

end
