(* ===== verification/Tls_Setup.thy ===== *)
theory Tls_Setup
  imports Match_Protocol Provider_Loops
begin

text \<open>
  The TLS configurations of both ends of a tunnel (\<open>src/lib/tunnel/common.rs\<close>) and the QUIC endpoints
  made from them (\<open>src/lib/tunnel/quic/quinn.rs\<close>): a provider generates one certificate with its key,
  serves with it and trusts nothing else; the pair travels to the other end with the match, which
  trusts nothing else either and answers with the same pair. Rustls, rcgen and quinn are parameters.
\<close>

section \<open>TLS configurations\<close>

text \<open>What the code sets of rustls' configurations; \<open>'c\<close> are certificates and \<open>'k\<close> private keys.\<close>

record ('c, 'k) tls_client_config =
  cc_roots :: "'c list"
  cc_chain :: "'c list"
  cc_key :: 'k
  cc_alpn :: "u8 list list"

record ('c, 'k) tls_server_config =
  sc_client_roots :: "'c list"
  sc_chain :: "'c list"
  sc_key :: 'k
  sc_alpn :: "u8 list list"

text \<open>
  The libraries: PEM texts, the steps of rustls' builders that may fail, whether a handshake with a
  server succeeds; and, for the laws, whether a chain is trusted by root certificates (for a
  server's name, or as a client's), whether a key is a certificate's own, and which pairs rcgen
  generates for names.
\<close>

record ('c, 'k) tls_lib =
  tl_cert_from_pem :: "u8 list \<Rightarrow> 'c result"
  tl_key_from_pem :: "u8 list \<Rightarrow> 'k result"
  tl_cert_pem :: "'c \<Rightarrow> string"
  tl_key_pem :: "'k \<Rightarrow> string"
  tl_add_root :: "'c \<Rightarrow> unit result"
  tl_client_auth_cert :: "'c list \<Rightarrow> 'k \<Rightarrow> unit result"
  tl_client_cert_verifier :: "'c list \<Rightarrow> unit result"
  tl_single_cert :: "'c list \<Rightarrow> 'k \<Rightarrow> unit result"
  tl_handshake :: "('c, 'k) tls_client_config \<Rightarrow> string \<Rightarrow> ('c, 'k) tls_server_config \<Rightarrow> bool"
  tl_trusted :: "'c list \<Rightarrow> string option \<Rightarrow> 'c list \<Rightarrow> bool"
  tl_owns :: "'k \<Rightarrow> 'c \<Rightarrow> bool"
  tl_self_signed :: "string list \<Rightarrow> 'c \<Rightarrow> 'k \<Rightarrow> bool"

definition create_rustls_client_config ::
  "('c, 'k) tls_lib \<Rightarrow> string \<Rightarrow> string \<Rightarrow> ('c, 'k) tls_client_config result" where
  "create_rustls_client_config lib cert_pem key_pem =
     (case tl_cert_from_pem lib (bytes_of cert_pem) of
        Inl _ \<Rightarrow> Inl (Msg ''invalid cert.'')
      | Inr cert \<Rightarrow>
          (case tl_key_from_pem lib (bytes_of key_pem) of
             Inl _ \<Rightarrow> Inl (Msg ''invalid key.'')
           | Inr key \<Rightarrow>
               (case tl_add_root lib cert of
                  Inl e \<Rightarrow> Inl e
                | Inr _ \<Rightarrow>
                    (case tl_client_auth_cert lib [cert] key of
                       Inl e \<Rightarrow> Inl e
                     | Inr _ \<Rightarrow> Inr \<lparr> cc_roots = [cert], cc_chain = [cert], cc_key = key, cc_alpn = [] \<rparr>))))"

text \<open>\<open>generated\<close> is what rcgen answers for the names; every failure panics.\<close>

definition create_rustls_server_config_and_cert ::
  "('c, 'k) tls_lib \<Rightarrow> ('c \<times> 'k) result \<Rightarrow> (('c, 'k) tls_server_config \<times> string \<times> string) option" where
  "create_rustls_server_config_and_cert lib generated =
     (case generated of
        Inl _ \<Rightarrow> None
      | Inr (cert, key) \<Rightarrow>
          if list_all (\<lambda>r. r = Inr ())
               [tl_add_root lib cert, tl_client_cert_verifier lib [cert], tl_single_cert lib [cert] key]
          then Some (\<lparr> sc_client_roots = [cert], sc_chain = [cert], sc_key = key, sc_alpn = [] \<rparr>,
                 tl_cert_pem lib cert, tl_key_pem lib key)
          else None)"

text \<open>
  The TLS connection of a provider to whoever serves at the address: the client's configuration from
  the certificate and the key of the match, its protocols, and the handshake for the name \<open>localhost\<close>;
  \<open>io\<close> says whether the connection below holds until then.
\<close>

definition tls_connect ::
  "('c, 'k) tls_lib \<Rightarrow> unit result \<Rightarrow> u8 list list \<Rightarrow> ('c, 'k) tls_server_config \<Rightarrow> string \<Rightarrow> string \<Rightarrow> unit result" where
  "tls_connect lib io alpn_protocols server cert key =
     (case create_rustls_client_config lib cert key of
        Inl e \<Rightarrow> Inl e
      | Inr client_config \<Rightarrow>
          (case io of
             Inl e \<Rightarrow> Inl e
           | Inr _ \<Rightarrow>
               if tl_handshake lib (client_config\<lparr>cc_alpn := alpn_protocols\<rparr>) ''localhost'' server then Inr ()
               else Inl (External ''TLS handshake'')))"

definition h2_alpn :: "u8 list list" where
  "h2_alpn = [bytes_of ''h2'']"

section \<open>QUIC endpoints\<close>

text \<open>Times are in milliseconds.\<close>

record transport_config =
  tp_max_concurrent_bidi_streams :: nat
  tp_keep_alive_interval :: "nat option"
  tp_max_idle_timeout :: "nat option"

record ('c, 'k) quic_lib =
  ql_transport_default :: transport_config
  ql_idle_timeout :: "nat \<Rightarrow> nat result"
  ql_client_crypto :: "('c, 'k) tls_client_config \<Rightarrow> bool"
  ql_server_crypto :: "('c, 'k) tls_server_config \<Rightarrow> bool"

record ('c, 'k) quic_endpoint =
  ep_server :: "(('c, 'k) tls_server_config \<times> transport_config) option"
  ep_client :: "(('c, 'k) tls_client_config \<times> transport_config) option"

definition create_transport_config :: "('c, 'k) quic_lib \<Rightarrow> transport_config option" where
  "create_transport_config quic =
     (case ql_idle_timeout quic 30000 of
        Inl _ \<Rightarrow> None
      | Inr idle \<Rightarrow> Some ((ql_transport_default quic)\<lparr>tp_max_concurrent_bidi_streams := 1024,
          tp_keep_alive_interval := Some 5000, tp_max_idle_timeout := Some idle\<rparr>))"

text \<open>\<open>created\<close> is what \<open>Endpoint::new\<close> answers for the socket.\<close>

definition create_server_endpoint ::
  "('c, 'k) quic_lib \<Rightarrow> unit result \<Rightarrow> ('c, 'k) tls_server_config \<Rightarrow> ('c, 'k) quic_endpoint result option" where
  "create_server_endpoint quic created server_config =
     map_option (\<lambda>transport.
       map_sum id (\<lambda>_. \<lparr> ep_server = Some (server_config, transport), ep_client = None \<rparr>) created)
       (create_transport_config quic)"

definition create_client_endpoint ::
  "('c, 'k) quic_lib \<Rightarrow> unit result \<Rightarrow> ('c, 'k) tls_client_config \<Rightarrow> ('c, 'k) quic_endpoint result option" where
  "create_client_endpoint quic created client_config =
     (if ql_client_crypto quic client_config
      then map_option (\<lambda>transport.
        map_sum id (\<lambda>_. \<lparr> ep_server = None, ep_client = Some (client_config, transport) \<rparr>) created)
        (create_transport_config quic)
      else None)"

text \<open>
  \<open>QuicInTunnelProvider::accept\<close> after binding its socket: the configuration, the endpoint and the
  connection to the endpoint that serves at the address; \<open>started\<close> is what \<open>endpoint.connect\<close> answers,
  and \<open>io\<close> whether the packets get through. Without a serving endpoint the connection times out.
\<close>

definition quic_connect ::
  "('c, 'k) tls_lib \<Rightarrow> ('c, 'k) quic_lib \<Rightarrow> unit result \<Rightarrow> unit result \<Rightarrow> unit result \<Rightarrow> ('c, 'k) quic_endpoint \<Rightarrow>
   tls_data \<Rightarrow> unit result option" where
  "quic_connect lib quic created started io peer data =
     (case create_rustls_client_config lib (td_cert data) (td_key data) of
        Inl e \<Rightarrow> Some (Inl e)
      | Inr client_config \<Rightarrow>
          and_then (create_client_endpoint quic created client_config) (\<lambda>endpoint.
          and_then (Some started) (\<lambda>_.
          and_then (Some io) (\<lambda>_.
            Some (case (ep_client endpoint, ep_server peer) of
                (Some (client, _), Some (server, _)) \<Rightarrow>
                  (if tl_handshake lib client ''localhost'' server then Inr () else Inl (External ''QUIC handshake''))
              | _ \<Rightarrow> Inl Elapsed)))))"

section \<open>The providers that serve\<close>

text \<open>
  What \<open>Http2OutTunnelProvider::new\<close>, \<open>QuicOutTunnelProvider::new\<close> and
  \<open>PlugHttp2InTunnelProvider::new\<close> keep for TLS.
\<close>

record ('c, 'k) serving_provider =
  sp_server_config :: "('c, 'k) tls_server_config"
  sp_cert :: string
  sp_key :: string

definition http2_out_provider_new :: "('c, 'k) tls_lib \<Rightarrow> ('c \<times> 'k) result \<Rightarrow> ('c, 'k) serving_provider option" where
  "http2_out_provider_new lib generated =
     map_option (\<lambda>(server_config, cert, key). \<lparr> sp_server_config = server_config, sp_cert = cert, sp_key = key \<rparr>)
       (create_rustls_server_config_and_cert lib generated)"

definition quic_out_provider_new ::
  "('c, 'k) tls_lib \<Rightarrow> ('c, 'k) quic_lib \<Rightarrow> ('c \<times> 'k) result \<Rightarrow> ('c, 'k) serving_provider option" where
  "quic_out_provider_new lib quic generated =
     (case create_rustls_server_config_and_cert lib generated of
        None \<Rightarrow> None
      | Some (server_config, cert, key) \<Rightarrow>
          if ql_server_crypto quic server_config
          then Some \<lparr> sp_server_config = server_config, sp_cert = cert, sp_key = key \<rparr> else None)"

text \<open>The certificate, its key and whether the listener is bound; the loop over its streams is \<^const>\<open>plug_listen\<close>.\<close>

definition plug_http2_in_provider_new ::
  "('c, 'k) tls_lib \<Rightarrow> system \<Rightarrow> plug_http2_in_config \<Rightarrow> ('c \<times> 'k) result \<Rightarrow> ('c, 'k) serving_provider result option" where
  "plug_http2_in_provider_new lib sys config generated =
     map_option (\<lambda>(server_config, cert, key).
       map_sum id (\<lambda>_. \<lparr> sp_server_config = server_config, sp_cert = cert, sp_key = key \<rparr>)
         (snd (bind_tcp_listener_reuseaddr sys (phc_listen_address config))))
       (create_rustls_server_config_and_cert lib generated)"

section \<open>What is relied on\<close>

text \<open>A peer's chain is accepted when it is trusted and the peer shows that it has the first certificate's key.\<close>

definition chain_accepted :: "('c, 'k) tls_lib \<Rightarrow> 'c list \<Rightarrow> string option \<Rightarrow> 'c list \<Rightarrow> 'k \<Rightarrow> bool" where
  "chain_accepted lib roots name chain key \<longleftrightarrow>
     tl_trusted lib roots name chain \<and> chain \<noteq> [] \<and> tl_owns lib key (hd chain)"

text \<open>
  PEM texts are read back. A handshake succeeds when both ends accept each other's chain and the
  protocols, where both name some, have one in common. A generated certificate can be used on both
  ends, it is trusted by itself for its names and as a client, and by no other generated one.
\<close>

definition tls_law :: "('c, 'k) tls_lib \<Rightarrow> bool" where
  "tls_law lib \<longleftrightarrow>
     (\<forall>cert. tl_cert_from_pem lib (bytes_of (tl_cert_pem lib cert)) = Inr cert) \<and>
     (\<forall>key. tl_key_from_pem lib (bytes_of (tl_key_pem lib key)) = Inr key) \<and>
     (\<forall>client name server. tl_handshake lib client name server \<longleftrightarrow>
        chain_accepted lib (cc_roots client) (Some name) (sc_chain server) (sc_key server) \<and>
        chain_accepted lib (sc_client_roots server) None (cc_chain client) (cc_key client) \<and>
        (cc_alpn client = [] \<or> sc_alpn server = [] \<or> set (cc_alpn client) \<inter> set (sc_alpn server) \<noteq> {})) \<and>
     (\<forall>names cert key. tl_self_signed lib names cert key \<longrightarrow>
        tl_add_root lib cert = Inr () \<and> tl_client_auth_cert lib [cert] key = Inr () \<and> tl_owns lib key cert \<and>
        tl_trusted lib [cert] None [cert] \<and> (\<forall>name \<in> set names. tl_trusted lib [cert] (Some name) [cert])) \<and>
     (\<forall>names cert key names' cert' key' name. tl_self_signed lib names cert key \<longrightarrow> tl_self_signed lib names' cert' key' \<longrightarrow>
        tl_trusted lib [cert] name [cert'] \<longrightarrow> cert = cert')"

section \<open>Lemmas\<close>

text \<open>What a provider for \<open>localhost\<close> that serves with a generated pair keeps.\<close>

definition serves_pair :: "('c, 'k) tls_lib \<Rightarrow> 'c \<Rightarrow> 'k \<Rightarrow> ('c, 'k) serving_provider \<Rightarrow> bool" where
  "serves_pair lib cert key sp \<longleftrightarrow> tl_self_signed lib [''localhost''] cert key \<and>
     sp = \<lparr> sp_server_config = \<lparr> sc_client_roots = [cert], sc_chain = [cert], sc_key = key, sc_alpn = [] \<rparr>,
            sp_cert = tl_cert_pem lib cert, sp_key = tl_key_pem lib key \<rparr>"

lemma http2_out_provider_new_serves:
  assumes "http2_out_provider_new lib (Inr (cert, key)) = Some sp" "tl_self_signed lib [''localhost''] cert key"
  shows "serves_pair lib cert key sp"
  using assms
  by (auto simp: http2_out_provider_new_def serves_pair_def create_rustls_server_config_and_cert_def split: if_splits)

lemma quic_out_provider_new_serves:
  assumes "quic_out_provider_new lib quic (Inr (cert, key)) = Some sp" "tl_self_signed lib [''localhost''] cert key"
  shows "serves_pair lib cert key sp"
  using assms
  by (auto simp: quic_out_provider_new_def serves_pair_def create_rustls_server_config_and_cert_def split: if_splits)

lemma plug_http2_in_provider_new_serves:
  assumes "plug_http2_in_provider_new lib sys config (Inr (cert, key)) = Some (Inr sp)" "tl_self_signed lib [''localhost''] cert key"
  shows "serves_pair lib cert key sp"
  using assms
  by (auto simp: plug_http2_in_provider_new_def serves_pair_def create_rustls_server_config_and_cert_def
      split: if_splits sum.splits) (cases "snd (bind_tcp_listener_reuseaddr sys (phc_listen_address config))"; auto)

lemma client_config_of_pair:
  assumes "tls_law lib" "serves_pair lib cert key sp"
  shows "create_rustls_client_config lib (sp_cert sp) (sp_key sp) =
    Inr \<lparr> cc_roots = [cert], cc_chain = [cert], cc_key = key, cc_alpn = [] \<rparr>"
  using assms by (auto simp: create_rustls_client_config_def tls_law_def serves_pair_def)

lemma handshake_iff:
  assumes "tls_law lib" "serves_pair lib cert key sp" "serves_pair lib cert' key' sp'"
  shows "tl_handshake lib \<lparr> cc_roots = [cert], cc_chain = [cert], cc_key = key, cc_alpn = alpn \<rparr> ''localhost'' (sp_server_config sp') \<longleftrightarrow>
    cert = cert'"
proof -
  have own: "tl_owns lib key cert" "tl_owns lib key' cert'"
    and own_trust: "tl_trusted lib [cert] None [cert]" "tl_trusted lib [cert] (Some ''localhost'') [cert]"
    using assms by (auto simp: tls_law_def serves_pair_def)
  have only: "cert = cert'" if "tl_trusted lib [cert] name [cert']" for name
    using assms that unfolding tls_law_def serves_pair_def by blast
  have "tl_handshake lib client name server \<longleftrightarrow>
        chain_accepted lib (cc_roots client) (Some name) (sc_chain server) (sc_key server) \<and>
        chain_accepted lib (sc_client_roots server) None (cc_chain client) (cc_key client) \<and>
        (cc_alpn client = [] \<or> sc_alpn server = [] \<or> set (cc_alpn client) \<inter> set (sc_alpn server) \<noteq> {})" for client name server
    using assms(1) by (auto simp: tls_law_def)
  then show ?thesis
    using own own_trust only assms(3) by (auto simp: chain_accepted_def serves_pair_def)
qed

lemma tls_connect_pair:
  assumes "tls_law lib" "serves_pair lib cert key sp" "serves_pair lib cert' key' sp'"
  shows "tls_connect lib io alpn (sp_server_config sp') (sp_cert sp) (sp_key sp) =
    (case io of Inl e \<Rightarrow> Inl e | Inr _ \<Rightarrow> if cert = cert' then Inr () else Inl (External ''TLS handshake''))"
  using handshake_iff [OF assms] by (simp add: tls_connect_def client_config_of_pair [OF assms(1,2)])

lemma quic_connect_pair:
  assumes "tls_law lib" "serves_pair lib cert key sp" "serves_pair lib cert' key' sp'"
    and "create_server_endpoint quic created' (sp_server_config sp') = Some (Inr peer)"
    and "td_cert data = sp_cert sp" "td_key data = sp_key sp"
    and "quic_connect lib quic created started io peer data = Some r"
  shows "cert \<noteq> cert' \<Longrightarrow> isl r" "cert = cert' \<Longrightarrow> created = Inr () \<Longrightarrow> started = Inr () \<Longrightarrow> io = Inr () \<Longrightarrow> r = Inr ()"
proof -
  obtain transport where "ep_server peer = Some (sp_server_config sp', transport)"
    using assms(4) by (auto simp: create_server_endpoint_def) (cases created'; auto)
  note run = assms(7) [unfolded quic_connect_def assms(5,6) client_config_of_pair [OF assms(1,2)] create_client_endpoint_def and_then_def]
    this handshake_iff [OF assms(1-3), of "[]"]
  show "cert \<noteq> cert' \<Longrightarrow> isl r"
    using run by (cases created; auto split: if_splits option.splits sum.splits)
  show "cert = cert' \<Longrightarrow> created = Inr () \<Longrightarrow> started = Inr () \<Longrightarrow> io = Inr () \<Longrightarrow> r = Inr ()"
    using run by (auto split: if_splits option.splits)
qed

lemma http2_accept_secured:
  assumes "\<And>call. sys call = Inr ()" "secured (td_cert (mo_data mo)) (td_key (mo_data mo)) = Inr ()"
  shows "http2_accept config sys secured (Inr (Some mo)) =
    Inr (provide ''http2'' (h2c_priority config) (h2c_priority_default config) mo)"
proof -
  have answered: "snd (run_calls sys calls) = Inr ()" for calls using assms(1) by (simp add: run_calls_ok)
  show ?thesis unfolding http2_accept_def http2_tunnel_connect_def answered using assms(2) by simp
qed

lemma http2_accept_not_secured:
  "isl (secured (td_cert (mo_data mo)) (td_key (mo_data mo))) \<Longrightarrow> isl (http2_accept config sys secured (Inr (Some mo)))"
  by (auto simp: http2_accept_def split: sum.splits)

lemma plug_http2_out_accept_secured:
  assumes "\<And>call. sys call = Inr ()" "secured (td_cert (mi_data mi)) (td_key (mi_data mi)) = Inr ()"
  shows "plug_http2_out_accept sys secured (Inr mi) (Inr ()) = Inr (mi_tunnel_id mi, tunnel_id_as_bytes (mi_tunnel_id mi))"
proof -
  have answered: "snd (run_calls sys calls) = Inr ()" for calls using assms(1) by (simp add: run_calls_ok)
  show ?thesis unfolding plug_http2_out_accept_def Let_def answered using assms by simp
qed

lemma plug_http2_out_accept_not_secured:
  "isl (secured (td_cert (mi_data mi)) (td_key (mi_data mi))) \<Longrightarrow> isl (plug_http2_out_accept sys secured (Inr mi) handshake)"
  by (auto simp: plug_http2_out_accept_def Let_def split: sum.splits)

section \<open>Properties\<close>

text \<open>C19: An IN only builds a tunnel with the OUT it was matched to: with the certificate and key that
  came with the match, the TLS connection to this OUT succeeds and the tunnel carries what this OUT
  announced; to any other OUT that listens at the address, it fails.\<close>

theorem tunnel_only_to_matched_out:
  assumes "match_lib_law mlib" "match_reachable mlib pair s" "tls_law lib"
    and "ms_in_calls s match_key = Some ic" "ic_result ic = Some (Inr (Some mo))"
    and "http2_out_provider_new lib (Inr (cert, key)) = Some out" "tl_self_signed lib [''localhost''] cert key"
    and "\<forall>n oc. ms_out_calls s n = Some oc \<and> oc_id oc = ic_out_id ic \<longrightarrow>
      td_cert (oc_data oc) = sp_cert out \<and> td_key (oc_data oc) = sp_key out"
    and "http2_out_provider_new lib (Inr (cert', key')) = Some other" "tl_self_signed lib [''localhost''] cert' key'"
    and "cert' \<noteq> cert" "\<And>call. sys call = Inr ()"
  shows "(\<exists>n oc tunnel_id. ms_out_calls s n = Some oc \<and> oc_id oc = ic_out_id ic \<and>
      http2_accept config sys (tls_connect lib (Inr ()) h2_alpn (sp_server_config out)) (Inr (Some mo)) =
        Inr (provide ''http2'' (h2c_priority config) (h2c_priority_default config) (match_out_of oc tunnel_id))) \<and>
    isl (http2_accept config sys' (tls_connect lib io h2_alpn (sp_server_config other)) (Inr (Some mo)))"
proof -
  note serves = http2_out_provider_new_serves [OF assms(6,7)] http2_out_provider_new_serves [OF assms(9,10)]
  obtain n oc and mi :: "_ match_in" where oc: "ms_out_calls s n = Some oc" "oc_id oc = ic_out_id ic" "mo = match_out_of oc (mi_tunnel_id mi)"
      and "mi_data mi = ic_data ic"
    using match_resultD [OF match_reachable_inv [OF assms(2,1)] assms(4,5)] by blast
  have data: "td_cert (mo_data mo) = sp_cert out" "td_key (mo_data mo) = sp_key out"
    using assms(8) oc(1-3) by (auto simp: match_out_of_def)
  have "http2_accept config sys (tls_connect lib (Inr ()) h2_alpn (sp_server_config out)) (Inr (Some mo)) =
      Inr (provide ''http2'' (h2c_priority config) (h2c_priority_default config) (match_out_of oc (mi_tunnel_id mi)))"
    unfolding oc(3) [symmetric] using assms(12)
    by (rule http2_accept_secured) (simp add: data tls_connect_pair [OF assms(3) serves(1,1)])
  moreover have "isl (http2_accept config sys' (tls_connect lib io h2_alpn (sp_server_config other)) (Inr (Some mo)))"
    using assms(11) by (intro http2_accept_not_secured) (simp add: data tls_connect_pair [OF assms(3) serves] split: sum.split)
  ultimately show ?thesis using oc(1,2) by blast
qed

text \<open>An example: certificates and keys are numbers, written as that many letters, and each trusts itself.\<close>

definition example_rustls :: "(nat, nat) tls_lib" where
  "example_rustls =
     \<lparr> tl_cert_from_pem = (\<lambda>bs. Inr (length bs)), tl_key_from_pem = (\<lambda>bs. Inr (length bs)),
       tl_cert_pem = (\<lambda>cert. replicate cert (CHR ''c'')), tl_key_pem = (\<lambda>key. replicate key (CHR ''k'')),
       tl_add_root = (\<lambda>_. Inr ()), tl_client_auth_cert = (\<lambda>_ _. Inr ()), tl_client_cert_verifier = (\<lambda>_. Inr ()),
       tl_single_cert = (\<lambda>_ _. Inr ()),
       tl_handshake = (\<lambda>client name server.
         sc_chain server \<noteq> [] \<and> hd (sc_chain server) \<in> set (cc_roots client) \<and> sc_key server = hd (sc_chain server) \<and>
         cc_chain client \<noteq> [] \<and> hd (cc_chain client) \<in> set (sc_client_roots server) \<and> cc_key client = hd (cc_chain client) \<and>
         (cc_alpn client = [] \<or> sc_alpn server = [] \<or> set (cc_alpn client) \<inter> set (sc_alpn server) \<noteq> {})),
       tl_trusted = (\<lambda>roots name chain. chain \<noteq> [] \<and> hd chain \<in> set roots),
       tl_owns = (\<lambda>key cert. key = cert), tl_self_signed = (\<lambda>names cert key. key = cert) \<rparr>"

lemma example_rustls: "tls_law example_rustls"
  by (auto simp: tls_law_def example_rustls_def chain_accepted_def)

definition example_serving :: "nat \<Rightarrow> (nat, nat) serving_provider" where
  "example_serving n =
     \<lparr> sp_server_config = \<lparr> sc_client_roots = [n], sc_chain = [n], sc_key = n, sc_alpn = [] \<rparr>,
       sp_cert = replicate n (CHR ''c''), sp_key = replicate n (CHR ''k'') \<rparr>"

lemma example_provider:
  "http2_out_provider_new example_rustls (Inr (n, n)) = Some (example_serving n)"
  "tl_self_signed example_rustls names n n"
  by (simp_all add: http2_out_provider_new_def create_rustls_server_config_and_cert_def example_rustls_def example_serving_def)

theorem tunnel_only_to_matched_out_witness:
  "\<exists>p. http2_accept \<lparr> h2c_connections = 1, h2c_priority = None, h2c_priority_default = 100, h2c_traffic_mark = 0xff \<rparr>
     (\<lambda>_. Inr ()) (tls_connect example_rustls (Inr ()) h2_alpn (sp_server_config (example_serving 3)))
     (Inr (Some (example_match_out \<lparr> td_address = SockV4 1 8443, td_cert = ''ccc'', td_key = ''kkk'' \<rparr> (TunnelId 7)))) = Inr (Some p)"
proof -
  define d where "d = \<lparr> td_address = SockV4 1 8443, td_cert = ''ccc'', td_key = ''kkk'' \<rparr>"
  define config where "config = \<lparr> h2c_connections = 1, h2c_priority = None, h2c_priority_default = 100, h2c_traffic_mark = 0xff \<rparr>"
  obtain s :: "(unit, tls_data) match_state" and ic where s: "match_reachable (example_match_lib () d) Http2Pair s"
    and ic: "ms_in_calls s (uuid_show example_uuid_lib 9) = Some ic"
      "ic_result ic = Some (Inr (Some (example_match_out d (TunnelId 7))))"
    and data: "\<And>n oc. ms_out_calls s n = Some oc \<Longrightarrow> oc_data oc = d"
    using example_match_run [of "()" d Http2Pair] by blast
  have out: "\<forall>n oc. ms_out_calls s n = Some oc \<and> oc_id oc = ic_out_id ic \<longrightarrow>
      td_cert (oc_data oc) = sp_cert (example_serving 3) \<and> td_key (oc_data oc) = sp_key (example_serving 3)"
    using data by (auto simp: d_def example_serving_def numeral_eq_Suc)
  note all = tunnel_only_to_matched_out [OF example_match_lib s example_rustls ic example_provider(1) [of 3] example_provider(2) out
      example_provider(1) [of 4] example_provider(2), where sys = "\<lambda>_. Inr ()" and config = config]
  show ?thesis using conjunct1 [OF all] unfolding d_def [symmetric] config_def [symmetric] provide_def by auto
qed

text \<open>The same over QUIC, for endpoints that do not panic: \<open>answered\<close> is what connecting to the OUT's
  endpoint answers, and \<open>answered'\<close> to another's.\<close>

theorem quic_only_to_matched_out:
  assumes "match_lib_law mlib" "match_reachable mlib pair s" "tls_law lib"
    and "ms_in_calls s match_key = Some ic" "ic_result ic = Some (Inr (Some mo))"
    and "quic_out_provider_new lib quic (Inr (cert, key)) = Some out" "tl_self_signed lib [''localhost''] cert key"
    and "\<forall>n oc. ms_out_calls s n = Some oc \<and> oc_id oc = ic_out_id ic \<longrightarrow>
      td_cert (oc_data oc) = sp_cert out \<and> td_key (oc_data oc) = sp_key out"
    and "quic_out_provider_new lib quic (Inr (cert', key')) = Some other" "tl_self_signed lib [''localhost''] cert' key'"
    and "cert' \<noteq> cert" "\<And>address. bound address = Inr ()"
    and "create_server_endpoint quic created (sp_server_config out) = Some (Inr peer)"
    and "create_server_endpoint quic created' (sp_server_config other) = Some (Inr peer')"
    and "\<And>data. quic_connect lib quic (Inr ()) (Inr ()) (Inr ()) peer data = Some (answered data)"
    and "\<And>data. quic_connect lib quic created'' started io peer' data = Some (answered' data)"
  shows "quic_accept config bound answered (Inr (Some mo)) =
      Inr (provide ''quic'' (qc_priority config) (qc_priority_default config) mo) \<and>
    isl (quic_accept config bound answered' (Inr (Some mo)))"
proof -
  note serves = quic_out_provider_new_serves [OF assms(6,7)] quic_out_provider_new_serves [OF assms(9,10)]
  obtain n oc and mi :: "_ match_in" where oc: "ms_out_calls s n = Some oc" "oc_id oc = ic_out_id ic"
      "mo = match_out_of oc (mi_tunnel_id mi)" and "mi_data mi = ic_data ic"
    using match_resultD [OF match_reachable_inv [OF assms(2,1)] assms(4,5)] by blast
  have data: "td_cert (mo_data mo) = sp_cert out" "td_key (mo_data mo) = sp_key out"
    using assms(8) oc(1-3) by (auto simp: match_out_of_def)
  have "answered (mo_data mo) = Inr ()"
    by (rule quic_connect_pair(2) [OF assms(3) serves(1,1) assms(13) data assms(15)]) simp_all
  moreover have "isl (answered' (mo_data mo))"
    using assms(11) by (intro quic_connect_pair(1) [OF assms(3) serves assms(14) data assms(16)]) simp
  ultimately show ?thesis using assms(12) by (auto simp: quic_accept_def isl_def)
qed

text \<open>With the roles turned: a plug-HTTP/2 OUT, connecting to the IN it was matched to, is let in and
  sends the id by which the listener finds its tunnel; with any other IN that listens at the address
  it gets nowhere.\<close>

theorem plug_only_to_matched_in:
  assumes "match_lib_law mlib" "match_reachable mlib pair s" "tls_law lib"
    and "ms_out_calls s n = Some oc" "oc_phase oc = OutReturned (Inr mi)"
    and "plug_http2_in_provider_new lib in_sys config (Inr (cert, key)) = Some (Inr inn)" "tl_self_signed lib [''localhost''] cert key"
    and "\<forall>k ic. ms_in_calls s k = Some ic \<and> rims_id (ic_server ic) = mi_id mi \<longrightarrow>
      td_cert (ic_data ic) = sp_cert inn \<and> td_key (ic_data ic) = sp_key inn"
    and "plug_http2_in_provider_new lib in_sys' config' (Inr (cert', key')) = Some (Inr other)" "tl_self_signed lib [''localhost''] cert' key'"
    and "cert' \<noteq> cert" "\<And>call. sys call = Inr ()"
  shows "(\<exists>bytes. plug_http2_out_accept sys (tls_connect lib (Inr ()) h2_alpn (sp_server_config inn)) (Inr mi) (Inr ()) =
        Inr (mi_tunnel_id mi, bytes) \<and> read_tunnel_id (Inr ()) (bytes @ later) = Some (mi_tunnel_id mi, later)) \<and>
    isl (plug_http2_out_accept sys' (tls_connect lib io h2_alpn (sp_server_config other)) (Inr mi) handshake)"
proof -
  note serves = plug_http2_in_provider_new_serves [OF assms(6,7)] plug_http2_in_provider_new_serves [OF assms(9,10)]
  obtain k ic where ic: "ms_in_calls s k = Some ic" "rims_id (ic_server ic) = mi_id mi" "ic_data ic = mi_data mi"
    using out_returnedD [OF match_reachable_inv [OF assms(2,1)] assms(4,5)] by (auto simp: in_called_def)
  have data: "td_cert (mi_data mi) = sp_cert inn" "td_key (mi_data mi) = sp_key inn"
    using assms(8) [rule_format, OF conjI, OF ic(1,2)] ic(3) by simp_all
  have "plug_http2_out_accept sys (tls_connect lib (Inr ()) h2_alpn (sp_server_config inn)) (Inr mi) (Inr ()) =
      Inr (mi_tunnel_id mi, tunnel_id_as_bytes (mi_tunnel_id mi))"
    using assms(12) by (rule plug_http2_out_accept_secured) (simp add: data tls_connect_pair [OF assms(3) serves(1,1)])
  moreover have "isl (plug_http2_out_accept sys' (tls_connect lib io h2_alpn (sp_server_config other)) (Inr mi) handshake)"
    using assms(11) by (intro plug_http2_out_accept_not_secured) (simp add: data tls_connect_pair [OF assms(3) serves] split: sum.split)
  moreover have "read_tunnel_id (Inr ()) (tunnel_id_as_bytes (mi_tunnel_id mi) @ later) = Some (mi_tunnel_id mi, later)"
    by (simp add: read_tunnel_id_def)
  ultimately show ?thesis by blast
qed

theorem plug_only_to_matched_in_witness:
  "isl (plug_http2_out_accept (\<lambda>_. Inr ()) (tls_connect example_rustls (Inr ()) h2_alpn (sp_server_config (example_serving 4)))
     (Inr \<lparr> mi_id = MatchInId 3, mi_tunnel_id = TunnelId 7,
        mi_data = \<lparr> td_address = SockV4 1 8443, td_cert = ''ccc'', td_key = ''kkk'' \<rparr> \<rparr>) (Inr ()))"
proof -
  define d where "d = \<lparr> td_address = SockV4 1 8443, td_cert = ''ccc'', td_key = ''kkk'' \<rparr>"
  define config where "config = \<lparr> phc_listen_address = SockV4 0 8443, phc_external_port = None, phc_connections = 3,
      phc_priority = None, phc_priority_default = 100, phc_stun_server_addresses = [], phc_traffic_mark = 0xff \<rparr>"
  obtain s :: "(tls_data, unit) match_state" and oc where s: "match_reachable (example_match_lib d ()) PlugHttp2Pair s"
    and oc: "ms_out_calls s 0 = Some oc"
      "oc_phase oc = OutReturned (Inr \<lparr> mi_id = MatchInId 3, mi_tunnel_id = TunnelId 7, mi_data = d \<rparr>)"
    and data: "\<And>k ic. ms_in_calls s k = Some ic \<Longrightarrow> ic_data ic = d"
    using example_match_run [of d "()" PlugHttp2Pair] by blast
  have provider: "plug_http2_in_provider_new example_rustls (\<lambda>_. Inr ()) config (Inr (n, n)) = Some (Inr (example_serving n))" for n
  proof -
    have "snd (bind_tcp_listener_reuseaddr (\<lambda>_. Inr ()) (phc_listen_address config)) = Inr ()"
      by (simp add: bind_tcp_listener_reuseaddr_def run_calls_ok)
    then show ?thesis
      by (simp add: plug_http2_in_provider_new_def create_rustls_server_config_and_cert_def example_rustls_def example_serving_def)
  qed
  have inn: "\<forall>k ic. ms_in_calls s k = Some ic \<and>
      rims_id (ic_server ic) = mi_id \<lparr> mi_id = MatchInId 3, mi_tunnel_id = TunnelId 7, mi_data = d \<rparr> \<longrightarrow>
      td_cert (ic_data ic) = sp_cert (example_serving 3) \<and> td_key (ic_data ic) = sp_key (example_serving 3)"
    using data by (auto simp: d_def example_serving_def numeral_eq_Suc)
  note all = plug_only_to_matched_in [OF example_match_lib s example_rustls oc provider [of 3] example_provider(2) inn
      provider [of 4] example_provider(2), where sys = "\<lambda>_. Inr ()" and sys' = "\<lambda>_. Inr ()" and handshake = "Inr ()"]
  show ?thesis using conjunct2 [OF all] by (simp add: d_def)
qed

end
