(* ===== verification/Fake_Dns.thy ===== *)
theory Fake_Dns
  imports Fake_Ip Socket_Setup
begin

text \<open>
  The DNS server of the fake addresses: its socket (\<open>src/lib/in/fake_ip_dns/fake_ip_dns.rs\<close>), and what
  the hints of an HTTPS answer mean (\<open>fake_authority.rs\<close>). The server itself, hickory, is a parameter.
\<close>

section \<open>The server\<close>

text \<open>
  \<open>fake_ip_dns::up\<close>: \<open>opened\<close> says whether the database can be opened and its table created, which
  \<open>FakeAuthority::new\<close> unwraps; \<open>served\<close> is how serving ends, if ever.
\<close>

definition fake_dns_socket :: "system \<Rightarrow> socket_addr \<Rightarrow> socket_call list \<times> unit result" where
  "fake_dns_socket sys listen_address =
     run_calls sys
       [new_datagram listen_address, SetReuseAddress, SetNonblocking, BindAddress listen_address, RegisterSocket]"

datatype dns_server = DnsPanics | DnsReturns "unit result" | DnsServes

definition fake_ip_dns_up :: "system \<Rightarrow> bool \<Rightarrow> socket_addr \<Rightarrow> unit result option \<Rightarrow> dns_server" where
  "fake_ip_dns_up sys opened listen_address served =
     (if \<not> opened then DnsPanics
      else case snd (fake_dns_socket sys listen_address) of
        Inl e \<Rightarrow> DnsReturns (Inl e)
      | Inr _ \<Rightarrow> (case served of None \<Rightarrow> DnsServes | Some r \<Rightarrow> DnsReturns r))"



section \<open>Hints\<close>


lemma fakeable_hint_other [simp]: "fakeable_hint (KeyOther n, v) = None"
  by (cases v) simp_all







section \<open>Addresses that are not local\<close>

text \<open>
  The addresses the answers may hide, written as numbers and ranges, apart from the code's tests on
  octets: every IPv4 address outside 127.0.0.0/8, 10.0.0.0/8, 172.16.0.0/12 and 192.168.0.0/16, and
  every IPv6 address but \<open>::1\<close>. Other addresses with a special use, such as 169.254.0.0/16 or
  \<open>fc00::/7\<close>, do not count as local: the code gives them fake addresses too.
\<close>

fun outside_local :: "ip_addr \<Rightarrow> bool" where
  "outside_local (IpV4 ip) \<longleftrightarrow> unat ip div 2 ^ 24 \<notin> {10, 127} \<and> unat ip div 2 ^ 20 \<noteq> 0xAC1 \<and> unat ip div 2 ^ 16 \<noteq> 0xC0A8"
| "outside_local (IpV6 ip) \<longleftrightarrow> ip \<noteq> 1"

text \<open>The addresses that a hint of an HTTPS record, or a record, tells a client.\<close>

fun hint_addresses :: "svc_key \<times> svc_value \<Rightarrow> ip_addr set" where
  "hint_addresses (_, ValIpv4Hint ips) = IpV4 ` set ips"
| "hint_addresses (_, ValIpv6Hint ips) = IpV6 ` set ips"
| "hint_addresses _ = {}"

fun rdata_addresses :: "rdata \<Rightarrow> ip_addr set" where
  "rdata_addresses (RDataA ip) = {IpV4 ip}"
| "rdata_addresses (RDataAAAA ip) = {IpV6 ip}"
| "rdata_addresses (RDataHTTPS svcb) = \<Union> (hint_addresses ` set (svc_params svcb))"
| "rdata_addresses _ = {}"

lemma unat_ucast_drop: "unat (ucast (drop_bit n (w :: u32)) :: u8) = unat w div 2 ^ n mod 256"
proof -
  have "unat w < 4294967296" using unsigned_less [of w, where ?'a = nat] by simp
  then show ?thesis
    by (simp add: unsigned_ucast_eq unsigned_drop_bit_eq take_bit_eq_mod) (simp add: drop_bit_eq_div)?
qed

lemma local_octets:
  "ipv4_octet 0 ip = 127 \<longleftrightarrow> unat ip div 2 ^ 24 = 127"
  "ipv4_octet 0 ip = 10 \<longleftrightarrow> unat ip div 2 ^ 24 = 10"
  "ipv4_octet 0 ip = 192 \<and> ipv4_octet 1 ip = 168 \<longleftrightarrow> unat ip div 2 ^ 16 = 0xC0A8"
  "ipv4_octet 0 ip = 172 \<and> 16 \<le> ipv4_octet 1 ip \<and> ipv4_octet 1 ip \<le> 31 \<longleftrightarrow> unat ip div 2 ^ 20 = 0xAC1"
proof -
  have b: "unat ip < 2 ^ 32" using unsigned_less [of ip, where ?'a = nat] by simp
  have o: "unat (ipv4_octet 0 ip) = unat ip div 2 ^ 24" "unat (ipv4_octet 1 ip) = unat ip div 2 ^ 16 mod 256"
    using b by (simp_all add: ipv4_octet_def be_bytes_4 unat_ucast_drop)
  note eq = word_unat_eq_iff word_le_nat_alt o
  show "ipv4_octet 0 ip = 127 \<longleftrightarrow> unat ip div 2 ^ 24 = 127" "ipv4_octet 0 ip = 10 \<longleftrightarrow> unat ip div 2 ^ 24 = 10"
    unfolding eq by simp_all
  have div: "unat ip div 2 ^ 24 = unat ip div 2 ^ 16 div 256" "unat ip div 2 ^ 20 = unat ip div 2 ^ 16 div 16"
    by (simp_all add: div_mult2_eq [symmetric])
  have "a div 256 = 192 \<and> a mod 256 = 168 \<longleftrightarrow> a = 0xC0A8" for a :: nat by (auto, use div_mult_mod_eq [of a 256] in linarith)
  then show "ipv4_octet 0 ip = 192 \<and> ipv4_octet 1 ip = 168 \<longleftrightarrow> unat ip div 2 ^ 16 = 0xC0A8"
    unfolding eq div by simp
  have "a div 256 = 172 \<and> 16 \<le> a mod 256 \<and> a mod 256 \<le> 31 \<longleftrightarrow> a div 16 = 0xAC1" for a :: nat
  proof -
    define q r d where "q = a div 256" and "r = a mod 256" and "d = a div 16"
    have a: "a = 256 * q + r" "r < 256" "16 * d \<le> a" "a < 16 * d + 16" unfolding q_def r_def d_def by simp_all
    have "d = 2753 \<Longrightarrow> q = 172" using a by linarith
    then have "q = 172 \<and> 16 \<le> r \<and> r \<le> 31 \<longleftrightarrow> d = 2753" using a by (cases "q = 172"; linarith)
    then show ?thesis unfolding q_def r_def d_def .
  qed
  then show "ipv4_octet 0 ip = 172 \<and> 16 \<le> ipv4_octet 1 ip \<and> ipv4_octet 1 ip \<le> 31 \<longleftrightarrow> unat ip div 2 ^ 20 = 0xAC1"
    unfolding eq div by simp
qed

lemma outside_local_ipv4:
  "\<not> (ipv4_is_private ip \<or> ipv4_is_loopback ip) \<longleftrightarrow> outside_local (IpV4 ip)"
  unfolding ipv4_is_private_def ipv4_is_loopback_def local_octets by auto

lemma fakeable_rdata_address: "fakeable_rdata data = Some ip \<Longrightarrow> ip \<in> rdata_addresses data \<and> outside_local ip"
  using outside_local_ipv4 by (cases data) (auto simp: ipv6_is_loopback_def split: if_splits)



section \<open>Properties\<close>







end
