(* ===== verification/Matched_Manager.thy ===== *)
theory Matched_Manager
  imports Manager_System Match_Protocol
begin

text \<open>
  The tunnel manager of an IN together with the match servers of both sides: the manager's tasks
  (\<open>src/lib/in/tunnel_manager.rs\<close>) take the tunnels of the IN's providers, up to one for each of the
  three protocols, all over one tunnel map and one router; a tunnel comes out of a call of \<open>match_out\<close>
  for its protocol (\<open>src/lib/match_server/redis_match_server.rs\<close>). What \<open>Manager_System\<close> assumes of the
  tunnels that are accepted is a fact here.
\<close>

section \<open>The composed system\<close>

text \<open>
  What the IN was started with: its match libraries, one for the payloads of each protocol, and the
  configurations of its providers, \<^const>\<open>None\<close> for a protocol that is disabled.
\<close>

record in_protocols =
  ip_http2_lib :: "(unit, tls_data) match_lib"
  ip_plug_lib :: "(tls_data, unit) match_lib"
  ip_quic_lib :: "(unit, tls_data) match_lib"
  ip_http2 :: "http2_in_config option"
  ip_plug :: "plug_http2_in_config option"
  ip_quic :: "quic_in_config option"

text \<open>
  The manager, the matching for each protocol, the protocol of each \<open>handle_out\<close> (in the order of
  \<^const>\<open>sys_handlers\<close>), and \<open>mm_taken\<close>, the protocols and match keys of the calls whose answer a
  \<open>handle_out\<close> has taken. The protocols share one Redis; their keys and channels start with the name
  of the protocol or are UUIDs, so each has a part of it to itself.
\<close>

record ('net, 're) matched_manager =
  mm_manager :: "('net, 're) manager_system"
  mm_http2 :: "(unit, tls_data) match_state"
  mm_plug :: "(tls_data, unit) match_state"
  mm_quic :: "(unit, tls_data) match_state"
  mm_protocols :: "match_pair list"
  mm_taken :: "(match_pair \<times> string) set"

definition known_ids :: "('net, 're) manager_system \<Rightarrow> tunnel_id set" where
  "known_ids s = dom (map_of (tunnel_map (sys_manager s))) \<union> fst ` set (sys_permits s)"

text \<open>The tunnel ids that calls of \<open>match_in\<close> have drawn.\<close>

definition drawn_ids :: "('i, 'o) match_state \<Rightarrow> tunnel_id set" where
  "drawn_ids s = {mi_tunnel_id mi | n oc match_key mi. ms_out_calls s n = Some oc \<and> oc_matched oc = Some (match_key, mi)}"

definition ids_apart :: "('net, 're) matched_manager \<Rightarrow> bool" where
  "ids_apart w \<longleftrightarrow>
     drawn_ids (mm_http2 w) \<inter> drawn_ids (mm_plug w) = {} \<and> drawn_ids (mm_http2 w) \<inter> drawn_ids (mm_quic w) = {} \<and>
     drawn_ids (mm_plug w) \<inter> drawn_ids (mm_quic w) = {}"

text \<open>
  What \<open>accept_out\<close> of the provider for a protocol may answer: an OUT that was accepted, and the number
  of its connections.
\<close>

fun provides_out :: "in_protocols \<Rightarrow> ('net, 're) matched_manager \<Rightarrow> match_pair \<Rightarrow> match_out_id \<Rightarrow> usize \<Rightarrow> bool" where
  "provides_out p w Http2Pair out_id connections \<longleftrightarrow>
     out_id \<in> ms_accepted (mm_http2 w) \<and> map_option h2c_connections (ip_http2 p) = Some connections"
| "provides_out p w PlugHttp2Pair out_id connections \<longleftrightarrow>
     out_id \<in> ms_accepted (mm_plug w) \<and> map_option phc_connections (ip_plug p) = Some connections"
| "provides_out p w QuicPair out_id connections \<longleftrightarrow>
     out_id \<in> ms_accepted (mm_quic w) \<and> ip_quic p \<noteq> None \<and> connections = 1"

text \<open>What the providers of the three protocols may make of an answer, whatever else happens to them.\<close>

definition http2_answers :: "http2_in_config \<Rightarrow> tls_data match_out option result \<Rightarrow> provided result \<Rightarrow> bool" where
  "http2_answers config matched answer \<longleftrightarrow> (\<exists>sys secured. http2_accept config sys secured matched = answer)"

definition quic_answers :: "quic_in_config \<Rightarrow> tls_data match_out option result \<Rightarrow> provided result \<Rightarrow> bool" where
  "quic_answers config matched answer \<longleftrightarrow> (\<exists>bound reached. quic_accept config bound reached matched = answer)"

definition plug_http2_answers :: "plug_http2_in_config \<Rightarrow> unit match_out option result \<Rightarrow> provided result \<Rightarrow> bool" where
  "plug_http2_answers config matched answer \<longleftrightarrow>
     (\<exists>cert key probed stream handshake. plug_http2_accept config cert key probed (\<lambda>_. matched) stream handshake = answer)"

text \<open>
  What \<open>accept\<close> of the provider for a protocol may answer when it is asked for an OUT: what the provider
  makes of the answer of its own call of \<open>match_out\<close> for this OUT.
\<close>

definition call_answered :: "('i, 'o) match_state \<Rightarrow> string \<Rightarrow> match_out_id \<Rightarrow> 'o match_out option result \<Rightarrow> bool" where
  "call_answered s match_key out_id matched \<longleftrightarrow>
     (\<exists>ic. ms_in_calls s match_key = Some ic \<and> ic_out_id ic = out_id \<and> ic_result ic = Some matched)"

fun accept_answers ::
  "in_protocols \<Rightarrow> ('net, 're) matched_manager \<Rightarrow> match_pair \<Rightarrow> string \<Rightarrow> match_out_id \<Rightarrow> provided result \<Rightarrow> bool" where
  "accept_answers p w Http2Pair match_key out_id answer \<longleftrightarrow>
     (\<exists>config matched. ip_http2 p = Some config \<and> call_answered (mm_http2 w) match_key out_id matched \<and>
        http2_answers config matched answer)"
| "accept_answers p w PlugHttp2Pair match_key out_id answer \<longleftrightarrow>
     (\<exists>config matched. ip_plug p = Some config \<and> call_answered (mm_plug w) match_key out_id matched \<and>
        plug_http2_answers config matched answer)"
| "accept_answers p w QuicPair match_key out_id answer \<longleftrightarrow>
     (\<exists>config matched. ip_quic p = Some config \<and> call_answered (mm_quic w) match_key out_id matched \<and>
        quic_answers config matched answer)"

text \<open>
  The match servers step on their own; tunnel ids are fresh UUIDs, so no two protocols draw the same.
  An OUT that the provider of a protocol has accepted starts a \<open>handle_out\<close> for this protocol. A
  \<open>handle_out\<close> that waits for \<open>accept\<close> takes the tunnel that its provider makes of the answer of its own
  call of \<open>match_out\<close>, once. All other steps of the manager bring in neither a \<open>handle_out\<close> nor a tunnel.
\<close>

inductive matched_step ::
  "('net, 're) route_lib \<Rightarrow> (match_out_id \<Rightarrow> string) \<Rightarrow> in_protocols \<Rightarrow>
   ('net, 're) matched_manager \<Rightarrow> ('net, 're) matched_manager \<Rightarrow> bool"
  for lib show_id p where
  http2_matching:
    "match_step (ip_http2_lib p) Http2Pair (mm_http2 w) m \<Longrightarrow> ids_apart (w\<lparr>mm_http2 := m\<rparr>) \<Longrightarrow>
     matched_step lib show_id p w (w\<lparr>mm_http2 := m\<rparr>)"
| plug_matching:
    "match_step (ip_plug_lib p) PlugHttp2Pair (mm_plug w) m' \<Longrightarrow> ids_apart (w\<lparr>mm_plug := m'\<rparr>) \<Longrightarrow>
     matched_step lib show_id p w (w\<lparr>mm_plug := m'\<rparr>)"
| quic_matching:
    "match_step (ip_quic_lib p) QuicPair (mm_quic w) m \<Longrightarrow> ids_apart (w\<lparr>mm_quic := m\<rparr>) \<Longrightarrow>
     matched_step lib show_id p w (w\<lparr>mm_quic := m\<rparr>)"
| out_arrived:
    "mm_manager w = s \<Longrightarrow> provides_out p w pair out_id connections \<Longrightarrow>
     matched_step lib show_id p w
       (w\<lparr>mm_manager := s\<lparr>sys_handlers := sys_handlers s @ [handle_out_start out_id connections]\<rparr>,
          mm_protocols := mm_protocols w @ [pair]\<rparr>)"
| tunnel_provided:
    "mm_manager w = s \<Longrightarrow> i < length (sys_handlers s) \<Longrightarrow> h_accepting (sys_handlers s ! i) \<Longrightarrow>
     pair = mm_protocols w ! i \<Longrightarrow> (pair, match_key) \<notin> mm_taken w \<Longrightarrow>
     accept_answers p w pair match_key (h_out_id (sys_handlers s ! i)) (Inr (Some (tunnel, rules, priority))) \<Longrightarrow>
     hash_order ord \<Longrightarrow> hash_order ord' \<Longrightarrow>
     register_tunnel lib show_id ord' (h_out_id (sys_handlers s ! i)) (tun_id tunnel) rules priority (sys_router s) = Some router \<Longrightarrow>
     matched_step lib show_id p w
       (w\<lparr>mm_manager := s\<lparr>sys_manager := accept_tunnel show_id ord tunnel (sys_manager s),
            sys_router := router,
            sys_handlers := (sys_handlers s)[i := finish_accept Accepted (sys_handlers s ! i)],
            sys_permits := (tun_id tunnel, i) # sys_permits s\<rparr>,
          mm_taken := insert (pair, match_key) (mm_taken w)\<rparr>)"
| otherwise:
    "manager_step lib show_id (mm_manager w) s \<Longrightarrow>
     length (sys_handlers s) = length (sys_handlers (mm_manager w)) \<Longrightarrow> known_ids s \<subseteq> known_ids (mm_manager w) \<Longrightarrow>
     matched_step lib show_id p w (w\<lparr>mm_manager := s\<rparr>)"

definition matched_start :: "('net, 're) router \<Rightarrow> ('net, 're) matched_manager" where
  "matched_start router =
     \<lparr> mm_manager = manager_system_new router, mm_http2 = match_start, mm_plug = match_start, mm_quic = match_start,
       mm_protocols = [], mm_taken = {} \<rparr>"

inductive matched_reachable ::
  "('net, 're) route_lib \<Rightarrow> (match_out_id \<Rightarrow> string) \<Rightarrow> in_protocols \<Rightarrow> ('net, 're) matched_manager \<Rightarrow> bool"
  for lib show_id p where
  start: "router_new lib configs = Some router \<Longrightarrow> matched_reachable lib show_id p (matched_start router)"
| step: "matched_reachable lib show_id p w \<Longrightarrow> matched_step lib show_id p w w' \<Longrightarrow> matched_reachable lib show_id p w'"

definition protocols_law :: "in_protocols \<Rightarrow> bool" where
  "protocols_law p \<longleftrightarrow> match_lib_law (ip_http2_lib p) \<and> match_lib_law (ip_plug_lib p) \<and> match_lib_law (ip_quic_lib p)"

section \<open>What steps keep\<close>

lemma ic_result_step:
  "match_step mlib pair s s' \<Longrightarrow> ms_in_calls s k = Some ic \<Longrightarrow> ic_result ic = Some r \<Longrightarrow> ms_in_calls s' k = Some ic"
  by (induction rule: match_step.induct) auto

text \<open>What an OUT has published, with a match, in a call of \<open>match_in\<close>.\<close>

definition announces ::
  "('i, 'o) match_state \<Rightarrow> match_out_id \<Rightarrow> label list \<Rightarrow> out_rule_config list \<Rightarrow> i64 \<Rightarrow> bool" where
  "announces s out_id labels rules priority \<longleftrightarrow>
     (\<exists>n oc. ms_out_calls s n = Some oc \<and> oc_matched oc \<noteq> None \<and> oc_id oc = out_id \<and> roms_labels (oc_server oc) = labels \<and>
        oc_routing_rules oc = rules \<and> oc_routing_priority oc = priority)"

lemma announces_update:
  assumes "announces s out_id labels rules priority" "ms_out_calls s n = Some oc"
    and "oc_server oc' = oc_server oc" "oc_routing_rules oc' = oc_routing_rules oc" "oc_routing_priority oc' = oc_routing_priority oc"
    and "oc_matched oc \<noteq> None \<longrightarrow> oc_matched oc' \<noteq> None" and "ms_out_calls s' = (ms_out_calls s)(n \<mapsto> oc')"
  shows "announces s' out_id labels rules priority"
proof -
  obtain m oc0 where m: "ms_out_calls s m = Some oc0" "oc_matched oc0 \<noteq> None" "oc_id oc0 = out_id"
      "roms_labels (oc_server oc0) = labels" "oc_routing_rules oc0 = rules" "oc_routing_priority oc0 = priority"
    using assms(1) by (auto simp: announces_def)
  show ?thesis
  proof (cases "m = n")
    case True
    then have "oc0 = oc" using m(1) assms(2) by simp
    then show ?thesis unfolding announces_def using m assms(3-7) by (intro exI [of _ n] exI [of _ oc']) simp
  next
    case False
    then show ?thesis unfolding announces_def using m assms(7) by (intro exI [of _ m] exI [of _ oc0]) simp
  qed
qed

lemma announces_step:
  "match_step mlib pair s s' \<Longrightarrow> announces s out_id labels rules priority \<Longrightarrow> announces s' out_id labels rules priority"
proof (induction rule: match_step.induct)
  case (out_subscribe s n server out_data priority' rules' routing_priority)
  then obtain m oc where "ms_out_calls s m = Some oc" "oc_matched oc \<noteq> None" "oc_id oc = out_id" "roms_labels (oc_server oc) = labels"
      "oc_routing_rules oc = rules" "oc_routing_priority oc = priority" "m \<noteq> n"
    unfolding announces_def by (metis option.distinct(1))
  then show ?case unfolding announces_def by (intro exI [of _ m] exI [of _ oc]) simp
next
  case (out_set s n oc payload out_key)
  then show ?case by (elim announces_update) auto
next
  case (out_announce s n oc payload)
  then show ?case by (elim announces_update) auto
next
  case (out_expired s n oc)
  then show ?case by (elim announces_update) auto
next
  case (out_lock s n oc ch payload announcement store)
  then show ?case by (elim announces_update) auto
next
  case (out_publish s n oc announcement tunnel_id mi payload)
  then show ?case by (elim announces_update) auto
next
  case (out_return s n oc mi)
  then show ?case by (elim announces_update) auto
next
  case (out_failed s n oc e)
  then show ?case by (elim announces_update) auto
qed (auto simp: announces_def)

text \<open>A step of the manager that brings in no tunnel changes no tunnel and no OUT's rules.\<close>

lemma manager_step_no_tunnel:
  assumes step: "manager_step lib show_id s s'" and inv: "maps_inv show_id s" and ids: "known_ids s' \<subseteq> known_ids s"
  shows "map_of (tunnel_map (sys_manager s')) \<subseteq>\<^sub>m map_of (tunnel_map (sys_manager s)) \<and>
    in_rules (sys_router s') = in_rules (sys_router s) \<and> out_rules (sys_router s') \<subseteq>\<^sub>m out_rules (sys_router s)"
  using step
proof cases
  case (accepted i tunnel ord ord' rules priority router)
  have "tun_id tunnel \<in> known_ids s'" using accepted(1) by (simp add: known_ids_def)
  moreover have "tun_id tunnel \<notin> known_ids s" using accepted(5,6) by (auto simp: known_ids_def)
  ultimately show ?thesis using ids by blast
next
  case (closed tunnel_id tunnel ord ord' router)
  have wf: "out_map_wf (out_rules_map (sys_router s))" using inv by (simp add: maps_inv_def)
  show ?thesis
    using unregister_abs(2,4) [OF closed(5,4) wf] closed(1) by (auto simp: tunnel_map_close map_le_def)
next
  case (selected groups)
  then show ?thesis by (simp add: select_tunnel_def)
qed auto

section \<open>Answers of one protocol\<close>

text \<open>The call with this match key has returned a match with this tunnel id.\<close>

definition result_id :: "('i, 'o) match_state \<Rightarrow> string \<Rightarrow> tunnel_id \<Rightarrow> bool" where
  "result_id s match_key i \<longleftrightarrow>
     (\<exists>ic mo. ms_in_calls s match_key = Some ic \<and> ic_result ic = Some (Inr (Some mo)) \<and> mo_tunnel_id mo = i)"

lemma result_id_step: "match_step mlib pair s s' \<Longrightarrow> result_id s k i \<Longrightarrow> result_id s' k i"
  unfolding result_id_def using ic_result_step by blast

lemma result_id_drawn:
  assumes "match_inv mlib pair s" "result_id s k i"
  shows "\<exists>n oc mi. ms_out_calls s n = Some oc \<and> oc_matched oc = Some (k, mi) \<and> mi_tunnel_id mi = i"
proof -
  obtain ic mo where "ms_in_calls s k = Some ic" "ic_result ic = Some (Inr (Some mo))" "mo_tunnel_id mo = i"
    using assms(2) by (auto simp: result_id_def)
  then show ?thesis using match_resultD [OF assms(1)] by (fastforce simp: match_out_of_def)
qed

lemma result_id_unique:
  assumes inv: "match_inv mlib pair s" and "result_id s k i" "result_id s k' i"
  shows "k = k'"
proof -
  obtain n oc mi where a: "ms_out_calls s n = Some oc" "oc_matched oc = Some (k, mi)" "mi_tunnel_id mi = i"
    using result_id_drawn [OF inv assms(2)] by blast
  obtain n' oc' mi' where b: "ms_out_calls s n' = Some oc'" "oc_matched oc' = Some (k', mi')" "mi_tunnel_id mi' = i"
    using result_id_drawn [OF inv assms(3)] by blast
  have "n = n'" using inv a b unfolding match_inv_def tunnel_ids_ok_def by metis
  then show ?thesis using a b by simp
qed

text \<open>The contract of a provider: a tunnel only for a match, carrying what the match says.\<close>

locale tunnel_provider =
  fixes name :: string and answers :: "'o match_out option result \<Rightarrow> provided result \<Rightarrow> bool"
  assumes provides: "answers matched (Inr (Some q)) \<Longrightarrow> tun_type (fst q) = name \<and>
    (\<exists>mo configured priority_default. matched = Inr (Some mo) \<and> provided_tunnel mo configured priority_default q)"
begin

lemma answer_sound:
  assumes inv: "match_inv mlib pair s" and call: "call_answered s match_key out_id matched"
    and answer: "answers matched (Inr (Some (t, rules, priority)))"
  shows "tun_type t = name \<and> tun_out_id t = out_id \<and> announces s out_id (tun_labels t) rules priority \<and>
    result_id s match_key (tun_id t)"
proof -
  obtain mo configured priority_default where mo: "matched = Inr (Some mo)"
    and q: "provided_tunnel mo configured priority_default (t, rules, priority)" and name: "tun_type t = name"
    using provides [OF answer] by auto
  obtain ic where ic: "ms_in_calls s match_key = Some ic" "ic_out_id ic = out_id" "ic_result ic = Some (Inr (Some mo))"
    using call mo by (auto simp: call_answered_def)
  obtain n oc mi where "ms_out_calls s n = Some oc" "oc_matched oc = Some (match_key, mi)"
      "mo = match_out_of oc (mi_tunnel_id mi)" "oc_id oc = ic_out_id ic"
    using match_resultD [OF inv ic(1,3)] by blast
  then have "announces s out_id (tun_labels t) rules priority" "tun_out_id t = out_id"
    using q ic(2) by (auto simp: announces_def provided_tunnel_def match_out_of_def)
  moreover have "result_id s match_key (tun_id t)" using ic q by (auto simp: result_id_def provided_tunnel_def)
  ultimately show ?thesis using name by simp
qed

end

lemma accept_provides:
  "http2_accept hc sys secured matched = Inr (Some q) \<Longrightarrow> tun_type (fst q) = ''http2'' \<and>
     (\<exists>mo configured priority_default. matched = Inr (Some mo) \<and> provided_tunnel mo configured priority_default q)"
  "plug_http2_accept pc cert key probed (\<lambda>_. plug_matched) stream handshake = Inr (Some q) \<Longrightarrow> tun_type (fst q) = ''plug-http2'' \<and>
     (\<exists>mo configured priority_default. plug_matched = Inr (Some mo) \<and> provided_tunnel mo configured priority_default q)"
  "quic_accept qc bound reached matched = Inr (Some q) \<Longrightarrow> tun_type (fst q) = ''quic'' \<and>
     (\<exists>mo configured priority_default. matched = Inr (Some mo) \<and> provided_tunnel mo configured priority_default q)"
proof -
  show "tun_type (fst q) = ''http2'' \<and> (\<exists>mo configured priority_default. matched = Inr (Some mo) \<and> provided_tunnel mo configured priority_default q)"
    if "http2_accept hc sys secured matched = Inr (Some q)"
    using that http2_accept_Some [OF that] by (auto simp: http2_accept_def provide_def split: sum.splits option.splits)
  show "tun_type (fst q) = ''plug-http2'' \<and> (\<exists>mo configured priority_default. plug_matched = Inr (Some mo) \<and> provided_tunnel mo configured priority_default q)"
    if "plug_http2_accept pc cert key probed (\<lambda>_. plug_matched) stream handshake = Inr (Some q)"
    using that plug_http2_accept_Some [OF that] by (auto simp: plug_http2_accept_def provide_def split: sum.splits option.splits)
  show "tun_type (fst q) = ''quic'' \<and> (\<exists>mo configured priority_default. matched = Inr (Some mo) \<and> provided_tunnel mo configured priority_default q)"
    if "quic_accept qc bound reached matched = Inr (Some q)"
    using that quic_accept_Some [OF that] by (auto simp: quic_accept_def provide_def split: sum.splits option.splits)
qed

interpretation http2_provider: tunnel_provider "''http2''" "http2_answers config" for config
  unfolding http2_answers_def by unfold_locales (elim exE, rule accept_provides(1))

interpretation quic_provider: tunnel_provider "''quic''" "quic_answers config" for config
  unfolding quic_answers_def by unfold_locales (elim exE, rule accept_provides(3))

interpretation plug_http2_provider: tunnel_provider "''plug-http2''" "plug_http2_answers config" for config
  unfolding plug_http2_answers_def by unfold_locales (elim exE, rule accept_provides(2))

section \<open>Answers of all protocols\<close>

fun announced_by ::
  "('net, 're) matched_manager \<Rightarrow> match_pair \<Rightarrow> match_out_id \<Rightarrow> label list \<Rightarrow> out_rule_config list \<Rightarrow> i64 \<Rightarrow> bool" where
  "announced_by w Http2Pair = announces (mm_http2 w)"
| "announced_by w PlugHttp2Pair = announces (mm_plug w)"
| "announced_by w QuicPair = announces (mm_quic w)"

fun matched_as :: "('net, 're) matched_manager \<Rightarrow> match_pair \<Rightarrow> string \<Rightarrow> tunnel_id \<Rightarrow> bool" where
  "matched_as w Http2Pair = result_id (mm_http2 w)"
| "matched_as w PlugHttp2Pair = result_id (mm_plug w)"
| "matched_as w QuicPair = result_id (mm_quic w)"

definition matchings_ok :: "in_protocols \<Rightarrow> ('net, 're) matched_manager \<Rightarrow> bool" where
  "matchings_ok p w \<longleftrightarrow> match_inv (ip_http2_lib p) Http2Pair (mm_http2 w) \<and>
     match_inv (ip_plug_lib p) PlugHttp2Pair (mm_plug w) \<and> match_inv (ip_quic_lib p) QuicPair (mm_quic w)"

lemma accept_sound:
  assumes "matchings_ok p w" "accept_answers p w pair match_key out_id (Inr (Some (t, rules, priority)))"
  shows "tun_type t = get_match_name pair \<and> tun_out_id t = out_id \<and> announced_by w pair out_id (tun_labels t) rules priority \<and>
    matched_as w pair match_key (tun_id t)"
proof (cases pair)
  case Http2Pair
  then obtain config matched where "call_answered (mm_http2 w) match_key out_id matched"
      "http2_answers config matched (Inr (Some (t, rules, priority)))"
    using assms(2) by auto
  then show ?thesis using assms(1) http2_provider.answer_sound [of "ip_http2_lib p" Http2Pair "mm_http2 w"] Http2Pair
    by (simp add: matchings_ok_def)
next
  case PlugHttp2Pair
  then obtain config matched where "call_answered (mm_plug w) match_key out_id matched"
      "plug_http2_answers config matched (Inr (Some (t, rules, priority)))"
    using assms(2) by auto
  then show ?thesis using assms(1) plug_http2_provider.answer_sound [of "ip_plug_lib p" PlugHttp2Pair "mm_plug w"] PlugHttp2Pair
    by (simp add: matchings_ok_def)
next
  case QuicPair
  then obtain config matched where "call_answered (mm_quic w) match_key out_id matched"
      "quic_answers config matched (Inr (Some (t, rules, priority)))"
    using assms(2) by auto
  then show ?thesis using assms(1) quic_provider.answer_sound [of "ip_quic_lib p" QuicPair "mm_quic w"] QuicPair
    by (simp add: matchings_ok_def)
qed

lemma matched_as_drawn:
  assumes "matchings_ok p w" "matched_as w pair k i"
  shows "i \<in> (case pair of Http2Pair \<Rightarrow> drawn_ids (mm_http2 w) | PlugHttp2Pair \<Rightarrow> drawn_ids (mm_plug w)
    | QuicPair \<Rightarrow> drawn_ids (mm_quic w))"
  using assms by (cases pair) (auto simp: matchings_ok_def drawn_ids_def dest!: result_id_drawn)

lemma matched_as_unique:
  assumes ok: "matchings_ok p w" and apart: "ids_apart w" and m: "matched_as w pair k i" "matched_as w pair' k' i"
  shows "pair = pair' \<and> k = k'"
proof -
  have "pair = pair'"
    using matched_as_drawn [OF ok m(1)] matched_as_drawn [OF ok m(2)] apart
    by (cases pair; cases pair') (auto simp: ids_apart_def)
  moreover have "k = k'" if "pair = pair'"
    using m ok result_id_unique [of "ip_http2_lib p" Http2Pair "mm_http2 w" k i k']
      result_id_unique [of "ip_plug_lib p" PlugHttp2Pair "mm_plug w" k i k']
      result_id_unique [of "ip_quic_lib p" QuicPair "mm_quic w" k i k'] that
    by (cases pair') (simp_all add: matchings_ok_def)
  ultimately show ?thesis by simp
qed

section \<open>The invariant\<close>

text \<open>An id the manager knows comes from a match whose answer was taken.\<close>

definition traced :: "('net, 're) matched_manager \<Rightarrow> tunnel_id \<Rightarrow> bool" where
  "traced w i \<longleftrightarrow> (\<exists>(pair, match_key) \<in> mm_taken w. matched_as w pair match_key i)"

definition tunnels_announced :: "('net, 're) matched_manager \<Rightarrow> bool" where
  "tunnels_announced w \<longleftrightarrow>
     (\<forall>t \<in> ran (map_of (tunnel_map (sys_manager (mm_manager w)))).
        \<exists>pair rules priority. tun_type t = get_match_name pair \<and> announced_by w pair (tun_out_id t) (tun_labels t) rules priority)"

definition rules_announced ::
  "('net, 're) route_lib \<Rightarrow> (match_out_id \<Rightarrow> string) \<Rightarrow> ('net, 're) matched_manager \<Rightarrow> bool" where
  "rules_announced lib show_id w \<longleftrightarrow>
     (\<forall>out_id rs. out_rules (sys_router (mm_manager w)) out_id = Some rs \<longrightarrow>
        (\<exists>pair labels rules priority. announced_by w pair out_id labels rules priority \<and>
           rs = map (\<lambda>config. out_into_rule lib show_id config out_id priority) rules))"

definition matched_inv ::
  "('net, 're) route_lib \<Rightarrow> (match_out_id \<Rightarrow> string) \<Rightarrow> in_protocols \<Rightarrow> ('net, 're) matched_manager \<Rightarrow> bool" where
  "matched_inv lib show_id p w \<longleftrightarrow>
     matchings_ok p w \<and> ids_apart w \<and> manager_reachable lib show_id (mm_manager w) \<and>
     (\<forall>i \<in> known_ids (mm_manager w). traced w i) \<and> tunnels_announced w \<and> rules_announced lib show_id w"

text \<open>What has been answered, taken and announced stays so.\<close>

definition grows :: "('net, 're) matched_manager \<Rightarrow> ('net, 're) matched_manager \<Rightarrow> bool" where
  "grows w w' \<longleftrightarrow> mm_taken w \<subseteq> mm_taken w' \<and>
     (\<forall>pair k i. matched_as w pair k i \<longrightarrow> matched_as w' pair k i) \<and>
     (\<forall>pair out_id labels rules priority. announced_by w pair out_id labels rules priority \<longrightarrow>
        announced_by w' pair out_id labels rules priority)"

lemma growsI:
  assumes "mm_taken w \<subseteq> mm_taken w'" "mm_http2 w' = mm_http2 w" "mm_plug w' = mm_plug w" "mm_quic w' = mm_quic w"
  shows "grows w w'"
proof -
  have "matched_as w' pair = matched_as w pair" "announced_by w' pair = announced_by w pair" for pair
    using assms(2-4) by (cases pair; simp)+
  then show ?thesis using assms(1) by (simp add: grows_def)
qed

lemma growsD:
  "grows w w' \<Longrightarrow> announced_by w pair out_id labels rules priority \<Longrightarrow> announced_by w' pair out_id labels rules priority"
  by (simp add: grows_def)

lemma traced_mono: "grows w w' \<Longrightarrow> traced w i \<Longrightarrow> traced w' i"
  unfolding grows_def traced_def by blast

lemma announced_mono:
  assumes "tunnels_announced w" "rules_announced lib show_id w" and grows: "grows w w'"
    and "map_of (tunnel_map (sys_manager (mm_manager w'))) \<subseteq>\<^sub>m map_of (tunnel_map (sys_manager (mm_manager w)))"
    and "out_rules (sys_router (mm_manager w')) \<subseteq>\<^sub>m out_rules (sys_router (mm_manager w))"
  shows "tunnels_announced w' \<and> rules_announced lib show_id w'"
proof
  have "ran (map_of (tunnel_map (sys_manager (mm_manager w')))) \<subseteq> ran (map_of (tunnel_map (sys_manager (mm_manager w))))"
    using assms(4) by (auto simp: ran_def map_le_def dom_def) metis
  then show "tunnels_announced w'"
    using assms(1) growsD [OF grows] unfolding tunnels_announced_def by (meson subsetD)
  have "out_rules (sys_router (mm_manager w)) o' = Some rs" if "out_rules (sys_router (mm_manager w')) o' = Some rs" for o' rs
    using assms(5) that by (auto simp: map_le_def dom_def)
  then show "rules_announced lib show_id w'" using assms(2) growsD [OF grows] unfolding rules_announced_def by meson
qed

lemma matched_inv_matching:
  assumes inv: "matched_inv lib show_id p w" and same: "mm_manager w' = mm_manager w" and grows: "grows w w'"
    and ok: "matchings_ok p w'" "ids_apart w'"
  shows "matched_inv lib show_id p w'"
proof -
  have "tunnels_announced w' \<and> rules_announced lib show_id w'"
    by (rule announced_mono [OF _ _ grows]) (use inv same in \<open>auto simp: matched_inv_def\<close>)
  then show ?thesis using inv same ok traced_mono [OF grows] by (simp add: matched_inv_def)
qed

lemma matched_inv_http2:
  assumes inv: "matched_inv lib show_id p w" and law: "protocols_law p"
    and step: "match_step (ip_http2_lib p) Http2Pair (mm_http2 w) m" and apart: "ids_apart (w\<lparr>mm_http2 := m\<rparr>)"
  shows "matched_inv lib show_id p (w\<lparr>mm_http2 := m\<rparr>)"
proof (rule matched_inv_matching [OF inv _ _ _ apart])
  have "matched_as w pair k i \<longrightarrow> matched_as (w\<lparr>mm_http2 := m\<rparr>) pair k i" for pair k i
    using result_id_step [OF step] by (cases pair) auto
  moreover have "announced_by w pair a b c d \<longrightarrow> announced_by (w\<lparr>mm_http2 := m\<rparr>) pair a b c d" for pair a b c d
    using announces_step [OF step] by (cases pair) auto
  ultimately show "grows w (w\<lparr>mm_http2 := m\<rparr>)" by (simp add: grows_def)
  show "matchings_ok p (w\<lparr>mm_http2 := m\<rparr>)"
    using inv law match_inv_step [OF step] by (simp add: matched_inv_def matchings_ok_def protocols_law_def)
qed simp

lemma matched_inv_plug:
  assumes inv: "matched_inv lib show_id p w" and law: "protocols_law p"
    and step: "match_step (ip_plug_lib p) PlugHttp2Pair (mm_plug w) m" and apart: "ids_apart (w\<lparr>mm_plug := m\<rparr>)"
  shows "matched_inv lib show_id p (w\<lparr>mm_plug := m\<rparr>)"
proof (rule matched_inv_matching [OF inv _ _ _ apart])
  have "matched_as w pair k i \<longrightarrow> matched_as (w\<lparr>mm_plug := m\<rparr>) pair k i" for pair k i
    using result_id_step [OF step] by (cases pair) auto
  moreover have "announced_by w pair a b c d \<longrightarrow> announced_by (w\<lparr>mm_plug := m\<rparr>) pair a b c d" for pair a b c d
    using announces_step [OF step] by (cases pair) auto
  ultimately show "grows w (w\<lparr>mm_plug := m\<rparr>)" by (simp add: grows_def)
  show "matchings_ok p (w\<lparr>mm_plug := m\<rparr>)"
    using inv law match_inv_step [OF step] by (simp add: matched_inv_def matchings_ok_def protocols_law_def)
qed simp

lemma matched_inv_quic:
  assumes inv: "matched_inv lib show_id p w" and law: "protocols_law p"
    and step: "match_step (ip_quic_lib p) QuicPair (mm_quic w) m" and apart: "ids_apart (w\<lparr>mm_quic := m\<rparr>)"
  shows "matched_inv lib show_id p (w\<lparr>mm_quic := m\<rparr>)"
proof (rule matched_inv_matching [OF inv _ _ _ apart])
  have "matched_as w pair k i \<longrightarrow> matched_as (w\<lparr>mm_quic := m\<rparr>) pair k i" for pair k i
    using result_id_step [OF step] by (cases pair) auto
  moreover have "announced_by w pair a b c d \<longrightarrow> announced_by (w\<lparr>mm_quic := m\<rparr>) pair a b c d" for pair a b c d
    using announces_step [OF step] by (cases pair) auto
  ultimately show "grows w (w\<lparr>mm_quic := m\<rparr>)" by (simp add: grows_def)
  show "matchings_ok p (w\<lparr>mm_quic := m\<rparr>)"
    using inv law match_inv_step [OF step] by (simp add: matched_inv_def matchings_ok_def protocols_law_def)
qed simp

lemma matched_inv_provided:
  assumes inv: "matched_inv lib show_id p w" and s: "mm_manager w = s"
    and i: "i < length (sys_handlers s)" "h_accepting (sys_handlers s ! i)" and free: "(pair, match_key) \<notin> mm_taken w"
    and answer: "accept_answers p w pair match_key (h_out_id (sys_handlers s ! i)) (Inr (Some (tunnel, rules, priority)))"
    and ord: "hash_order ord" "hash_order ord'"
    and reg: "register_tunnel lib show_id ord' (h_out_id (sys_handlers s ! i)) (tun_id tunnel) rules priority (sys_router s) = Some router"
    and w': "w' = w\<lparr>mm_manager := s\<lparr>sys_manager := accept_tunnel show_id ord tunnel (sys_manager s), sys_router := router,
        sys_handlers := (sys_handlers s)[i := finish_accept Accepted (sys_handlers s ! i)],
        sys_permits := (tun_id tunnel, i) # sys_permits s\<rparr>, mm_taken := insert (pair, match_key) (mm_taken w)\<rparr>"
  shows "matched_inv lib show_id p w'"
proof -
  have ok: "matchings_ok p w" "ids_apart w" using inv by (simp_all add: matched_inv_def)
  have new: "tun_type tunnel = get_match_name pair" "tun_out_id tunnel = h_out_id (sys_handlers s ! i)"
      "announced_by w pair (h_out_id (sys_handlers s ! i)) (tun_labels tunnel) rules priority"
      "matched_as w pair match_key (tun_id tunnel)"
    using accept_sound [OF ok(1) answer] by simp_all
  have grows: "grows w w'" by (rule growsI) (auto simp: w')
  have reach: "manager_reachable lib show_id s" using inv s by (simp add: matched_inv_def)
  have known: "tun_id tunnel \<notin> known_ids s"
  proof
    assume "tun_id tunnel \<in> known_ids s"
    then obtain pair' k' where "(pair', k') \<in> mm_taken w" "matched_as w pair' k' (tun_id tunnel)"
      using inv s by (auto simp: matched_inv_def traced_def)
    then show False using matched_as_unique [OF ok new(4)] free by blast
  qed
  then have fresh: "map_of (tunnel_map (sys_manager s)) (tun_id tunnel) = None" "tun_id tunnel \<notin> fst ` set (sys_permits s)"
    by (auto simp: known_ids_def)
  have "manager_step lib show_id s (mm_manager w')"
    using manager_step.accepted [OF i new(2) fresh ord reg [folded new(2)]] by (simp add: w')
  then have "manager_reachable lib show_id (mm_manager w')" using reach by (rule manager_reachable.step [rotated])
  moreover have "traced w' j" if "j \<in> known_ids (mm_manager w')" for j
  proof (cases "j = tun_id tunnel")
    case True
    moreover have "matched_as w' pair match_key (tun_id tunnel)" using new(4) grows by (simp add: grows_def)
    ultimately show ?thesis by (auto simp: traced_def w')
  next
    case False
    then have "traced w j"
      using that inv s by (auto simp: matched_inv_def known_ids_def w' tunnel_map_accept split: if_splits)
    then show ?thesis by (rule traced_mono [OF grows])
  qed
  moreover have announced: "announced_by w' pair' a b c d" if "announced_by w pair' a b c d" for pair' a b c d
    using that grows by (simp add: grows_def)
  moreover have "tunnels_announced w'"
  proof -
    have "ran (map_of (tunnel_map (sys_manager (mm_manager w')))) = insert tunnel (ran (map_of (tunnel_map (sys_manager s))))"
      using fresh(1) by (simp add: w' tunnel_map_accept)
    moreover have "\<exists>pair rules priority. tun_type t = get_match_name pair \<and> announced_by w pair (tun_out_id t) (tun_labels t) rules priority"
      if "t = tunnel \<or> t \<in> ran (map_of (tunnel_map (sys_manager s)))" for t
      using that
    proof
      assume "t = tunnel"
      then show ?thesis using new by (intro exI [of _ pair] exI [of _ rules] exI [of _ priority]) simp
    qed (use inv s in \<open>simp add: matched_inv_def tunnels_announced_def\<close>)
    ultimately show ?thesis using announced unfolding tunnels_announced_def by (metis insert_iff)
  qed
  moreover have "rules_announced lib show_id w'"
  proof -
    have "out_map_wf (out_rules_map (sys_router s))" using reachable_maps [OF reach] by (simp add: maps_inv_def)
    note abs = register_abs(4) [OF reg ord(2) this]
    show ?thesis
      using inv s announced announced [OF new(3)] unfolding matched_inv_def rules_announced_def
      by (simp add: w' abs del: announced_by.simps) blast
  qed
  moreover have "matchings_ok p w'" "ids_apart w'" using ok by (simp_all add: w' matchings_ok_def ids_apart_def)
  ultimately show ?thesis by (simp add: matched_inv_def)
qed

lemma matched_inv_step:
  assumes "matched_step lib show_id p w w'" and inv: "matched_inv lib show_id p w" and law: "protocols_law p"
  shows "matched_inv lib show_id p w'"
  using assms(1)
proof cases
  case (out_arrived s pair out_id connections)
  have grows: "grows w w'" by (rule growsI) (auto simp: out_arrived(1))
  have "manager_reachable lib show_id (mm_manager w')"
    using inv out_arrived manager_step.accept_out [of lib show_id s out_id connections]
    by (auto simp: matched_inv_def intro: manager_reachable.step)
  moreover have "tunnels_announced w' \<and> rules_announced lib show_id w'"
    by (rule announced_mono [OF _ _ grows]) (use inv out_arrived(1,2) in \<open>auto simp: matched_inv_def\<close>)
  moreover have "matchings_ok p w'" "ids_apart w'" using inv by (simp_all add: matched_inv_def out_arrived(1) matchings_ok_def ids_apart_def)
  ultimately show ?thesis using inv out_arrived(1,2) traced_mono [OF grows] by (simp add: matched_inv_def known_ids_def)
next
  case (tunnel_provided s i pair match_key tunnel rules priority ord ord' router)
  show ?thesis by (rule matched_inv_provided [OF inv tunnel_provided(2-4,6-10) tunnel_provided(1)])
next
  case (otherwise s)
  have grows: "grows w w'" by (rule growsI) (auto simp: otherwise(1))
  have reach: "manager_reachable lib show_id (mm_manager w)" using inv by (simp add: matched_inv_def)
  note same = manager_step_no_tunnel [OF otherwise(2) reachable_maps [OF reach] otherwise(4)]
  have "tunnels_announced w' \<and> rules_announced lib show_id w'"
    by (rule announced_mono [OF _ _ grows]) (use inv same otherwise(1) in \<open>auto simp: matched_inv_def\<close>)
  moreover have "matchings_ok p w'" "ids_apart w'" using inv by (simp_all add: matched_inv_def otherwise(1) matchings_ok_def ids_apart_def)
  moreover have "traced w' i" if "i \<in> known_ids (mm_manager w')" for i
    using that inv otherwise(1,4) traced_mono [OF grows] by (auto simp: matched_inv_def)
  ultimately show ?thesis
    using manager_reachable.step [OF reach otherwise(2)] by (simp add: matched_inv_def otherwise(1))
qed (use matched_inv_http2 [OF inv law] matched_inv_plug [OF inv law] matched_inv_quic [OF inv law] in simp_all)

lemma matched_reachable_inv:
  assumes "matched_reachable lib show_id p w" "protocols_law p"
  shows "matched_inv lib show_id p w"
  using assms(1)
proof (induction rule: matched_reachable.induct)
  case (start configs router)
  then have "manager_reachable lib show_id (manager_system_new router)" by (rule manager_reachable.start)
  moreover have "out_rules router = (\<lambda>_. None)" using start by (auto simp: router_new_def out_rules_def fun_eq_iff)
  moreover have "match_inv (ip_http2_lib p) Http2Pair match_start" "match_inv (ip_plug_lib p) PlugHttp2Pair match_start"
      "match_inv (ip_quic_lib p) QuicPair match_start"
    using assms(2) by (auto simp: protocols_law_def intro: match_reachable_inv)
  ultimately show ?case
    by (simp add: matched_inv_def matched_start_def matchings_ok_def ids_apart_def drawn_ids_def manager_system_new_def
        known_ids_def tunnel_manager_new_def tunnels_announced_def rules_announced_def match_start_def)
qed (rule matched_inv_step [OF _ _ assms(2)])

text \<open>What the invariant says of the tunnels and the cache.\<close>

lemma announced_routes:
  assumes inv: "matched_inv lib show_id p w"
  shows "t \<in> ran (map_of (tunnel_map (sys_manager (mm_manager w)))) \<Longrightarrow>
      \<exists>pair rules priority. tun_type t = get_match_name pair \<and> announced_by w pair (tun_out_id t) (tun_labels t) rules priority"
    and "rule \<in> set (concat (rules_groups_cache (sys_router (mm_manager w)))) \<Longrightarrow>
      rule \<in> set (in_rules (sys_router (mm_manager w))) \<or>
      (\<exists>t \<in> ran (map_of (tunnel_map (sys_manager (mm_manager w)))). \<exists>pair labels rules priority config.
         announced_by w pair (tun_out_id t) labels rules priority \<and> config \<in> set rules \<and>
         rule = out_into_rule lib show_id config (tun_out_id t) priority)"
proof -
  show "\<exists>pair rules priority. tun_type t = get_match_name pair \<and> announced_by w pair (tun_out_id t) (tun_labels t) rules priority"
    if "t \<in> ran (map_of (tunnel_map (sys_manager (mm_manager w))))"
    using inv that unfolding matched_inv_def tunnels_announced_def by blast
  have maps: "maps_inv show_id (mm_manager w)" using inv by (auto simp: matched_inv_def intro: reachable_maps)
  assume "rule \<in> set (concat (rules_groups_cache (sys_router (mm_manager w))))"
  then consider "rule \<in> set (in_rules (sys_router (mm_manager w)))" |
      rs where "rs \<in> ran (out_rules (sys_router (mm_manager w)))" "rule \<in> set rs"
    using maps unfolding maps_inv_def by blast
  then show "rule \<in> set (in_rules (sys_router (mm_manager w))) \<or>
      (\<exists>t \<in> ran (map_of (tunnel_map (sys_manager (mm_manager w)))). \<exists>pair labels rules priority config.
         announced_by w pair (tun_out_id t) labels rules priority \<and> config \<in> set rules \<and>
         rule = out_into_rule lib show_id config (tun_out_id t) priority)"
  proof cases
    case 2
    then obtain out_id where rs: "out_rules (sys_router (mm_manager w)) out_id = Some rs" by (auto simp: ran_def)
    obtain i t where t: "map_of (tunnel_map (sys_manager (mm_manager w))) i = Some t" "tun_out_id t = out_id"
      using maps_inv_tunnel [OF maps rs] by blast
    obtain pair labels rules priority where "announced_by w pair out_id labels rules priority"
      "rs = map (\<lambda>config. out_into_rule lib show_id config out_id priority) rules"
      using inv rs unfolding matched_inv_def rules_announced_def by blast
    moreover obtain config where "config \<in> set rules" "rule = out_into_rule lib show_id config out_id priority"
      using 2(2) calculation(2) by auto
    ultimately show ?thesis using t by (metis ranI)
  qed simp
qed

section \<open>Properties\<close>

lemma matched_reachable_matching:
  assumes "match_reachable (ip_http2_lib p) Http2Pair m" "router_new lib configs = Some router"
  shows "matched_reachable lib show_id p (matched_start router\<lparr>mm_http2 := m\<rparr>)"
  using assms(1)
proof (induction rule: rtranclp_induct)
  case base
  have "matched_start router\<lparr>mm_http2 := match_start\<rparr> = matched_start router" by (simp add: matched_start_def)
  then show ?case using matched_reachable.start [OF assms(2)] by simp
next
  case (step m m')
  have "ids_apart (matched_start router\<lparr>mm_http2 := m'\<rparr>)"
    by (simp add: ids_apart_def matched_start_def drawn_ids_def match_start_def)
  then show ?case
    using matched_reachable.step [OF step.IH] matched_step.http2_matching [of p "matched_start router\<lparr>mm_http2 := m\<rparr>" m'] step.hyps(2)
    by fastforce
qed

text \<open>An example: an IN with all three protocols and one rule of its own has taken the tunnel of the match
  of \<open>example_match_run\<close> over HTTP/2.\<close>

definition example_data :: tls_data where
  "example_data = \<lparr> td_address = SockV4 1 8443, td_cert = [], td_key = [] \<rparr>"

definition example_http2_in :: http2_in_config where
  "example_http2_in = \<lparr> h2c_connections = 1, h2c_priority = None, h2c_priority_default = 100, h2c_traffic_mark = 0xff \<rparr>"

definition example_matched_tunnel :: in_tunnel where
  "example_matched_tunnel =
     \<lparr> tun_type = ''http2'', tun_id = TunnelId 7, tun_out_id = MatchOutId 5, tun_labels = [Custom ''a''], tun_priority = 1 \<rparr>"

lemma example_http2_answer:
  "http2_answers example_http2_in (Inr (Some (example_match_out example_data (TunnelId 7))))
     (Inr (Some (example_matched_tunnel, [], 2)))"
proof -
  have "http2_accept example_http2_in (\<lambda>_. Inr ()) (\<lambda>_ _. Inr ()) (Inr (Some (example_match_out example_data (TunnelId 7)))) =
      Inr (Some (example_matched_tunnel, [], 2))"
    by (simp add: http2_accept_def http2_tunnel_connect_def run_calls_ok provide_def resolve_priority_def
        example_match_out_def example_http2_in_def example_matched_tunnel_def set_keepalive_options_def)
  then show ?thesis unfolding http2_answers_def by blast
qed

definition example_in_rule :: "(ip_addr, string) rule" where
  "example_in_rule = FallbackRule \<lparr> fallback_labels = [Custom ''a''], fallback_tag = None \<rparr>"

definition example_matched_state :: "(ip_addr, string) manager_system" where
  "example_matched_state =
     \<lparr> sys_manager = accept_tunnel (\<lambda>_. ''o'') (\<lambda>xs. xs) example_matched_tunnel tunnel_manager_new,
       sys_router = \<lparr> in_rules = [example_in_rule], out_rules_map = [(MatchOutId 5, [], {TunnelId 7})],
         rules_groups_cache = [[example_in_rule]] \<rparr>,
       sys_handlers = [\<lparr> h_out_id = MatchOutId 5, h_connections = 1, h_available = 0, h_accepting = False, h_done = False \<rparr>],
       sys_permits = [(TunnelId 7, 0)] \<rparr>"

definition example_protocols :: in_protocols where
  "example_protocols =
     \<lparr> ip_http2_lib = example_match_lib () example_data, ip_plug_lib = example_match_lib example_data (),
       ip_quic_lib = example_match_lib () example_data, ip_http2 = Some example_http2_in,
       ip_plug = Some \<lparr> phc_listen_address = SockV4 0 8443, phc_external_port = None, phc_connections = 3, phc_priority = None,
         phc_priority_default = 100, phc_stun_server_addresses = [], phc_traffic_mark = 0xff \<rparr>,
       ip_quic = Some \<lparr> qc_priority = None, qc_priority_default = 101, qc_stun_server_addresses = [], qc_traffic_mark = 0xff \<rparr> \<rparr>"

lemma example_protocols_law: "protocols_law example_protocols"
  by (simp add: protocols_law_def example_protocols_def example_match_lib)

lemma example_matched_manager:
  "\<exists>w. matched_reachable host_lib (\<lambda>_. ''o'') example_protocols w \<and> mm_manager w = example_matched_state"
proof -
  let ?p = example_protocols and ?show = "\<lambda>_ :: match_out_id. ''o''"
  let ?lib = "example_match_lib () example_data"
  let ?reachable = "matched_reachable host_lib ?show ?p"
  let ?step = "matched_step host_lib ?show ?p"
  let ?router = "\<lparr> in_rules = [example_in_rule], out_rules_map = [], rules_groups_cache = [[example_in_rule]] \<rparr>"
  let ?h = "\<lparr> h_out_id = MatchOutId 5, h_connections = 1, h_available = 1, h_accepting = False, h_done = False \<rparr>"
  let ?h' = "?h\<lparr>h_available := 0, h_accepting := True\<rparr>"
  let ?s0 = "manager_system_new ?router"
  have libs: "ip_http2_lib ?p = ?lib" "ip_http2 ?p = Some example_http2_in" by (simp_all add: example_protocols_def)
  obtain m :: "(unit, tls_data) match_state" and ic where m: "match_reachable ?lib Http2Pair m"
    and ic: "ms_in_calls m (uuid_show example_uuid_lib 9) = Some ic" "ic_out_id ic = MatchOutId 5"
      "ic_result ic = Some (Inr (Some (example_match_out example_data (TunnelId 7))))"
    and accepted: "MatchOutId 5 \<in> ms_accepted m"
    using example_match_run [of "()" example_data Http2Pair] by blast
  let ?w0 = "matched_start ?router\<lparr>mm_http2 := m\<rparr>"
  let ?w1 = "?w0\<lparr>mm_manager := ?s0\<lparr>sys_handlers := [?h]\<rparr>, mm_protocols := [Http2Pair]\<rparr>"
  let ?w2 = "?w1\<lparr>mm_manager := ?s0\<lparr>sys_handlers := [?h']\<rparr>\<rparr>"
  have w0: "?reachable ?w0"
    by (rule matched_reachable_matching [of _ _ _ "[InFallback \<lparr> ifall_out = One (Custom ''a''), ifall_tag = None \<rparr>]"])
      (simp_all add: libs m router_new_def example_in_rule_def)
  have step1: "?step ?w0 ?w1"
    using matched_step.out_arrived [of ?w0 ?s0 ?p Http2Pair "MatchOutId 5" 1 host_lib ?show] accepted
    by (simp add: matched_start_def manager_system_new_def handle_out_start_def libs example_http2_in_def)
  have "manager_step host_lib ?show (?s0\<lparr>sys_handlers := [?h]\<rparr>) (?s0\<lparr>sys_handlers := [?h']\<rparr>)"
    using manager_step.acquire [of 0 "?s0\<lparr>sys_handlers := [?h]\<rparr>" ?h' host_lib ?show]
    by (simp add: manager_system_new_def acquire_permit_def)
  then have step2: "?step ?w1 ?w2"
    using matched_step.otherwise [of host_lib ?show ?w1 "?s0\<lparr>sys_handlers := [?h']\<rparr>" ?p]
    by (simp add: known_ids_def manager_system_new_def)
  have reg: "register_tunnel host_lib ?show (\<lambda>xs. xs) (MatchOutId 5) (tun_id example_matched_tunnel)
      [] 2 ?router = Some (sys_router example_matched_state)"
    by (simp add: router_ops all_rules_def insert_tunnel_def groups_by_def example_in_rule_def example_matched_tunnel_def
        example_matched_state_def)
  let ?w3 = "?w1\<lparr>mm_manager := example_matched_state, mm_taken := {(Http2Pair, uuid_show example_uuid_lib 9)}\<rparr>"
  have step3: "?step ?w2 ?w3"
  proof -
    let ?s2 = "?s0\<lparr>sys_handlers := [?h']\<rparr>"
    have "call_answered m (uuid_show example_uuid_lib 9) (MatchOutId 5)
        (Inr (Some (example_match_out example_data (TunnelId 7))) :: tls_data match_out option result)"
      using ic by (auto simp: call_answered_def)
    then have answer: "accept_answers ?p ?w2 Http2Pair (uuid_show example_uuid_lib 9) (MatchOutId 5)
        (Inr (Some (example_matched_tunnel, [], 2)))"
      using example_http2_answer by (auto simp: libs)
    have "?step ?w2 (?w2\<lparr>mm_manager := ?s2\<lparr>sys_manager := accept_tunnel ?show (\<lambda>xs. xs) example_matched_tunnel (sys_manager ?s2),
          sys_router := sys_router example_matched_state, sys_handlers := (sys_handlers ?s2)[0 := finish_accept Accepted (sys_handlers ?s2 ! 0)],
          sys_permits := (tun_id example_matched_tunnel, 0) # sys_permits ?s2\<rparr>,
        mm_taken := insert (Http2Pair, uuid_show example_uuid_lib 9) (mm_taken ?w2)\<rparr>)"
      by (rule matched_step.tunnel_provided [where w = ?w2 and s = ?s2 and i = 0 and rules = "[]" and priority = 2
            and ord = "\<lambda>xs. xs" and ord' = "\<lambda>xs. xs"])
        (use reg answer hash_order_id in \<open>simp_all add: matched_start_def manager_system_new_def del: accept_answers.simps\<close>)
    then show ?thesis by (simp add: matched_start_def manager_system_new_def example_matched_state_def example_matched_tunnel_def)
  qed
  have "?reachable ?w3" by (intro matched_reachable.step [OF _ step3] matched_reachable.step [OF _ step2] matched_reachable.step [OF w0 step1])
  then show ?thesis by (intro exI [of _ ?w3]) simp
qed

lemma example_matched_tunnel_open:
  "map_of (tunnel_map (sys_manager example_matched_state)) (TunnelId 7) = Some example_matched_tunnel"
  by (simp add: example_matched_state_def tunnel_map_accept example_matched_tunnel_def)

text \<open>C15: What the tunnel manager is taken to rely on is what it gets: with the providers of all three
  protocols over one manager, any of them disabled, and the match servers of both sides running next to
  it, however Redis behaves, the manager only reaches states that it reaches when every tunnel it
  accepts has a fresh id and belongs to the OUT asked for.\<close>

theorem matched_manager_refines:
  assumes "protocols_law p" and "matched_reachable lib show_id p w"
  shows "manager_reachable lib show_id (mm_manager w)"
  using matched_reachable_inv [OF assms(2,1)] by (simp add: matched_inv_def)

theorem matched_manager_refines_witness:
  "\<exists>w :: (ip_addr, string) matched_manager. manager_reachable host_lib (\<lambda>_. ''o'') (mm_manager w) \<and>
     map_of (tunnel_map (sys_manager (mm_manager w))) (TunnelId 7) = Some example_matched_tunnel"
proof -
  obtain w :: "(ip_addr, string) matched_manager"
    where w: "matched_reachable host_lib (\<lambda>_. ''o'') example_protocols w" "mm_manager w = example_matched_state"
    using example_matched_manager by blast
  have "map_of (tunnel_map (sys_manager (mm_manager w))) (TunnelId 7) = Some example_matched_tunnel"
    unfolding w(2) by (rule example_matched_tunnel_open)
  then show ?thesis using matched_manager_refines [OF example_protocols_law w(1)] by blast
qed

text \<open>C14: The IN routes by what the OUTs have announced and by nothing else: with the providers of all
  three protocols over one manager, every open tunnel carries the labels that its OUT has published for a
  match of the tunnel's protocol, and every rule in the cache is the IN's own or one that the OUT of an
  open tunnel has published, with that OUT's label and priority.\<close>

theorem routes_as_announced:
  assumes "protocols_law p" and "matched_reachable lib show_id p w"
  shows "(\<forall>t \<in> ran (map_of (tunnel_map (sys_manager (mm_manager w)))).
      \<exists>pair rules priority. tun_type t = get_match_name pair \<and> announced_by w pair (tun_out_id t) (tun_labels t) rules priority) \<and>
    (\<forall>rule \<in> set (concat (rules_groups_cache (sys_router (mm_manager w)))).
      rule \<in> set (in_rules (sys_router (mm_manager w))) \<or>
      (\<exists>t \<in> ran (map_of (tunnel_map (sys_manager (mm_manager w)))). \<exists>pair labels rules priority config.
         announced_by w pair (tun_out_id t) labels rules priority \<and> config \<in> set rules \<and>
         rule = out_into_rule lib show_id config (tun_out_id t) priority))"
  using announced_routes [OF matched_reachable_inv [OF assms(2,1)]] by (intro conjI ballI) blast+

theorem routes_as_announced_witness:
  "\<exists>(w :: (ip_addr, string) matched_manager) rules priority.
     announced_by w Http2Pair (MatchOutId 5) [Custom ''a''] rules priority \<and>
     example_matched_tunnel \<in> ran (map_of (tunnel_map (sys_manager (mm_manager w))))"
proof -
  obtain w :: "(ip_addr, string) matched_manager"
    where w: "matched_reachable host_lib (\<lambda>_. ''o'') example_protocols w" "mm_manager w = example_matched_state"
    using example_matched_manager by blast
  have tunnel: "map_of (tunnel_map (sys_manager (mm_manager w))) (TunnelId 7) = Some example_matched_tunnel"
    unfolding w(2) by (rule example_matched_tunnel_open)
  then have open_tunnel: "example_matched_tunnel \<in> ran (map_of (tunnel_map (sys_manager (mm_manager w))))" by (rule ranI)
  obtain pair rules priority where "tun_type example_matched_tunnel = get_match_name pair"
      "announced_by w pair (tun_out_id example_matched_tunnel) (tun_labels example_matched_tunnel) rules priority"
    using conjunct1 [OF routes_as_announced [OF example_protocols_law w(1)]] open_tunnel by blast
  then have "announced_by w Http2Pair (MatchOutId 5) [Custom ''a''] rules priority"
    by (cases pair) (simp_all add: example_matched_tunnel_def)
  then show ?thesis using open_tunnel by blast
qed

end
