(* ===== verification/In_System.thy ===== *)
theory In_System
  imports Transparent_Proxy Fake_Dns Matched_Manager
begin

text \<open>
  The parts of an IN together: the DNS server that hands out fake addresses and the proxy that
  translates them back, with any lookups in between; and the proxy over the manager, the match
  servers and the OUTs, so that what a connection does is traced to what was announced.
\<close>

section \<open>Lookups over time\<close>












section \<open>Properties\<close>



text \<open>C9: Nothing is sent through an OUT that nobody asked for: with the providers of all three protocols
  over one manager, a connection that the proxy makes through a tunnel goes to an OUT that has published
  the tunnel's labels for a match of the tunnel's protocol, because of a rule that matches its real
  address and name, has the tunnel's tag and a label the tunnel carries, and is the IN's own or was
  published by the OUT of an open tunnel; the tunnel is the best active one for it.\<close>

theorem connection_follows_announcements:
  assumes "protocols_law p" and "unique_law lib" and "matched_reachable lib show_id p w"
    and "px_route_lib px = lib" and "px_router px = sys_router (mm_manager w)"
    and "handle_tcp_connection px is_active connect destination answers steps (sys_manager (mm_manager w)) =
      Some (Some (Served (InTunnel t) tag written c), mg')"
  shows "(\<exists>pair rules priority. tun_type t = get_match_name pair \<and> announced_by w pair (tun_out_id t) (tun_labels t) rules priority) \<and>
    (\<exists>r left d rule label. resolve_tcp_destination px destination answers = Some (r, left) \<and> rs_destination r = Some d \<and>
       label \<in> set (rule_labels rule) \<and> tag = rule_tag rule \<and>
       (is_fallback rule \<or> rule_match lib rule d (rs_name r)
          (geo_lookup (px_geo_lib px) (px_geolite2 px) (sa_ip d)) False = Some (rule_labels rule)) \<and>
       (rule \<in> set (in_rules (sys_router (mm_manager w))) \<or>
        (\<exists>u \<in> ran (map_of (tunnel_map (sys_manager (mm_manager w)))). \<exists>pair labels rules priority config.
           announced_by w pair (tun_out_id u) labels rules priority \<and> config \<in> set rules \<and>
           rule = out_into_rule lib show_id config (tun_out_id u) priority)) \<and>
       asked_for show_id is_active (sys_manager (mm_manager w)) label (InTunnel t))"
proof -
  note inv = matched_reachable_inv [OF assms(3,1)]
  then have reach: "manager_reachable lib show_id (mm_manager w)" by (simp add: matched_inv_def)
  obtain r left d rule label where r: "resolve_tcp_destination px destination answers = Some (r, left)" "rs_destination r = Some d"
    and rule: "rule \<in> set (concat (rules_groups_cache (sys_router (mm_manager w))))" "label \<in> set (rule_labels rule)" "tag = rule_tag rule"
      "is_fallback rule \<or> rule_match lib rule d (rs_name r)
        (geo_lookup (px_geo_lib px) (px_geolite2 px) (sa_ip d)) False = Some (rule_labels rule)"
    and asked: "asked_for show_id is_active (sys_manager (mm_manager w)) label (InTunnel t)"
    using connection_rule [OF reach assms(2,4,5,6)] by blast
  have "t \<in> ran (map_of (tunnel_map (sys_manager (mm_manager w))))"
    using asked reachable_maps [OF reach] by (rule asked_for_open)
  note announced_routes(1) [OF inv this]
  moreover note announced_routes(2) [OF inv rule(1)]
  ultimately show ?thesis using r rule(2-4) asked by blast
qed

theorem connection_follows_announcements_witness:
  "\<exists>(w :: (ip_addr, string) matched_manager) rules priority label.
     announced_by w Http2Pair (MatchOutId 5) [Custom ''a''] rules priority \<and>
     asked_for (\<lambda>_. ''o'') (\<lambda>_. True) (sys_manager example_matched_state) label (InTunnel example_matched_tunnel)"
proof -
  obtain w :: "(ip_addr, string) matched_manager"
    where w: "matched_reachable host_lib (\<lambda>_. ''o'') example_protocols w" "mm_manager w = example_matched_state"
    using example_matched_manager by blast
  let ?px = "example_proxy\<lparr>px_router := sys_router example_matched_state\<rparr>"
  have px: "px_route_lib ?px = host_lib" "px_router ?px = sys_router (mm_manager w)" by (simp_all add: example_proxy_def w(2))
  have "resolve (px_row_order ?px) (px_nets ?px) (px_db ?px) (IpV4 0xC6120001) = Some (Some (IpV4 0x01010101, Some ''a.com''))"
    by (simp add: resolve_def example_proxy_def default_nets_def example_db_def assigned_row_def real_ip_of_octets_def
        trim_end_dots_def strip_while_def be_bytes_4 from_be_def from_be_step_def)
  from resolved_fake_destination [OF this, of 443]
  have destination: "resolve_tcp_destination ?px (SockV4 0xC6120001 443) answers =
      Some (\<lparr> rs_destination = Some (SockV4 0x01010101 443), rs_name = Some ''a.com'',
        rs_labels_groups = route ?px (SockV4 0x01010101 443) (Some ''a.com''), rs_sniff_buffer = None, rs_end = False \<rparr>, answers)" for answers
    by simp
  have route: "route ?px d name = [[(Custom ''a'', None)]]" for d name
    by (simp add: route_def router_match_def example_proxy_def example_matched_state_def example_in_rule_def match_groups_def
        match_group_step_def match_rules_step_def fallback_match_def)
  have "fst (select_tunnel (\<lambda>_. True) (sys_manager example_matched_state) [[(Custom ''a'', None)]]) =
      Some (InTunnel example_matched_tunnel, None)"
    by (simp add: select_tunnel_def example_matched_state_def accept_tunnel_def tunnel_manager_new_def example_matched_tunnel_def
        update_label_to_tunnels_map_def tunnel_labels_def push_label_def select_from_tunnels_def)
  then have "\<exists>c mg'. handle_tcp_connection ?px (\<lambda>_. True) (\<lambda>_ _ _. Inr []) (SockV4 0xC6120001 443) [] []
      (sys_manager (mm_manager w)) = Some (Some (Served (InTunnel example_matched_tunnel) None [] c), mg')"
    by (simp add: handle_tcp_connection_def destination route handle_in_tcp_stream_def split_beta w(2))
  then obtain c mg' where "handle_tcp_connection ?px (\<lambda>_. True) (\<lambda>_ _ _. Inr []) (SockV4 0xC6120001 443) [] []
      (sys_manager (mm_manager w)) = Some (Some (Served (InTunnel example_matched_tunnel) None [] c), mg')" by blast
  note all = connection_follows_announcements [OF example_protocols_law host_lib_unique w(1) px this]
  obtain pair rules priority where "tun_type example_matched_tunnel = get_match_name pair"
      "announced_by w pair (tun_out_id example_matched_tunnel) (tun_labels example_matched_tunnel) rules priority"
    using conjunct1 [OF all] by blast
  then have "announced_by w Http2Pair (MatchOutId 5) [Custom ''a''] rules priority"
    by (cases pair) (simp_all add: example_matched_tunnel_def)
  then show ?thesis using conjunct2 [OF all] unfolding w(2) by blast
qed

end
