(* ===== verification/Start_Up.thy ===== *)
theory Start_Up
  imports App_Config Transparent_Proxy Tls_Setup Fake_Dns Utilities
begin

text \<open>
  The start of an IN, from the command line to the state in which its tasks run: \<open>main\<close>
  (\<open>src/main.rs\<close>) reads the configuration and starts the DNS server (\<open>src/lib/in/fake_ip_dns\<close>) and the
  proxy (\<open>src/lib/in/transparent_proxy.rs\<close>, \<open>up\<close>), with every step that may fail in the code's order.
  The parts come from their own theories: options, providers, router, tunnel manager, fake-IP resolver,
  GeoLite2 database and sockets.
\<close>

section \<open>Starting\<close>

text \<open>The provider of plug-HTTP/2, if there is one, generates its certificate and binds its listener.\<close>

fun plug_serving ::
  "('c, 'k) Tls_Setup.tls_lib \<Rightarrow> system \<Rightarrow> ('c \<times> 'k) result \<Rightarrow> in_tunnel_provider list \<Rightarrow>
   ('c, 'k) serving_provider option result option" where
  "plug_serving rustls sys generated [] = Some (Inr None)"
| "plug_serving rustls sys generated (PlugHttp2InTunnelProvider config # providers) =
     map_option (map_sum id Some) (plug_http2_in_provider_new rustls sys config generated)"
| "plug_serving rustls sys generated (provider # providers) = plug_serving rustls sys generated providers"

text \<open>What runs: the providers with what plug-HTTP/2 serves with, the manager that accepts tunnels
  from them, what destinations are resolved with, and the delay of the first GeoLite2 update.\<close>

record ('net, 're, 'db, 'c, 'k) in_running =
  ir_providers :: "in_tunnel_provider list"
  ir_plug :: "('c, 'k) serving_provider option"
  ir_manager :: "('net, 're) manager_system"
  ir_proxy :: "('net, 're, 'db) proxy"
  ir_first_update :: nat
  ir_forwarder :: udp_forwarder

datatype ('net, 're, 'db, 'c, 'k) in_start_up =
    InPanics
  | InFails error
  | InRuns "('net, 're, 'db, 'c, 'k) in_running"

text \<open>
  \<open>opened\<close> says whether the table of fake addresses can be opened, \<open>cache\<close> is the cache file of the
  GeoLite2 database; \<open>px\<close> holds the libraries that destinations are resolved with and the table. The
  sockets are opened when \<open>try_join!\<close> polls the tasks for the first time, in their order; what the
  system answers to a call may differ from socket to socket.
\<close>

datatype in_socket = DnsSocket | PlugListener | ProxyListener | ProxyDatagrams

definition in_up ::
  "('c, 'k) Tls_Setup.tls_lib \<Rightarrow> ('c \<times> 'k) result \<Rightarrow> (string \<Rightarrow> unit result) \<Rightarrow>
   (string \<Rightarrow> socket_addr list result) \<Rightarrow> (in_socket \<Rightarrow> system) \<Rightarrow> bool \<Rightarrow> cache_file \<Rightarrow> ('net, 're, 'db) proxy \<Rightarrow>
   transparent_proxy_options \<Rightarrow> ('net, 're, 'db, 'c, 'k) in_start_up" where
  "in_up rustls generated open_client lookup_host sys opened cache px options =
     (case in_tunnel_providers open_client lookup_host (\<lambda>_. Inr ()) options of
        Inl e \<Rightarrow> InFails e
      | Inr providers \<Rightarrow>
     (case plug_serving rustls (sys PlugListener) generated providers of
        None \<Rightarrow> InPanics
      | Some (Inl e) \<Rightarrow> InFails e
      | Some (Inr plug) \<Rightarrow>
     (case router_new (px_route_lib px) (tpo_routing_rules options) of
        None \<Rightarrow> InPanics
      | Some router \<Rightarrow>
     (if \<not> opened then InPanics else
      case geolite2_new (px_geo_lib px) cache (1000 * tpo_geolite2_update_interval options) of
        None \<Rightarrow> InPanics
      | Some (geolite2, delay) \<Rightarrow>
     (case snd (proxy_listener (sys ProxyListener) (tpo_listen_address options)) of
        Inl e \<Rightarrow> InFails e
      | Inr _ \<Rightarrow>
     (case snd (proxy_datagram_socket (sys ProxyDatagrams) (tpo_listen_address options)) of
        Inl e \<Rightarrow> InFails e
      | Inr _ \<Rightarrow>
          InRuns \<lparr> ir_providers = providers, ir_plug = plug, ir_manager = manager_system_new router,
            ir_proxy = px\<lparr>px_router := router, px_geolite2 := geolite2, px_nets := tpo_fake_nets options\<rparr>,
            ir_first_update = delay, ir_forwarder = udp_forwarder_new \<rparr>))))))"

text \<open>
  \<open>main\<close> for an IN. \<open>read_config\<close> is what reading and parsing the configuration file answers, \<open>create_dir\<close>
  what creating a directory answers; \<open>create_table\<close> and \<open>open_table\<close> say whether the DNS server can set
  up the table of fake addresses at a path and the proxy can open it. The options of both services are
  computed before either is polled; then the DNS server opens its socket and serves, and the proxy
  starts. \<open>ip_name_servers\<close> are the upstream servers that the DNS server and the proxy ask.
\<close>

record ('net, 're, 'db, 'c, 'k) in_program =
  ip_name_servers :: "socket_addr list"
  ip_dns_address :: socket_addr
  ip_running :: "('net, 're, 'db, 'c, 'k) in_running"

datatype ('net, 're, 'db, 'c, 'k) program_start =
    ProgramPanics
  | ProgramFails error
  | ProgramRuns "('net, 're, 'db, 'c, 'k) in_program"

definition in_main ::
  "in_config result \<Rightarrow> (string \<Rightarrow> unit result) \<Rightarrow> (string \<Rightarrow> string option) \<Rightarrow> (string \<Rightarrow> nat option) \<Rightarrow>
   (string \<times> string \<Rightarrow> bool) \<Rightarrow> (string \<times> string \<Rightarrow> bool) \<Rightarrow> ('c, 'k) Tls_Setup.tls_lib \<Rightarrow> ('c \<times> 'k) result \<Rightarrow>
   (string \<Rightarrow> unit result) \<Rightarrow> (string \<Rightarrow> socket_addr list result) \<Rightarrow> (in_socket \<Rightarrow> system) \<Rightarrow> (string \<times> string \<Rightarrow> cache_file) \<Rightarrow>
   ('net, 're, 'db) proxy \<Rightarrow> string option \<Rightarrow> ('net, 're, 'db, 'c, 'k) program_start" where
  "in_main read_config create_dir scheme parse_duration create_table open_table rustls generated open_client
     lookup_host sys cache px data_dir =
     (case read_config of
        Inl e \<Rightarrow> ProgramFails e
      | Inr config \<Rightarrow>
     (case create_dir data_dir_default of
        Inl e \<Rightarrow> ProgramFails e
      | Inr _ \<Rightarrow>
     (case create_dns_resolver
          (case inc_dns_resolver config of None \<Rightarrow> dns_server_addresses_default | Some server \<Rightarrow> into_vec server) of
        None \<Rightarrow> ProgramPanics
      | Some name_servers \<Rightarrow>
     (case main_in scheme parse_duration data_dir config of
        None \<Rightarrow> ProgramPanics
      | Some start \<Rightarrow>
          (let (dns_address, db_path) = is_fake_ip_dns start; options = is_transparent_proxy start in
     (case fake_ip_dns_up (sys DnsSocket) (create_table db_path) dns_address None of
        DnsPanics \<Rightarrow> ProgramPanics
      | DnsReturns (Inl e) \<Rightarrow> ProgramFails e
      | _ \<Rightarrow>
     (case in_up rustls generated open_client lookup_host sys (open_table (tpo_fake_ip_dns_db_path options))
          (cache (tpo_geolite2_cache_path options)) px options of
        InPanics \<Rightarrow> ProgramPanics
      | InFails e \<Rightarrow> ProgramFails e
      | InRuns run \<Rightarrow>
          ProgramRuns \<lparr> ip_name_servers = name_servers, ip_dns_address = dns_address, ip_running = run \<rparr>)))))))"

section \<open>Lemmas\<close>

lemma resolve_stun_servers_ok:
  "(\<exists>found. resolve_stun_servers lookup_host addresses = Inr found) \<longleftrightarrow> (\<forall>a \<in> set addresses. \<not> isl (lookup_host a))"
proof (induction addresses)
  case (Cons a addresses)
  have "(\<exists>found. map_sum id (\<lambda>rest. x @ rest) (resolve_stun_servers lookup_host addresses) = Inr found) \<longleftrightarrow>
      (\<exists>found. resolve_stun_servers lookup_host addresses = Inr found)" for x
    by (cases "resolve_stun_servers lookup_host addresses") auto
  with Cons show ?case by (simp split: sum.split)
qed simp

lemma plug_serving_ok:
  "(\<exists>r. plug_serving rustls sys generated providers = Some (Inr r)) \<longleftrightarrow>
     (case [config. PlugHttp2InTunnelProvider config \<leftarrow> providers] of
        [] \<Rightarrow> True
      | config # _ \<Rightarrow>
          create_rustls_server_config_and_cert rustls generated \<noteq> None \<and>
          snd (bind_tcp_listener_reuseaddr sys (phc_listen_address config)) = Inr ())"
proof (induction rustls sys generated providers rule: plug_serving.induct)
  case (2 rustls sys generated config providers)
  show ?case
    by (cases "snd (bind_tcp_listener_reuseaddr sys (phc_listen_address config))") (auto simp: plug_http2_in_provider_new_def)
qed auto

lemma in_tunnel_providers_ok:
  assumes "in_tunnel_providers open_client lookup_host (\<lambda>_. Inr ()) options = Inr providers"
  shows "(\<exists>r. plug_serving rustls sys generated providers = Some (Inr r)) \<longleftrightarrow>
    (tpo_plug_http2_enabled options \<longrightarrow>
      create_rustls_server_config_and_cert rustls generated \<noteq> None \<and>
      snd (bind_tcp_listener_reuseaddr sys (tpo_plug_http2_listen_address options)) = Inr ())"
proof -
  have "map phc_listen_address [config. PlugHttp2InTunnelProvider config \<leftarrow> providers] =
      (if tpo_plug_http2_enabled options then [tpo_plug_http2_listen_address options] else [])"
    using assms by (auto simp: in_tunnel_providers_def split: sum.splits)
  then show ?thesis
    unfolding plug_serving_ok
    by (cases "[config. PlugHttp2InTunnelProvider config \<leftarrow> providers]") (auto simp del: not_None_eq concat_eq_Nil_conv split: if_splits)
qed

lemma in_up_runsD:
  assumes "in_up rustls generated open_client lookup_host sys opened cache px options = InRuns r"
  obtains router geolite2 where "router_new (px_route_lib px) (tpo_routing_rules options) = Some router"
    "ir_manager r = manager_system_new router"
    "ir_proxy r = px\<lparr>px_router := router, px_geolite2 := geolite2, px_nets := tpo_fake_nets options\<rparr>"
  using assms by (auto simp: in_up_def split: sum.splits option.splits if_splits)

lemma router_new_rules:
  assumes "router_new lib configs = Some router" "rule \<in> set (in_rules router)"
  shows "\<exists>config \<in> set configs. in_into_rule lib config = Some rule"
proof -
  have "map (in_into_rule lib) configs = map Some (in_rules router)"
    using assms(1) by (auto simp: router_new_def those_Some_iff)
  then have "Some rule \<in> set (map (in_into_rule lib) configs)" using assms(2) by simp
  then show ?thesis by auto
qed

text \<open>Tunnels come and go, the rules of the configuration stay.\<close>

lemma manager_steps_in_rules:
  assumes "(manager_step lib show_id)\<^sup>*\<^sup>* s s'" "manager_reachable lib show_id s"
  shows "manager_reachable lib show_id s' \<and> in_rules (sys_router s') = in_rules (sys_router s)"
  using assms(1)
proof (induction rule: rtranclp_induct)
  case (step s1 s2)
  have wf: "out_map_wf (out_rules_map (sys_router s1))"
    using reachable_maps [of lib show_id s1] step.IH by (simp add: maps_inv_def)
  from step.hyps(2) have "in_rules (sys_router s2) = in_rules (sys_router s1)"
  proof cases
    case (accepted i tunnel ord ord' rules priority router)
    then show ?thesis using register_abs(2) [OF accepted(9,8) wf] by simp
  next
    case (closed tunnel_id tunnel ord ord' router)
    then show ?thesis using unregister_abs(2) [OF closed(5,4) wf] by simp
  qed simp_all
  then show ?case using step manager_reachable.step by metis
qed (use assms(2) in simp)

lemma cached_rules_without_tunnels:
  assumes "manager_reachable lib show_id s" "tunnel_map (sys_manager s) = []"
    and "rule \<in> set (concat (rules_groups_cache (sys_router s)))"
  shows "rule \<in> set (in_rules (sys_router s))"
  using reachable_maps [OF assms(1)] maps_inv_tunnel [OF reachable_maps [OF assms(1)]] assms(2,3)
  by (fastforce simp: maps_inv_def ran_def simp del: set_concat)

text \<open>When the proxy starts.\<close>

lemma in_up_runs_iff:
  "(\<exists>r. in_up rustls generated open_client lookup_host sys opened cache px options = InRuns r) \<longleftrightarrow>
     open_client (redis_client_url (tpo_match_server_config options)) = Inr () \<and>
     (\<forall>a \<in> set (tpo_stun_server_addresses options). \<not> isl (lookup_host a)) \<and>
     (tpo_plug_http2_enabled options \<longrightarrow>
        create_rustls_server_config_and_cert rustls generated \<noteq> None \<and>
        snd (bind_tcp_listener_reuseaddr (sys PlugListener) (tpo_plug_http2_listen_address options)) = Inr ()) \<and>
     (\<forall>config \<in> set (tpo_routing_rules options). in_into_rule (px_route_lib px) config \<noteq> None) \<and>
     opened \<and> (cache = CacheMissing \<or> (\<exists>age data. cache = CacheFile age data \<and> geo_parse (px_geo_lib px) data \<noteq> None)) \<and>
     snd (proxy_listener (sys ProxyListener) (tpo_listen_address options)) = Inr () \<and>
     snd (proxy_datagram_socket (sys ProxyDatagrams) (tpo_listen_address options)) = Inr ()"
proof -
  have providers: "(\<exists>ps. in_tunnel_providers open_client lookup_host (\<lambda>_. Inr ()) options = Inr ps) \<longleftrightarrow>
      open_client (redis_client_url (tpo_match_server_config options)) = Inr () \<and>
      (\<forall>a \<in> set (tpo_stun_server_addresses options). \<not> isl (lookup_host a))"
    unfolding resolve_stun_servers_ok [symmetric] by (auto simp: in_tunnel_providers_def split: sum.splits)
  have router: "(\<exists>router. router_new (px_route_lib px) (tpo_routing_rules options) = Some router) \<longleftrightarrow>
      (\<forall>config \<in> set (tpo_routing_rules options). in_into_rule (px_route_lib px) config \<noteq> None)"
    using those_map_None_iff [of "in_into_rule (px_route_lib px)" "tpo_routing_rules options"]
    by (auto simp: router_new_def simp del: not_None_eq)
  have geolite2: "(\<exists>g. geolite2_new (px_geo_lib px) cache i = Some g) \<longleftrightarrow>
      cache = CacheMissing \<or> (\<exists>age data. cache = CacheFile age data \<and> geo_parse (px_geo_lib px) data \<noteq> None)" for i
    by (cases cache) (auto split: option.splits)
  show ?thesis
  proof (cases "\<exists>ps. in_tunnel_providers open_client lookup_host (\<lambda>_. Inr ()) options = Inr ps")
    case True
    then obtain ps where ps: "in_tunnel_providers open_client lookup_host (\<lambda>_. Inr ()) options = Inr ps" by blast
    show ?thesis
      unfolding geolite2 [of "1000 * tpo_geolite2_update_interval options", symmetric] router [symmetric]
        in_tunnel_providers_ok [OF ps, of rustls "sys PlugListener" generated, symmetric]
      using True [unfolded providers]
      by (auto simp: in_up_def ps split: sum.splits option.splits if_splits)
  next
    case False
    then obtain e where "in_tunnel_providers open_client lookup_host (\<lambda>_. Inr ()) options = Inl e"
      by (cases "in_tunnel_providers open_client lookup_host (\<lambda>_. Inr ()) options") auto
    then show ?thesis using False [unfolded providers] by (auto simp: in_up_def)
  qed
qed

lemma in_main_runs_iff:
  "(\<exists>p. in_main read_config create_dir scheme parse_duration create_table open_table rustls generated open_client
       lookup_host sys cache px data_dir = ProgramRuns p) \<longleftrightarrow>
   (\<exists>config start. read_config = Inr config \<and> create_dir data_dir_default = Inr () \<and>
      create_dns_resolver (case inc_dns_resolver config of None \<Rightarrow> dns_server_addresses_default | Some s \<Rightarrow> into_vec s) \<noteq> None \<and>
      main_in scheme parse_duration data_dir config = Some start \<and>
      create_table (snd (is_fake_ip_dns start)) \<and>
      snd (fake_dns_socket (sys DnsSocket) (fst (is_fake_ip_dns start))) = Inr () \<and>
      (\<exists>r. in_up rustls generated open_client lookup_host sys (open_table (tpo_fake_ip_dns_db_path (is_transparent_proxy start)))
         (cache (tpo_geolite2_cache_path (is_transparent_proxy start))) px (is_transparent_proxy start) = InRuns r))"
  by (cases read_config)
    (auto simp: in_main_def fake_ip_dns_up_def Let_def split_beta
      split: sum.splits option.splits in_start_up.splits)

lemma create_dns_resolver_ok: "create_dns_resolver servers \<noteq> None \<longleftrightarrow> (\<forall>s \<in> set servers. parse_ip_addr s \<noteq> None)"
  unfolding create_dns_resolver_def those_map_None_iff by auto

lemma main_inD:
  assumes "main_in scheme parse_duration data_dir config = Some start"
  shows "into_config scheme (itc_match_server (inc_tunneling config)) = Some (tpo_match_server_config (is_transparent_proxy start))"
    and "rgc_update_interval (irc_geolite2 (inc_routing config)) = Some interval \<Longrightarrow> parse_duration interval \<noteq> None"
    and "is_fake_ip_dns start = (fic_listen (inc_fake_ip_dns config), fake_ip_dns_db_path_default data_dir)"
    and "tpo_listen_address (is_transparent_proxy start) = tpc_listen (inc_transparent_proxy config)"
    and "tpo_fake_ip_dns_db_path (is_transparent_proxy start) = fake_ip_dns_db_path_default data_dir"
    and "tpo_geolite2_cache_path (is_transparent_proxy start) = geolite2_cache_path_default data_dir"
    and "tpo_stun_server_addresses (is_transparent_proxy start) =
      (case itc_stun_server (inc_tunneling config) of None \<Rightarrow> stun_server_addresses_default | Some s \<Rightarrow> into_vec s)"
    and "tpo_plug_http2_enabled (is_transparent_proxy start) = tpl_enabled (itc_plug_http2 (inc_tunneling config))"
    and "tpo_plug_http2_listen_address (is_transparent_proxy start) = tpl_listen_address (itc_plug_http2 (inc_tunneling config))"
    and "tpo_routing_rules (is_transparent_proxy start) = irc_rules (inc_routing config)"
  using assms by (auto simp: main_in_def Let_def bind_eq_Some_conv)

lemma redis_config_iff:
  assumes "into_config scheme m = Some c"
  shows "open_client (redis_client_url c) = Inr () \<longleftrightarrow>
    (\<exists>url. open_client (url @ ''?protocol=resp3'') = Inr () \<and>
       ((m = Url url \<and> (scheme url = Some ''redis'' \<or> scheme url = Some ''rediss'')) \<or>
        (\<exists>key. m = Config (Redis \<lparr> rms_url = url, rms_key = key \<rparr>))))"
proof (cases c)
  case (Redis r)
  then show ?thesis
    using assms by (cases m; cases r) (auto simp: redis_client_url_def split: option.splits if_splits)
qed

lemma sockets_ready:
  "snd (fake_dns_socket sys dns) = Inr () \<longleftrightarrow>
     (\<forall>c \<in> {new_datagram dns, SetReuseAddress, SetNonblocking, BindAddress dns, RegisterSocket}. sys c = Inr ())"
  "snd (bind_tcp_listener_reuseaddr sys address) = Inr () \<longleftrightarrow>
     (\<forall>c \<in> {new_socket address, SetReuseAddress, SetNonblocking, BindAddress address, ListenOn 1024, RegisterSocket}. sys c = Inr ())"
  "snd (proxy_listener sys address) = Inr () \<longleftrightarrow>
     (\<forall>c \<in> {NewSocketV4, SetIpTransparent, SetIpFreebind, SetReuseAddress, SetNodelay, SetKeepalive, SetKeepIdle 60,
        SetKeepInterval 10, SetKeepCount 5, BindAddress address, ListenOn 1024}. sys c = Inr ())"
  "snd (proxy_datagram_socket sys address) = Inr () \<longleftrightarrow>
     (\<forall>c \<in> {new_datagram address, SetReuseAddress, SetIpTransparent, SetNonblocking, BindAddress address, RegisterSocket}.
        sys c = Inr ())"
  by (simp_all add: fake_dns_socket_def bind_tcp_listener_reuseaddr_def proxy_listener_def set_keepalive_options_def run_calls_ok)
    (cases address; auto simp: proxy_datagram_socket_def run_calls_ok ignoring_def)

section \<open>Properties\<close>

text \<open>C34: An IN starts exactly when each step of the start that may fail succeeds: the configuration
  file can be read and the directory created, every name server is an address, the match server is
  given by a Redis URL or a section, the update interval can be parsed, the table of fake addresses
  can be set up and opened, the Redis client opens, every STUN server resolves, no routing rule panics,
  the cached GeoLite2 database is missing or can be read, a certificate can be generated if plug-HTTP/2
  is enabled, and the system answers none of the calls for the sockets with an error, the one for
  \<open>IP_RECVORIGDSTADDR\<close> excepted.\<close>

theorem in_starts_iff:
  "(\<exists>p. in_main read_config create_dir scheme parse_duration create_table open_table rustls generated open_client
       lookup_host sys cache px data_dir = ProgramRuns p) \<longleftrightarrow>
   (\<exists>config. read_config = Inr config \<and> create_dir ''.plug2proxy'' = Inr () \<and>
      (\<forall>s \<in> set (case inc_dns_resolver config of None \<Rightarrow> [''8.8.8.8'', ''8.8.4.4''] | Some servers \<Rightarrow> into_vec servers).
         parse_ip_addr s \<noteq> None) \<and>
      (\<forall>interval. rgc_update_interval (irc_geolite2 (inc_routing config)) = Some interval \<longrightarrow> parse_duration interval \<noteq> None) \<and>
      (\<exists>url. open_client (url @ ''?protocol=resp3'') = Inr () \<and>
         ((itc_match_server (inc_tunneling config) = Url url \<and> (scheme url = Some ''redis'' \<or> scheme url = Some ''rediss'')) \<or>
          (\<exists>key. itc_match_server (inc_tunneling config) = Config (Redis \<lparr> rms_url = url, rms_key = key \<rparr>)))) \<and>
      (\<forall>host \<in> set (case itc_stun_server (inc_tunneling config) of
           None \<Rightarrow> [''stun.l.google.com:19302'', ''stun.miwifi.com:3478''] | Some hosts \<Rightarrow> into_vec hosts).
         \<not> isl (lookup_host host)) \<and>
      (\<forall>rule \<in> set (irc_rules (inc_routing config)). in_into_rule (px_route_lib px) rule \<noteq> None) \<and>
      (let dir = (case data_dir of None \<Rightarrow> ''.plug2proxy'' | Some d \<Rightarrow> d) in
         create_table (dir, ''fake_ip_dns.db'') \<and> open_table (dir, ''fake_ip_dns.db'') \<and>
         cache (dir, ''geolite2.mmdb'') \<noteq> CacheUnreadable \<and>
         (\<forall>age data. cache (dir, ''geolite2.mmdb'') = CacheFile age data \<longrightarrow> geo_parse (px_geo_lib px) data \<noteq> None)) \<and>
      (let dns = fic_listen (inc_fake_ip_dns config) in
         \<forall>c \<in> {new_datagram dns, SetReuseAddress, SetNonblocking, BindAddress dns, RegisterSocket}. sys DnsSocket c = Inr ()) \<and>
      (let plug = itc_plug_http2 (inc_tunneling config); address = tpl_listen_address plug in
         tpl_enabled plug \<longrightarrow> create_rustls_server_config_and_cert rustls generated \<noteq> None \<and>
         (\<forall>c \<in> {new_socket address, SetReuseAddress, SetNonblocking, BindAddress address, ListenOn 1024, RegisterSocket}.
            sys PlugListener c = Inr ())) \<and>
      (let address = tpc_listen (inc_transparent_proxy config) in
         (\<forall>c \<in> {NewSocketV4, SetIpTransparent, SetIpFreebind, SetReuseAddress, SetNodelay, SetKeepalive, SetKeepIdle 60,
              SetKeepInterval 10, SetKeepCount 5, BindAddress address, ListenOn 1024}. sys ProxyListener c = Inr ()) \<and>
         (\<forall>c \<in> {new_datagram address, SetReuseAddress, SetIpTransparent, SetNonblocking, BindAddress address, RegisterSocket}.
            sys ProxyDatagrams c = Inr ())))"
  (is "?runs \<longleftrightarrow> ?all_succeed")
proof (cases read_config)
  case config: (Inr config)
  show ?thesis
  proof (cases "main_in scheme parse_duration data_dir config")
    case None
    then have bad: "\<not> (\<exists>url. (itc_match_server (inc_tunneling config) = Url url \<and> (scheme url = Some ''redis'' \<or> scheme url = Some ''rediss'')) \<or>
          (\<exists>key. itc_match_server (inc_tunneling config) = Config (Redis \<lparr> rms_url = url, rms_key = key \<rparr>))) \<or>
        \<not> (\<forall>interval. rgc_update_interval (irc_geolite2 (inc_routing config)) = Some interval \<longrightarrow> parse_duration interval \<noteq> None)"
      by (auto simp: main_in_def Let_def bind_eq_None_conv split: option.splits)
    have "\<not> ?runs" unfolding in_main_runs_iff using None config by simp
    moreover have "\<not> ?all_succeed" by (intro notI, elim exE conjE) (use bad config in auto)
    ultimately show ?thesis by blast
  next
    case (Some start)
    note start = main_inD [OF Some]
    have dir: "fake_ip_dns_db_path_default data_dir = (case data_dir of None \<Rightarrow> ''.plug2proxy'' | Some d \<Rightarrow> d, ''fake_ip_dns.db'')"
      "geolite2_cache_path_default data_dir = (case data_dir of None \<Rightarrow> ''.plug2proxy'' | Some d \<Rightarrow> d, ''geolite2.mmdb'')"
      by (simp_all add: fake_ip_dns_db_path_default_def geolite2_cache_path_default_def data_dir_default_def split: option.split)
    have cached: "f = CacheMissing \<or> (\<exists>age data. f = CacheFile age data \<and> P data) \<longleftrightarrow>
        f \<noteq> CacheUnreadable \<and> (\<forall>age data. f = CacheFile age data \<longrightarrow> P data)" for f and P :: "u8 list \<Rightarrow> bool"
      by (cases f) auto
    have one: "(\<exists>c start'. Inr config = Inr c \<and> A \<and> B c \<and> main_in scheme parse_duration data_dir c = Some start' \<and> C start') \<longleftrightarrow>
        A \<and> B config \<and> C start" for A B and C :: "in_start \<Rightarrow> bool"
      using Some by auto
    have interval: "(\<forall>interval. rgc_update_interval (irc_geolite2 (inc_routing config)) = Some interval \<longrightarrow> parse_duration interval \<noteq> None) \<longleftrightarrow> True"
      using start(2) by blast
    show ?thesis
      unfolding in_main_runs_iff config one
      unfolding in_up_runs_iff cached create_dns_resolver_ok redis_config_iff [OF start(1)]
        start(3-) dir fst_conv snd_conv Let_def sum.inject simp_thms interval sockets_ready
        data_dir_default_def dns_server_addresses_default_def stun_server_addresses_default_def
      by argo
  qed
qed (simp add: in_main_runs_iff)

text \<open>An example: plug-HTTP/2 only, and everything goes out directly.\<close>

definition example_options :: transparent_proxy_options where
  "example_options = \<lparr>
     tpo_listen_address = SockV4 0 12345, tpo_traffic_mark = 0xff, tpo_fake_ip_dns_db_path = (''d'', ''f''),
     tpo_fake_nets = default_nets, tpo_stun_server_addresses = [''s''],
     tpo_match_server_config = Redis \<lparr> rms_url = ''redis://r'', rms_key = None \<rparr>,
     tpo_http2_enabled = False, tpo_http2_connections = 1, tpo_http2_priority = None, tpo_http2_priority_default = 100,
     tpo_plug_http2_enabled = True, tpo_plug_http2_listen_address = SockV4 0 8443, tpo_plug_http2_external_port = None,
     tpo_plug_http2_connections = 3, tpo_plug_http2_priority = None, tpo_plug_http2_priority_default = 100,
     tpo_quic_enabled = False, tpo_quic_priority = None, tpo_quic_priority_default = 101,
     tpo_routing_rules = in_routing_rules_default, tpo_geolite2_cache_path = (''d'', ''g''), tpo_geolite2_url = ''u'',
     tpo_geolite2_update_interval = 86400 \<rparr>"

lemma example_certificate: "create_rustls_server_config_and_cert example_rustls (Inr (n, n)) \<noteq> None"
  by (simp add: create_rustls_server_config_and_cert_def example_rustls_def)

theorem in_starts_iff_witness:
  "\<exists>p. in_main (Inr (de_in_config None None None (de_in_tunneling None (Url ''redis://r'') None None None) None)) (\<lambda>_. Inr ())
     (\<lambda>_. Some ''redis'') (\<lambda>_. None) (\<lambda>_. True) (\<lambda>_. True) example_rustls (Inr (3, 3)) (\<lambda>_. Inr ())
     (\<lambda>_. Inr [SockV4 1 3478]) (\<lambda>_ c. if c = SetRecvOrigDstAddr then Inl (External ''option'') else Inr ())
     (\<lambda>_. CacheMissing) example_proxy (Some ''data'') = ProgramRuns p"
  unfolding in_starts_iff
  by (simp add: de_in_config_def de_in_tunneling_def default_section_defs constant_defs start_constant_defs parse_defs example_certificate
      del: not_None_eq)

text \<open>C40: An IN without tunnels, one that has just started or one whose tunnels have all closed, serves
  a connection directly or not at all, and directly only because a rule of its configuration that
  answers \<open>DIRECT\<close> or \<open>ANY\<close> matched it, however the tunnels that came and went have regrouped the
  rules: what is to go through a tunnel never leaves past the tunnels while there are none.\<close>

theorem in_without_tunnels_serves_direct_only:
  assumes "in_up rustls generated open_client lookup_host sys opened cache px options = InRuns run"
    and "unique_law (px_route_lib px)"
    and "(manager_step (px_route_lib px) show_id)\<^sup>*\<^sup>* (ir_manager run) s" and "tunnel_map (sys_manager s) = []"
    and "px_route_lib px' = px_route_lib px" and "px_router px' = sys_router s"
    and "handle_tcp_connection px' is_active connect destination answers steps (sys_manager s) =
      Some (Some (Served tunnel tag written c), mg')"
  shows "tunnel = DirectInTunnel \<and>
    (\<exists>r left d. resolve_tcp_destination px' destination answers = Some (r, left) \<and> rs_destination r = Some d \<and>
       (\<exists>config \<in> set (tpo_routing_rules options). \<exists>rule. in_into_rule (px_route_lib px) config = Some rule \<and>
          (BuiltIn Direct \<in> set (rule_labels rule) \<or> BuiltIn Any \<in> set (rule_labels rule)) \<and> tag = rule_tag rule \<and>
          (is_fallback rule \<or> rule_match (px_route_lib px) rule d (rs_name r)
             (geo_lookup (px_geo_lib px') (px_geolite2 px') (sa_ip d)) False = Some (rule_labels rule))))"
proof -
  obtain router where router: "router_new (px_route_lib px) (tpo_routing_rules options) = Some router"
      and manager: "ir_manager run = manager_system_new router"
    using in_up_runsD [OF assms(1)] by metis
  have "manager_reachable (px_route_lib px) show_id (ir_manager run)"
    using manager_reachable.start [OF router] by (simp add: manager)
  from manager_steps_in_rules [OF assms(3) this]
  have reachable: "manager_reachable (px_route_lib px) show_id s" and rules: "in_rules (sys_router s) = in_rules router"
    by (simp_all add: manager manager_system_new_def)
  obtain r left d rule label where r: "resolve_tcp_destination px' destination answers = Some (r, left)" "rs_destination r = Some d"
    and rule: "rule \<in> set (concat (rules_groups_cache (sys_router s)))" "label \<in> set (rule_labels rule)" "tag = rule_tag rule"
      "is_fallback rule \<or> rule_match (px_route_lib px) rule d (rs_name r)
         (geo_lookup (px_geo_lib px') (px_geolite2 px') (sa_ip d)) False = Some (rule_labels rule)"
    and asked: "asked_for show_id is_active (sys_manager s) label tunnel"
    using connection_rule [OF reachable assms(2,5-7)] by blast
  obtain config where "config \<in> set (tpo_routing_rules options)" "in_into_rule (px_route_lib px) config = Some rule"
    using router_new_rules [OF router] cached_rules_without_tunnels [OF reachable assms(4) rule(1)] rules by auto
  moreover have "tunnel = DirectInTunnel" "label = BuiltIn Direct \<or> label = BuiltIn Any"
    using asked assms(4) by (auto simp: asked_for_def carriers_def Let_def split: any_in_tunnel.splits)
  ultimately show ?thesis using r rule by blast
qed

text \<open>An example: an IN has started, taken a tunnel and lost it again.\<close>

definition example_direct_router :: "(ip_addr, string) router" where
  "example_direct_router =
    \<lparr> in_rules = [FallbackRule \<lparr> fallback_labels = [BuiltIn Direct], fallback_tag = None \<rparr>], out_rules_map = [],
      rules_groups_cache = [[FallbackRule \<lparr> fallback_labels = [BuiltIn Direct], fallback_tag = None \<rparr>]] \<rparr>"

lemma example_tunnel_gone:
  "\<exists>s. (manager_step host_lib (\<lambda>_. ''o''))\<^sup>*\<^sup>* (manager_system_new example_direct_router) s \<and>
     tunnel_map (sys_manager s) = [] \<and> sys_router s = example_direct_router \<and>
     label_to_tunnels_map (sys_manager s) = [] \<and> length (sys_handlers s) = 1"
proof -
  let ?show = "\<lambda>_ :: match_out_id. ''o''" and ?direct = "FallbackRule \<lparr> fallback_labels = [BuiltIn Direct], fallback_tag = None \<rparr>"
  let ?h = "\<lparr> h_out_id = MatchOutId 1, h_connections = 1, h_available = 1, h_accepting = False, h_done = False \<rparr>"
  let ?router = "example_direct_router\<lparr>out_rules_map := [(MatchOutId 1, [], {TunnelId 7})]\<rparr>"
  let ?mg = "accept_tunnel ?show (\<lambda>xs. xs) example_tunnel tunnel_manager_new"
  let ?s0 = "manager_system_new example_direct_router"
  let ?s1 = "?s0\<lparr>sys_handlers := [?h]\<rparr>"
  let ?s2 = "?s0\<lparr>sys_handlers := [?h\<lparr>h_available := 0, h_accepting := True\<rparr>]\<rparr>"
  let ?s3 = "\<lparr> sys_manager = ?mg, sys_router = ?router,
      sys_handlers = [?h\<lparr>h_available := 0, h_accepting := False\<rparr>], sys_permits = [(TunnelId 7, 0)] \<rparr>"
  let ?s4 = "?s3\<lparr>sys_manager := close_tunnel ?show (\<lambda>xs. xs) (TunnelId 7) ?mg, sys_router := example_direct_router\<rparr>"
  have "manager_step host_lib ?show ?s0 ?s1"
    using manager_step.accept_out [of host_lib ?show ?s0 "MatchOutId 1" 1]
    by (simp add: manager_system_new_def handle_out_start_def)
  moreover have "manager_step host_lib ?show ?s1 ?s2"
    using manager_step.acquire [of 0 ?s1 "?h\<lparr>h_available := 0, h_accepting := True\<rparr>" host_lib ?show]
    by (simp add: manager_system_new_def acquire_permit_def)
  moreover have "manager_step host_lib ?show ?s2 ?s3"
  proof -
    have "register_tunnel host_lib ?show (\<lambda>xs. xs) (MatchOutId 1) (TunnelId 7) [] 0 example_direct_router = Some ?router"
      by (simp add: router_ops example_direct_router_def all_rules_def insert_tunnel_def groups_by_def)
    then show ?thesis
      using manager_step.accepted [of 0 ?s2 example_tunnel "\<lambda>xs. xs" "\<lambda>xs. xs" host_lib ?show "[]" 0 ?router]
      by (simp add: manager_system_new_def example_tunnel_def tunnel_manager_new_def hash_order_id)
  qed
  moreover have "manager_step host_lib ?show ?s3 ?s4"
  proof -
    have "unregister_tunnel (\<lambda>xs. xs) (MatchOutId 1) (TunnelId 7) ?router = Some example_direct_router"
      by (simp add: router_ops example_direct_router_def all_rules_def remove_tunnel_def groups_by_def)
    then show ?thesis
      using manager_step.closed [of ?s3 "TunnelId 7" example_tunnel "\<lambda>xs. xs" "\<lambda>xs. xs" example_direct_router host_lib ?show]
      by (simp add: tunnel_map_accept example_tunnel_def tunnel_manager_new_def hash_order_id)
  qed
  ultimately have "(manager_step host_lib ?show)\<^sup>*\<^sup>* ?s0 ?s4" by (meson converse_rtranclp_into_rtranclp rtranclp.rtrancl_refl)
  then show ?thesis
    by (intro exI [of _ ?s4]) (simp add: close_tunnel_def accept_tunnel_def tunnel_manager_new_def example_tunnel_def
        update_label_to_tunnels_map_def Let_def)
qed

theorem in_without_tunnels_serves_direct_only_witness:
  "\<exists>r left d. resolve_tcp_destination (example_proxy\<lparr>px_router := example_direct_router\<rparr>) (SockV4 0xC6120001 443) [] = Some (r, left) \<and>
    rs_destination r = Some d \<and>
    (\<exists>config \<in> set in_routing_rules_default. \<exists>rule. in_into_rule host_lib config = Some rule \<and>
       (BuiltIn Direct \<in> set (rule_labels rule) \<or> BuiltIn Any \<in> set (rule_labels rule)))"
proof -
  let ?px = "example_proxy\<lparr>px_router := example_direct_router\<rparr>"
  have new: "router_new host_lib in_routing_rules_default = Some example_direct_router"
    by (simp add: router_new_def in_routing_rules_default_def example_direct_router_def)
  have lib: "px_route_lib example_proxy = host_lib" by (simp add: example_proxy_def)
  have certificate: "create_rustls_server_config_and_cert example_rustls (Inr (3, 3)) =
      Some (sp_server_config (example_serving 3), ''ccc'', ''kkk'')"
    by (simp add: create_rustls_server_config_and_cert_def example_rustls_def example_serving_def numeral_3_eq_3)
  have sockets: "snd (proxy_listener (\<lambda>_. Inr ()) a) = Inr ()" "snd (proxy_datagram_socket (\<lambda>_. Inr ()) a) = Inr ()"
    "snd (bind_tcp_listener_reuseaddr (\<lambda>_. Inr ()) a) = Inr ()" for a
    by (simp_all add: proxy_listener_def proxy_datagram_socket_def bind_tcp_listener_reuseaddr_def ignoring_def run_calls_ok)
  obtain run where run: "in_up example_rustls (Inr (3, 3)) (\<lambda>_. Inr ()) (\<lambda>_. Inr [SockV4 1 3478]) (\<lambda>_ _. Inr ()) True CacheMissing
      example_proxy example_options = InRuns run" "ir_manager run = manager_system_new example_direct_router"
    by (simp add: in_up_def in_tunnel_providers_def example_options_def plug_http2_in_provider_new_def certificate sockets new lib)
  obtain s where s: "(manager_step host_lib (\<lambda>_. ''o''))\<^sup>*\<^sup>* (ir_manager run) s" "tunnel_map (sys_manager s) = []"
      "sys_router s = example_direct_router" "label_to_tunnels_map (sys_manager s) = []"
    using example_tunnel_gone unfolding run(2) by blast
  have "resolve (px_row_order ?px) (px_nets ?px) (px_db ?px) (IpV4 0xC6120001) = Some (Some (IpV4 0x01010101, Some ''a.com''))"
    by (simp add: resolve_def example_proxy_def default_nets_def example_db_def assigned_row_def real_ip_of_octets_def
        trim_end_dots_def strip_while_def be_bytes_4 from_be_def from_be_step_def)
  from resolved_fake_destination [OF this, of 443]
  have destination: "resolve_tcp_destination ?px (SockV4 0xC6120001 443) answers =
      Some (\<lparr> rs_destination = Some (SockV4 0x01010101 443), rs_name = Some ''a.com'',
        rs_labels_groups = route ?px (SockV4 0x01010101 443) (Some ''a.com''), rs_sniff_buffer = None, rs_end = False \<rparr>, answers)" for answers
    by simp
  have route: "route ?px d name = [[(BuiltIn Direct, None)]]" for d name
    by (simp add: route_def router_match_def example_direct_router_def example_proxy_def match_groups_def match_group_step_def
        match_rules_step_def fallback_match_def)
  have "\<exists>c mg'. handle_tcp_connection ?px (\<lambda>_. True) (\<lambda>_ _ _. Inr []) (SockV4 0xC6120001 443) [] []
      (sys_manager s) = Some (Some (Served DirectInTunnel None [] c), mg')"
    by (simp add: handle_tcp_connection_def destination route handle_in_tcp_stream_def split_beta select_tunnel_def)
  then obtain c mg' where served: "handle_tcp_connection ?px (\<lambda>_. True) (\<lambda>_ _ _. Inr []) (SockV4 0xC6120001 443) [] []
      (sys_manager s) = Some (Some (Served DirectInTunnel None [] c), mg')" by blast
  have unique: "unique_law (px_route_lib example_proxy)" and rules: "tpo_routing_rules example_options = in_routing_rules_default"
    and px: "px_route_lib ?px = px_route_lib example_proxy" "px_router ?px = sys_router s"
    by (simp_all add: lib host_lib_unique example_options_def s(3))
  from in_without_tunnels_serves_direct_only [OF run(1) unique s(1) [folded lib] s(2) px served]
  show ?thesis unfolding rules lib by blast
qed

end
