(* ===== verification/Spec2Isabelle.thy ===== *)
theory Spec2Isabelle
  imports Manager_System Route_Config Byte_Stream Http2_Tunnel Fake_Ip Match_Server Transparent_Proxy
    Tunnel_Providers Utilities App_Config Udp_Receive
    Match_Protocol End_To_End Provider_Loops Tls_Setup Fake_Dns Matched_Manager
    In_System Start_Up
begin

text \<open>
  Plug2Proxy in Isabelle/HOL.

  The program. Plug2Proxy is a transparent proxy of two kinds of processes. An IN takes the
  connections and datagrams of a network; an OUT connects them to their destinations. Both meet at a
  match server (Redis) and exchange addresses, certificates, labels and routing rules there; then
  they set up tunnels: HTTP/2 from IN to OUT (\<open>http2\<close>), HTTP/2 over a connection that the OUT makes
  to the IN (\<open>plug-http2\<close>), or QUIC. In an IN, a fake-IP DNS server answers queries with addresses of
  its own and remembers the name and the real address; a connection to such an address is translated
  back, one to another address is sniffed for a TLS server name; the router matches destination,
  name and region codes against the rules of the IN and of every OUT with a tunnel and answers groups
  of labels; the tunnel manager selects the tunnel, or the direct connection, by these labels; the
  stream is connected through it and copied both ways. Datagrams are translated back and forwarded
  directly.

  Theories and code. All paths are below \<open>src/src/\<close>; a definition has the name of the function,
  type or method it models unless HOL uses that name.

  \<^item> Prelude, Ids, Bytes, Net, Net_Text, Net_Text_Roundtrip: errors and results, hash maps as
    association lists, grouping and sorting; identifiers with their order; reading octets and UTF-8;
    addresses with their octets and predicates (\<open>lib/utils/net/miscellaneous.rs\<close>); printing and parsing of
    addresses as the standard library does it.
  \<^item> Rule, Route_Config, Router, Router_Spec: the rules (\<open>lib/route/rule.rs\<close>), their
    configuration (\<open>lib/route/config/\<close>), the router (\<open>lib/route/router.rs\<close>) and its specification.
    The record router has the fields of the struct, behind their locks.
  \<^item> Geolite: the GeoLite2 reader, its cache file and its updates (\<open>lib/route/geolite2.rs\<close>).
  \<^item> Tunnel, Tunnel_Manager, Manager_System: identity of tunnels (\<open>lib/tunnel/tunnel.rs\<close>,
    \<open>tunnels.rs\<close>, \<open>common.rs\<close>, \<open>lib/common.rs\<close>); the maps of the manager and the selection
    (\<open>lib/in/tunnel_manager.rs\<close>); its tasks, the semaphores of the OUTs and the router together as a
    step relation.
  \<^item> Byte_Stream, Compat, Http2_Tunnel: the head of a stream (\<open>lib/tunnel/byte_stream_tunnel.rs\<close>);
    the adapters from h2 streams to reading and writing (\<open>lib/tunnel/http2/compat.rs\<close>); requests, the
    life of a tunnel and window sizes (\<open>lib/tunnel/http2/http2_tunnel.rs\<close>).
  \<^item> Match_Server, Tunnel_Providers: keys, encryption, acceptance of OUTs, matching on both ends
    (\<open>lib/match_server/\<close>); the providers of the three protocols and the slot of pending streams
    (\<open>lib/tunnel/http2/http2_tunnel_provider.rs\<close>, \<open>plug_http2_tunnel_provider.rs\<close>,
    \<open>lib/tunnel/quic/quic_tunnel_provider.rs\<close>).
  \<^item> Match_Protocol: the match servers of both sides over one Redis as a step relation, each command a
    step (\<open>lib/match_server/redis_match_server.rs\<close>).
  \<^item> Matched_Manager: the manager's tasks, the providers of up to three protocols over it and the match
    servers of both sides composed; it turns what Manager_System assumes of accepted tunnels into a
    theorem. Each protocol has its part of Redis to itself, since its keys start with its name or are
    UUIDs.
  \<^item> In_System: the DNS server and the proxy over one table; the proxy over the manager and the match
    servers.
  \<^item> Start_Up: the start of an IN from its configuration to its running tasks (\<open>main.rs\<close>, the DNS
    server's \<open>up\<close>, \<open>up\<close> of \<open>lib/in/transparent_proxy.rs\<close>).
  \<^item> Provider_Loops: the listener for plug-HTTP/2 streams, accepting tunnels on the OUT end, the loop of
    \<open>out::up\<close> over its providers and tunnels, and how HTTP/2 and QUIC tunnels feed it
    (\<open>lib/out/out.rs\<close>, \<open>lib/tunnel/quic/quic_tunnel.rs\<close>, the providers).
  \<^item> Tls_Setup: the TLS configurations of both ends, the QUIC endpoints and what the serving providers
    keep (\<open>lib/tunnel/common.rs\<close>, \<open>lib/tunnel/quic/quinn.rs\<close>, the providers).
  \<^item> Fake_Ip, Fake_Dns: the table of fake addresses, the DNS answers, the way back and the DNS server's
    socket (\<open>lib/in/fake_ip_dns/fake_authority.rs\<close>, \<open>fake_ip_resolver.rs\<close>, \<open>fake_ip_dns.rs\<close>).
  \<^item> Sniffing, Copying, Sockets: the server name of a TLS connection
    (\<open>lib/in/transparent_proxy.rs\<close>); copying both ways (\<open>lib/utils/io.rs\<close>); the calls that open a
    connection (\<open>lib/tunnel/direct_tunnel.rs\<close>, \<open>lib/out/local_output.rs\<close>,
    \<open>lib/utils/net/socket/socket.rs\<close>).
  \<^item> Socket_Setup: listening sockets, the sockets for datagrams, the options of accepted streams
    (\<open>lib/in/transparent_proxy.rs\<close>, \<open>lib/in/udp_forwarder.rs\<close>, \<open>lib/utils/net/miscellaneous.rs\<close>).
  \<^item> Udp_Forwarder, Udp_Receive: associations and their clean-up (\<open>lib/in/udp_forwarder.rs\<close>);
    receiving with the original destination (\<open>lib/utils/net/socket/shadowsocks_rust/mod.rs\<close>).
  \<^item> Transparent_Proxy: the IN's connections and datagrams, composed of the above
    (\<open>lib/in/transparent_proxy.rs\<close>).
  \<^item> Outputs: the OUT behind its tunnels (\<open>lib/out/\<close>).
  \<^item> End_To_End: a connection from the client to its destination and back, over each transport.
  \<^item> App_Config, Utilities: configuration, constants and what \<open>main\<close> and \<open>up\<close> set up (\<open>config.rs\<close>,
    \<open>constants.rs\<close>, \<open>main.rs\<close>, \<open>lib/config.rs\<close>); host names, STUN and the rate limiter
    (\<open>lib/in/dns_resolver.rs\<close>, \<open>lib/utils/stun.rs\<close>, \<open>semaphore_rate_limiter.rs\<close>).

  Conventions. A string of Rust is a HOL string, its octets where they matter given by \<open>bytes_of\<close>;
  \<open>i64\<close>, \<open>u64\<close> and \<open>usize\<close> are 64-bit words, compared signed by \<open>sint\<close>. A hash map is an
  association list, and an operation that iterates over one takes the order as an argument of which
  only \<open>hash_order\<close> is known. \<open>Result\<close> is a sum with the errors on the left. A panic is \<open>None\<close>; the
  program is built with \<open>panic = "abort"\<close>, so it ends the process. A loop over the answers of its
  environment recurses over the list of these answers, which is its fuel: \<open>None\<close>, or a result that
  says so, stands for a loop that still waits when the list ends. Tasks that interleave are a step
  relation or an arbitrary list of events. Sleeping, logging and measuring time leave no trace.
  Libraries (h2, http, rustls, rcgen, quinn, tls_parser, ipnet, regex, uuid, the cipher, maxminddb, socket2, SQLite's row
  order, the operating system) are arguments; what is relied on is a named law, each with an instance
  that satisfies it and appears in the witnesses.

  Interfaces. Five locales state what a client relies on: \<open>rule_trait\<close>, the contract of
  the rules towards the router; \<open>in_tunnel_trait\<close>, the permit and the life of a tunnel
  towards the manager; \<open>tunnel_provider\<close>, that a provider hands out tunnels for matches
  only, met by all three; \<open>stream_codec\<close>, a piece of a stream's head and its reader;
  \<open>stream_transport\<close>, what both ends of a proxied connection need of the tunnel between
  them, met by byte streams and by HTTP/2. Each is interpreted on the model's own definitions in the
  theory that provides them.

  What is shown. Routing: a query answers the specification (\<open>router_match_correct\<close>),
  the cache is the grouping by priority, registering and unregistering refine updates of two
  abstract maps. Selection: the scan equals a declarative reading, selects an open active carrier of
  least priority value, fails exactly when nothing can be selected and takes turns. The manager: in
  every reachable state router and manager know the same tunnels, every rule has a tunnel, and the
  permits of an OUT's handlers add up and bound its active tunnels. Tunnels: heads and requests are read back, truncated heads are errors, tunnels retire
  after 4096 connects and let go with their last stream, transferred bytes arrive once and in order.
  Fake addresses, those in the hints of HTTPS answers included, keep their meaning while their
  record lives, and the table stays well formed. The proxy: sniffing ends and loses nothing, what a
  client sends arrives at its destination, through the output its tag names, and the answer at the
  client, over both transports; a name that was resolved is routed by; and nothing is connected
  without a rule that asks for it, which an OUT with a tunnel has published if it is not the IN's
  own. Datagrams: destinations are decided once, replies come in the name of what was asked, sockets
  are released, late when an association times out. Matching: a waiting OUT whose key stands can be
  matched, and whatever Redis loses, delays or
  repeats, the two sides agree on each other and on the tunnel, no match is shared, the tunnels that the
  providers of all protocols hand out are what the manager assumes, and an IN routes by what the OUTs
  have announced; certificates keep a tunnel between these two. It is shown which pending streams are lost, and which silent peers stop a
  listener or a provider for good. The configuration: the defaults agree, the smallest one
  starts with the values it is meant to, an IN starts exactly when every step of its start succeeds,
  and while there is no tunnel it lets nothing out that no rule sends out directly. Where the code does something else than it means to, the theorem states what it does.

  Bounds. The reading loop of the sniffing ends at the sixth read without data
  (\<open>read_attempts_limit\<close> is 5); the identifiers of fake IPv4 addresses stay in their network below
  2 to the power of 17, which \<open>id_fits\<close> and the properties that need it state; the select index and the
  numbers of streams wrap or are bounded as words.

  Not modelled: logging, the clock and module files, which only call libraries; how the
  configuration file is parsed; the abort of tasks when their owner is dropped; and the installation scripts.
\<close>

end
